(* ===== verification/Prelude.thy ===== *)
theory Prelude
  imports Main "HOL-Library.AList" "HOL-Library.Monad_Syntax" "HOL-Library.Multiset"
begin

text \<open>
  Shared vocabulary of the development.

  A call that returns normally with result \<open>x\<close> is \<open>Some x\<close>; \<open>None\<close> is a call
  that does not return normally: a nil-pointer or index panic, or a loop that never ends.
  Every theorem that says a call returns is therefore stated as \<open>f x = Some y\<close>.

  The built-in map of Go is an association list with distinct keys, so that \<open>len\<close> is
  computable; the interface its clients use is the locale \<open>go_map\<close>.
\<close>

named_theorems gomap "laws of the Go map operations"
named_theorems dll "facts about doubly linked segments of the heap"

subsection \<open>The Go map\<close>

type_synonym ('k, 'a) gomap = "('k \<times> 'a) list"

definition gm_empty :: "('k, 'a) gomap" where
  "gm_empty = []"

definition gm_get :: "('k, 'a) gomap \<Rightarrow> 'k \<Rightarrow> 'a option" where
  "gm_get m k = map_of m k"

definition gm_put :: "'k \<Rightarrow> 'a \<Rightarrow> ('k, 'a) gomap \<Rightarrow> ('k, 'a) gomap" where
  "gm_put k v m = AList.update k v m"

definition gm_del :: "'k \<Rightarrow> ('k, 'a) gomap \<Rightarrow> ('k, 'a) gomap" where
  "gm_del k m = AList.delete k m"

definition gm_len :: "('k, 'a) gomap \<Rightarrow> nat" where
  "gm_len m = length m"

definition gm_ok :: "('k, 'a) gomap \<Rightarrow> bool" where
  "gm_ok m \<longleftrightarrow> distinct (map fst m)"

locale go_map =
  fixes empty :: "'m"
    and get :: "'m \<Rightarrow> 'k \<Rightarrow> 'a option"
    and put :: "'k \<Rightarrow> 'a \<Rightarrow> 'm \<Rightarrow> 'm"
    and del :: "'k \<Rightarrow> 'm \<Rightarrow> 'm"
    and len :: "'m \<Rightarrow> nat"
    and ok :: "'m \<Rightarrow> bool"
  assumes get_empty: "get empty k = None"
    and get_put: "get (put k v m) k' = (if k' = k then Some v else get m k')"
    and get_del: "ok m \<Longrightarrow> get (del k m) k' = (if k' = k then None else get m k')"
    and ok_empty: "ok empty"
    and ok_put: "ok m \<Longrightarrow> ok (put k v m)"
    and ok_del: "ok m \<Longrightarrow> ok (del k m)"
    and finite_dom: "finite (dom (get m))"
    and len_card: "ok m \<Longrightarrow> len m = card (dom (get m))"
begin

lemma dom_put: "dom (get (put k v m)) = insert k (dom (get m))"
  by (auto simp: get_put dom_def)

lemma dom_del: "ok m \<Longrightarrow> dom (get (del k m)) = dom (get m) - {k}"
  by (auto simp: get_del dom_def)

lemma len_empty: "len empty = 0"
  by (simp add: len_card ok_empty get_empty dom_def)

lemma len_put: "ok m \<Longrightarrow> len (put k v m) = (if get m k = None then Suc (len m) else len m)"
  by (simp add: len_card ok_put dom_put finite_dom card_insert_if domIff)

lemma len_del: "ok m \<Longrightarrow> len (del k m) = (if get m k = None then len m else len m - 1)"
  by (auto simp: len_card ok_del dom_del finite_dom card_Diff_singleton_if domIff)

end

lemma gm_ok_simps:
  "gm_ok gm_empty"
  "gm_ok m \<Longrightarrow> gm_ok (gm_put k v m)"
  "gm_ok m \<Longrightarrow> gm_ok (gm_del k m)"
  by (simp_all add: gm_ok_def gm_empty_def gm_put_def gm_del_def distinct_update distinct_delete)

lemma gm_len_card: "gm_ok m \<Longrightarrow> gm_len m = card (dom (gm_get m))"
  using distinct_card [of "map fst m"]
  by (simp add: gm_len_def gm_ok_def gm_get_def [abs_def] dom_map_of_conv_image_fst)

interpretation gmap: go_map gm_empty gm_get gm_put gm_del gm_len gm_ok
  by unfold_locales
    (simp_all add: gm_ok_simps gm_len_card,
      simp_all add: gm_get_def [abs_def] gm_empty_def gm_put_def gm_del_def update_conv'
        delete_conv' finite_dom_map_of)

lemmas gmap_laws [gomap] =
  gmap.get_empty gmap.get_put gmap.get_del gmap.ok_empty gmap.ok_put gmap.ok_del
  gmap.len_empty gmap.len_put gmap.len_del

subsection \<open>Lists\<close>

definition first_or :: "'a list \<Rightarrow> 'a option \<Rightarrow> 'a option" where
  "first_or xs q = (case xs of [] \<Rightarrow> q | x # _ \<Rightarrow> Some x)"

definition last_or :: "'a option \<Rightarrow> 'a list \<Rightarrow> 'a option" where
  "last_or p xs = (if xs = [] then p else Some (last xs))"

lemma first_or_simps [simp]:
  "first_or [] q = q"
  "first_or (x # xs) q = Some x"
  by (simp_all add: first_or_def)

lemma first_or_append: "first_or (xs @ ys) q = first_or xs (first_or ys q)"
  by (cases xs) simp_all

lemma last_or_simps [simp]:
  "last_or p [] = p"
  "last_or p (x # xs) = last_or (Some x) xs"
  "last_or p (xs @ [x]) = Some x"
  by (simp_all add: last_or_def)

lemma last_or_append: "last_or p (xs @ ys) = last_or (last_or p xs) ys"
  by (simp add: last_or_def)

lemma first_or_None_iff [simp]: "first_or xs None = None \<longleftrightarrow> xs = []"
  by (cases xs) simp_all

lemma last_or_None_iff [simp]: "last_or None xs = None \<longleftrightarrow> xs = []"
  by (simp add: last_or_def)

subsection \<open>Numbers in text\<close>

definition digit :: "nat \<Rightarrow> char" where
  "digit d = ''0123456789abcdef'' ! d"

text \<open>\<open>strconv.Itoa\<close> and \<open>strconv.AppendUint\<close> on a number that is not negative.\<close>

fun itoa :: "nat \<Rightarrow> string" where
  "itoa n = (if n < 10 then [digit n] else itoa (n div 10) @ [digit (n mod 10)])"

declare itoa.simps [simp del]

fun hex_text :: "nat \<Rightarrow> string" where
  "hex_text n = (if n < 16 then [digit n] else hex_text (n div 16) @ [digit (n mod 16)])"

declare hex_text.simps [simp del]

fun join :: "'a list \<Rightarrow> 'a list list \<Rightarrow> 'a list" where
  "join sep [] = []"
| "join sep [x] = x"
| "join sep (x # y # xs) = x @ sep @ join sep (y # xs)"

definition digit_val :: "char \<Rightarrow> nat" where
  "digit_val c = of_char c - 48"

definition dec_val :: "string \<Rightarrow> nat" where
  "dec_val s = foldl (\<lambda>acc c. 10 * acc + digit_val c) 0 s"

lemma digit_val_digit [simp]:
  assumes "d < 10"
  shows "digit_val (digit d) = d"
proof -
  from assms have "d \<in> {0, 1, 2, 3, 4, 5, 6, 7, 8, 9}" by auto
  then show ?thesis by (auto simp: digit_val_def digit_def)
qed

lemma dec_val_itoa [simp]: "dec_val (itoa n) = n"
proof (induction n rule: itoa.induct)
  case (1 n)
  show ?case
  proof (cases "n < 10")
    case True
    then show ?thesis by (simp add: dec_val_def itoa.simps [of n])
  next
    case False
    with 1 have "dec_val (itoa (n div 10)) = n div 10" by simp
    with False show ?thesis by (simp add: dec_val_def itoa.simps [of n])
  qed
qed

lemma itoa_inject [simp]: "itoa m = itoa n \<longleftrightarrow> m = n"
  by (metis dec_val_itoa)

lemma itoa_nonempty [simp]: "itoa n \<noteq> []"
  by (simp add: itoa.simps [of n])

end
