(* ===== verification/Cache_Spec.thy ===== *)
theory Cache_Spec
  imports Prelude
begin

text \<open>
  What the expiration cache promises, on the list of its entries in iteration order (earliest
  expiration first). An entry is a key, a value and an expiration time; times are any linear
  order. The two set operations of the cache differ in one parameter only, the function that
  inserts an entry at its place, so what they promise is stated once over the interface
  \<open>ordered_insert\<close> and interpreted for the insertion from the head and from the tail.
\<close>

type_synonym ('k, 'v, 't) ent = "'k \<times> 'v \<times> 't"

abbreviation ekey :: "('k, 'v, 't) ent \<Rightarrow> 'k" where
  "ekey x \<equiv> fst x"

abbreviation eval_of :: "('k, 'v, 't) ent \<Rightarrow> 'v" where
  "eval_of x \<equiv> fst (snd x)"

abbreviation eexp :: "('k, 'v, 't) ent \<Rightarrow> 't" where
  "eexp x \<equiv> snd (snd x)"

definition exp_sorted :: "('k, 'v, 't::linorder) ent list \<Rightarrow> bool" where
  "exp_sorted xs \<longleftrightarrow> sorted (map eexp xs)"

definition spec_inv :: "int \<Rightarrow> ('k, 'v, 't::linorder) ent list \<Rightarrow> bool" where
  "spec_inv cap xs \<longleftrightarrow> exp_sorted xs \<and> distinct (map fst xs) \<and> int (length xs) \<le> cap"

subsection \<open>Operations on the entry list\<close>

definition spec_lookup :: "('k, 'v, 't) ent list \<Rightarrow> 'k \<Rightarrow> ('v \<times> 't) option" where
  "spec_lookup xs k = map_of xs k"

definition spec_get :: "('k, 'v, 't::linorder) ent list \<Rightarrow> 'k \<Rightarrow> 't \<Rightarrow> 'v option" where
  "spec_get xs k now =
     (case spec_lookup xs k of None \<Rightarrow> None | Some (v, e) \<Rightarrow> if now < e then Some v else None)"

definition spec_prune :: "'t::linorder \<Rightarrow> ('k, 'v, 't) ent list \<Rightarrow> ('k, 'v, 't) ent list" where
  "spec_prune now xs = dropWhile (\<lambda>x. \<not> now < eexp x) xs"

definition spec_evict :: "int \<Rightarrow> ('k, 'v, 't) ent list \<Rightarrow> ('k, 'v, 't) ent list" where
  "spec_evict cap xs = (if int (length xs) < cap then xs else tl xs)"

definition spec_remove :: "'k \<Rightarrow> ('k, 'v, 't) ent list \<Rightarrow> ('k, 'v, 't) ent list" where
  "spec_remove k xs = filter (\<lambda>x. ekey x \<noteq> k) xs"

text \<open>Entries of equal expiration: from the head a new entry goes last, from the tail first.\<close>

fun ins_head :: "('k, 'v, 't::linorder) ent \<Rightarrow> ('k, 'v, 't) ent list \<Rightarrow> ('k, 'v, 't) ent list" where
  "ins_head x [] = [x]"
| "ins_head x (y # ys) = (if eexp x < eexp y then x # y # ys else y # ins_head x ys)"

fun ins_before_rev :: "('k, 'v, 't::linorder) ent \<Rightarrow> ('k, 'v, 't) ent list \<Rightarrow> ('k, 'v, 't) ent list"
where
  "ins_before_rev x [] = [x]"
| "ins_before_rev x (y # ys) = (if eexp y < eexp x then x # y # ys else y # ins_before_rev x ys)"

definition ins_tail :: "('k, 'v, 't::linorder) ent \<Rightarrow> ('k, 'v, 't) ent list \<Rightarrow> ('k, 'v, 't) ent list"
where
  "ins_tail x xs = rev (ins_before_rev x (rev xs))"

definition spec_make_room ::
  "int \<Rightarrow> 'k \<Rightarrow> 't::linorder \<Rightarrow> ('k, 'v, 't) ent list \<Rightarrow> ('k, 'v, 't) ent list" where
  "spec_make_room cap k now xs =
     (let ys = spec_prune now xs
      in if k \<in> fst ` set ys then spec_remove k ys else spec_evict cap ys)"

definition spec_set ::
  "(('k, 'v, 't) ent \<Rightarrow> ('k, 'v, 't) ent list \<Rightarrow> ('k, 'v, 't) ent list) \<Rightarrow> int \<Rightarrow> 'k \<Rightarrow> 'v \<Rightarrow>
   't::linorder \<Rightarrow> 't \<Rightarrow> ('k, 'v, 't) ent list \<Rightarrow> ('k, 'v, 't) ent list" where
  "spec_set ins cap k v now e xs = ins (k, v, e) (spec_make_room cap k now xs)"

text \<open>What a consumer sees that may stop early.\<close>

fun spec_iter :: "('s \<Rightarrow> 'k \<Rightarrow> 'v \<Rightarrow> 's \<times> bool) \<Rightarrow> ('k, 'v, 't) ent list \<Rightarrow> 's \<Rightarrow> 's" where
  "spec_iter yield [] s = s"
| "spec_iter yield (x # xs) s =
     (case yield s (ekey x) (eval_of x) of
        (s', go_on) \<Rightarrow> if go_on then spec_iter yield xs s' else s')"

subsection \<open>Facts about the parts\<close>

lemma sorted_map_snoc:
  "sorted (map f (xs @ [x])) \<longleftrightarrow> sorted (map f xs) \<and> (\<forall>y\<in>set xs. f y \<le> f x)"
  by (auto simp: sorted_append)

lemma exp_sorted_simps [simp]:
  "exp_sorted []"
  "exp_sorted (x # xs) \<longleftrightarrow> (\<forall>y\<in>set xs. eexp x \<le> eexp y) \<and> exp_sorted xs"
  by (auto simp: exp_sorted_def)

lemma exp_sorted_append:
  "exp_sorted (xs @ ys) \<longleftrightarrow>
     exp_sorted xs \<and> exp_sorted ys \<and> (\<forall>x\<in>set xs. \<forall>y\<in>set ys. eexp x \<le> eexp y)"
  by (auto simp: exp_sorted_def sorted_append)

lemma exp_sorted_filter: "exp_sorted xs \<Longrightarrow> exp_sorted (filter P xs)"
  by (induction xs) auto

lemma exp_sorted_tl: "exp_sorted xs \<Longrightarrow> exp_sorted (tl xs)"
  by (cases xs) auto

lemma spec_prune_filter:
  "exp_sorted xs \<Longrightarrow> spec_prune now xs = filter (\<lambda>x. now < eexp x) xs"
proof (induction xs)
  case Nil
  then show ?case by (simp add: spec_prune_def)
next
  case (Cons x xs)
  show ?case
  proof (cases "now < eexp x")
    case True
    with Cons.prems have "\<forall>y\<in>set xs. now < eexp y" by auto
    with True show ?thesis by (simp add: spec_prune_def)
  next
    case False
    with Cons show ?thesis by (simp add: spec_prune_def)
  qed
qed

lemma spec_inv_prune: "spec_inv cap xs \<Longrightarrow> spec_inv cap (spec_prune now xs)"
  by (auto simp: spec_inv_def spec_prune_filter exp_sorted_filter distinct_map_filter
      intro: order_trans [of _ "int (length xs)"])

lemma spec_inv_remove: "spec_inv cap xs \<Longrightarrow> spec_inv cap (spec_remove k xs)"
  by (auto simp: spec_inv_def spec_remove_def exp_sorted_filter distinct_map_filter
      intro: order_trans [of _ "int (length xs)"])

lemma spec_remove_split:
  assumes "distinct (map fst (xs @ x # ys))"
  shows "spec_remove (ekey x) (xs @ x # ys) = xs @ ys"
proof -
  from assms have "filter (\<lambda>y. ekey y \<noteq> ekey x) xs = xs" "filter (\<lambda>y. ekey y \<noteq> ekey x) ys = ys"
    by (auto intro!: filter_True simp: image_iff)
  then show ?thesis by (simp add: spec_remove_def)
qed

lemma spec_inv_tl: "spec_inv cap xs \<Longrightarrow> spec_inv cap (tl xs)"
  by (cases xs) (auto simp: spec_inv_def)

lemma distinct_lookup_filter:
  "distinct (map fst xs) \<Longrightarrow>
   map_of (filter P xs) k =
     (case map_of xs k of None \<Rightarrow> None | Some y \<Rightarrow> if P (k, y) then Some y else None)"
  by (induction xs) (auto split: option.splits simp: map_of_eq_None_iff)

subsection \<open>Making room: prune, then drop the old entry of the key or evict the earliest\<close>

lemma set_tl_subset: "x \<in> set (tl xs) \<Longrightarrow> x \<in> set xs"
  by (cases xs) auto

lemma spec_make_room_notin: "k \<notin> fst ` set (spec_make_room cap k now xs)"
proof (cases "k \<in> fst ` set (spec_prune now xs)")
  case True
  then show ?thesis by (auto simp: spec_make_room_def Let_def spec_remove_def)
next
  case False
  then have "k \<notin> fst ` set (tl (spec_prune now xs))"
    by (auto dest: set_tl_subset)
  with False show ?thesis by (simp add: spec_make_room_def Let_def spec_evict_def)
qed

lemma spec_make_room_inv: "spec_inv cap xs \<Longrightarrow> spec_inv cap (spec_make_room cap k now xs)"
  by (simp add: spec_make_room_def Let_def spec_evict_def spec_inv_prune spec_inv_remove
      spec_inv_tl)

lemma spec_make_room_length:
  assumes "0 < cap" and "spec_inv cap xs"
  shows "int (length (spec_make_room cap k now xs)) < cap"
proof -
  let ?ys = "spec_prune now xs"
  have inv: "spec_inv cap ?ys" by (rule spec_inv_prune [OF assms(2)])
  show ?thesis
  proof (cases "k \<in> fst ` set ?ys")
    case True
    then have "length (spec_remove k ?ys) < length ?ys"
      by (auto simp: spec_remove_def intro!: length_filter_less)
    with True inv show ?thesis by (auto simp: spec_make_room_def Let_def spec_inv_def)
  next
    case False
    with inv assms(1) show ?thesis
      by (cases ?ys) (auto simp: spec_make_room_def Let_def spec_inv_def spec_evict_def)
  qed
qed

text \<open>Which entry, if any, leaves the cache for a new key.\<close>

definition spec_victim :: "int \<Rightarrow> 'k \<Rightarrow> 't::linorder \<Rightarrow> ('k, 'v, 't) ent list \<Rightarrow> 'k option" where
  "spec_victim cap k now xs =
     (case spec_prune now xs of
        [] \<Rightarrow> None
      | y # ys \<Rightarrow>
          if k \<notin> fst ` set (y # ys) \<and> cap \<le> int (length (y # ys)) then Some (ekey y) else None)"

lemma spec_make_room_lookup:
  assumes inv: "spec_inv cap xs" and other: "k' \<noteq> k"
  shows "spec_lookup (spec_make_room cap k now xs) k' =
    (case spec_lookup xs k' of
       None \<Rightarrow> None
     | Some (v, e) \<Rightarrow>
         if now < e \<and> spec_victim cap k now xs \<noteq> Some k' then Some (v, e) else None)"
proof -
  let ?ys = "spec_prune now xs"
  from inv have srt: "exp_sorted xs" and dst: "distinct (map fst xs)"
    by (auto simp: spec_inv_def)
  have pr: "map_of ?ys k' = (case map_of xs k' of
      None \<Rightarrow> None | Some (v, e) \<Rightarrow> if now < e then Some (v, e) else None)"
    by (simp add: spec_prune_filter srt distinct_lookup_filter dst split: option.splits)
  have dys: "distinct (map fst ?ys)"
    using inv spec_inv_prune by (auto simp: spec_inv_def)
  show ?thesis
  proof (cases "k \<in> fst ` set ?ys")
    case True
    have "map_of (spec_remove k ?ys) k' = map_of ?ys k'"
      using other by (simp add: spec_remove_def distinct_lookup_filter dys split: option.splits)
    with True pr show ?thesis
      by (auto simp: spec_lookup_def spec_make_room_def spec_victim_def Let_def
          split: option.splits list.splits)
  next
    case False
    show ?thesis
    proof (cases ?ys)
      case Nil
      with pr show ?thesis
        by (auto simp: spec_lookup_def spec_make_room_def spec_victim_def Let_def spec_evict_def
            split: option.splits if_splits)
    next
      case (Cons y ys)
      with dys have "map_of ys (ekey y) = None" by (simp add: map_of_eq_None_iff)
      with Cons False pr show ?thesis
        by (cases y) (auto simp: spec_lookup_def spec_make_room_def spec_victim_def Let_def
            spec_evict_def split: option.splits if_splits)
    qed
  qed
qed

subsection \<open>The interface of the two insertions\<close>

locale ordered_insert =
  fixes ins :: "('k, 'v, 't::linorder) ent \<Rightarrow> ('k, 'v, 't) ent list \<Rightarrow> ('k, 'v, 't) ent list"
  assumes mset_ins: "mset (ins x xs) = add_mset x (mset xs)"
    and sorted_ins: "exp_sorted xs \<Longrightarrow> exp_sorted (ins x xs)"
begin

lemma set_ins: "set (ins x xs) = insert x (set xs)"
  using arg_cong [OF mset_ins, of set_mset] by simp

lemma length_ins: "length (ins x xs) = Suc (length xs)"
  using arg_cong [OF mset_ins, of size] by simp

lemma distinct_ins:
  "distinct (map fst xs) \<Longrightarrow> ekey x \<notin> fst ` set xs \<Longrightarrow> distinct (map fst (ins x xs))"
proof -
  assume *: "distinct (map fst xs)" "ekey x \<notin> fst ` set xs"
  have "mset (map fst (ins x xs)) = mset (map fst (x # xs))"
    by (simp add: mset_ins)
  then have "distinct (map fst (ins x xs)) = distinct (map fst (x # xs))"
    by (rule mset_eq_imp_distinct_iff)
  with * show ?thesis by simp
qed

lemma lookup_ins:
  assumes "distinct (map fst xs)" and "ekey x \<notin> fst ` set xs"
  shows "spec_lookup (ins x xs) k = (if k = ekey x then Some (snd x) else spec_lookup xs k)"
proof -
  have "map_of (ins x xs) = map_of (x # xs)"
    by (rule map_of_inject_set [THEN iffD2])
      (simp_all add: distinct_ins assms set_ins)
  then show ?thesis by (cases x) (simp add: spec_lookup_def)
qed

lemma inv_set:
  assumes "0 < cap" and "spec_inv cap xs"
  shows "spec_inv cap (spec_set ins cap k v now e xs)"
proof -
  from spec_make_room_inv [OF assms(2), of k now] spec_make_room_length [OF assms, of k now]
  show ?thesis
    by (auto simp: spec_inv_def spec_set_def sorted_ins distinct_ins length_ins
        spec_make_room_notin)
qed

lemma lookup_set:
  assumes "spec_inv cap xs"
  shows "spec_lookup (spec_set ins cap k v now e xs) k' =
    (if k' = k then Some (v, e) else spec_lookup (spec_make_room cap k now xs) k')"
proof -
  from spec_make_room_inv [OF assms, of k now] show ?thesis
    by (simp add: spec_inv_def spec_set_def lookup_ins spec_make_room_notin)
qed

end

lemma ins_head_mset: "mset (ins_head x xs) = add_mset x (mset xs)"
  by (induction x xs rule: ins_head.induct) auto

lemma ins_head_sorted: "exp_sorted xs \<Longrightarrow> exp_sorted (ins_head x xs)"
proof (induction x xs rule: ins_head.induct)
  case (2 x y ys)
  have "set (ins_head x ys) = insert x (set ys)"
    using arg_cong [OF ins_head_mset, of set_mset] by simp
  with 2 show ?case by (auto simp: not_less)
qed simp

lemma ins_before_rev_mset: "mset (ins_before_rev x xs) = add_mset x (mset xs)"
  by (induction x xs rule: ins_before_rev.induct) auto

lemma ins_before_rev_sorted:
  "exp_sorted (rev xs) \<Longrightarrow> exp_sorted (rev (ins_before_rev x xs))"
proof (induction x xs rule: ins_before_rev.induct)
  case (2 x y ys)
  have "set (ins_before_rev x ys) = insert x (set ys)"
    using arg_cong [OF ins_before_rev_mset, of set_mset] by simp
  with 2 show ?case by (auto simp: exp_sorted_append not_less)
qed simp

interpretation from_head: ordered_insert ins_head
  by unfold_locales (rule ins_head_mset, rule ins_head_sorted)

interpretation from_tail: ordered_insert ins_tail
  by unfold_locales (simp_all add: ins_tail_def ins_before_rev_mset ins_before_rev_sorted)

text \<open>The places where the insertions put the new entry, on a sorted list.\<close>

lemma ins_head_split:
  "exp_sorted xs \<Longrightarrow>
   ins_head x xs = filter (\<lambda>y. eexp y \<le> eexp x) xs @ x # filter (\<lambda>y. eexp x < eexp y) xs"
proof (induction x xs rule: ins_head.induct)
  case (2 x y ys)
  show ?case
  proof (cases "eexp x < eexp y")
    case True
    with 2 have "\<forall>z\<in>set ys. eexp x < eexp z" by auto
    with True show ?thesis by (auto simp: filter_empty_conv not_le)
  next
    case False
    with 2 show ?thesis by (simp add: not_less)
  qed
qed simp

lemma ins_before_rev_split:
  "exp_sorted (rev xs) \<Longrightarrow> ins_before_rev x xs =
    filter (\<lambda>y. eexp x \<le> eexp y) xs @ x # filter (\<lambda>y. eexp y < eexp x) xs"
proof (induction x xs rule: ins_before_rev.induct)
  case (2 x y ys)
  show ?case
  proof (cases "eexp y < eexp x")
    case True
    with 2 have "\<forall>z\<in>set ys. eexp z < eexp x" by (auto simp: exp_sorted_append)
    with True show ?thesis by (auto simp: filter_empty_conv not_le)
  next
    case False
    with 2 show ?thesis by (simp add: not_less exp_sorted_append)
  qed
qed simp

lemma ins_tail_simps [simp]:
  "ins_tail x [] = [x]"
  "ins_tail x (xs @ [y]) = (if eexp y < eexp x then xs @ [y, x] else ins_tail x xs @ [y])"
  by (simp_all add: ins_tail_def)

lemma ins_tail_split:
  "exp_sorted xs \<Longrightarrow>
   ins_tail x xs = filter (\<lambda>y. eexp y < eexp x) xs @ x # filter (\<lambda>y. eexp x \<le> eexp y) xs"
  using ins_before_rev_split [of "rev xs" x] by (simp add: ins_tail_def rev_filter)

end
