(* ===== verification/Cache_Heap.thy ===== *)
theory Cache_Heap
  imports Prelude
begin

text \<open>
  The expiration cache of cache/cache.go as the code has it: nodes of a doubly linked list in a
  heap, a map from keys to node addresses, a head and a tail pointer. A pointer is an
  \<open>addr option\<close> with \<open>None\<close> for nil; allocation takes the next unused address. The
  operations follow the code statement by statement, and a field is read again wherever the code
  reads it again. Dereferencing nil gives \<open>None\<close>, and so does a loop that never ends.

  Locks are the subject of Cache\_Race and Cache\_Locks; the operations here are what one call does
  while it holds the lock. Keys are compared with HOL equality, which is what the comparison of
  Go does for every key type whose equality is reflexive (all but those holding a NaN).
\<close>

type_synonym addr = nat

record ('k, 'v) Entry =
  Key :: 'k
  Value :: 'v

record ('k, 'v, 't) expirationNode =
  prev_p :: "addr option"
  next_p :: "addr option"
  expiresAt :: 't
  entry :: "('k, 'v) Entry"

record ('k, 'v, 't) ExpirationCache =
  nodeByKey :: "('k, addr) gomap"
  capacity :: int
  head_p :: "addr option"
  tail_p :: "addr option"
  heap :: "addr \<Rightarrow> ('k, 'v, 't) expirationNode option"
  fresh :: addr

definition MaxInt :: int where
  "MaxInt = 2 ^ 63 - 1"

definition NewExpirationCache :: "int \<Rightarrow> ('k, 'v, 't) ExpirationCache" where
  "NewExpirationCache cap =
     \<lparr>nodeByKey = gm_empty, capacity = (if cap \<le> 0 then MaxInt else cap),
      head_p = None, tail_p = None, heap = Map.empty, fresh = 0\<rparr>"

subsection \<open>Reading\<close>

definition Len :: "('k, 'v, 't) ExpirationCache \<Rightarrow> int" where
  "Len c = int (gm_len (nodeByKey c))"

definition Capacity :: "('k, 'v, 't) ExpirationCache \<Rightarrow> int" where
  "Capacity c = capacity c"

definition Contains :: "('k, 'v, 't) ExpirationCache \<Rightarrow> 'k \<Rightarrow> bool" where
  "Contains c key = (gm_get (nodeByKey c) key \<noteq> None)"

text \<open>Whether the read lock could be taken at once is the environment's choice.\<close>

definition TryContains :: "bool \<Rightarrow> ('k, 'v, 't) ExpirationCache \<Rightarrow> 'k \<Rightarrow> bool" where
  "TryContains got_rlock c key = (if got_rlock then gm_get (nodeByKey c) key \<noteq> None else False)"

text \<open>
  The outer option is normal return; the inner one is the pair of value and ok
  (\<open>None\<close> for the zero value and false).
\<close>

definition Get ::
  "('k, 'v, 't::linorder) ExpirationCache \<Rightarrow> 'k \<Rightarrow> 't \<Rightarrow> 'v option option" where
  "Get c key now =
     (case gm_get (nodeByKey c) key of
        None \<Rightarrow> Some None
      | Some a \<Rightarrow> do {
          node \<leftarrow> heap c a;
          if \<not> now < expiresAt node then Some None else Some (Some (Value (entry node)))
        })"

definition GetEntry ::
  "('k, 'v, 't::linorder) ExpirationCache \<Rightarrow> 'k \<Rightarrow> 't \<Rightarrow> ('k, 'v) Entry option option" where
  "GetEntry c key now =
     (case gm_get (nodeByKey c) key of
        None \<Rightarrow> Some None
      | Some a \<Rightarrow> do {
          node \<leftarrow> heap c a;
          if \<not> now < expiresAt node then Some None else Some (Some (entry node))
        })"

subsection \<open>Linking and unlinking nodes\<close>

definition modify ::
  "addr \<Rightarrow> (('k, 'v, 't) expirationNode \<Rightarrow> ('k, 'v, 't) expirationNode) \<Rightarrow>
   ('k, 'v, 't) ExpirationCache \<Rightarrow> ('k, 'v, 't) ExpirationCache option" where
  "modify a f c =
     (case heap c a of None \<Rightarrow> None | Some n \<Rightarrow> Some (c\<lparr>heap := (heap c)(a \<mapsto> f n)\<rparr>))"

definition insertBefore ::
  "addr \<Rightarrow> addr \<Rightarrow> ('k, 'v, 't) ExpirationCache \<Rightarrow> ('k, 'v, 't) ExpirationCache option" where
  "insertBefore node mark c = do {
     m \<leftarrow> heap c mark;
     c \<leftarrow> modify node (\<lambda>n. n\<lparr>prev_p := prev_p m\<rparr>) c;
     c \<leftarrow> modify node (\<lambda>n. n\<lparr>next_p := Some mark\<rparr>) c;
     m \<leftarrow> heap c mark;
     c \<leftarrow> (case prev_p m of
            Some p \<Rightarrow> modify p (\<lambda>n. n\<lparr>next_p := Some node\<rparr>) c
          | None \<Rightarrow> Some (c\<lparr>head_p := Some node\<rparr>));
     modify mark (\<lambda>n. n\<lparr>prev_p := Some node\<rparr>) c
   }"

definition insertAfter ::
  "addr \<Rightarrow> addr \<Rightarrow> ('k, 'v, 't) ExpirationCache \<Rightarrow> ('k, 'v, 't) ExpirationCache option" where
  "insertAfter node mark c = do {
     c \<leftarrow> modify node (\<lambda>n. n\<lparr>prev_p := Some mark\<rparr>) c;
     m \<leftarrow> heap c mark;
     c \<leftarrow> modify node (\<lambda>n. n\<lparr>next_p := next_p m\<rparr>) c;
     m \<leftarrow> heap c mark;
     c \<leftarrow> (case next_p m of
            Some q \<Rightarrow> modify q (\<lambda>n. n\<lparr>prev_p := Some node\<rparr>) c
          | None \<Rightarrow> Some (c\<lparr>tail_p := Some node\<rparr>));
     modify mark (\<lambda>n. n\<lparr>next_p := Some node\<rparr>) c
   }"

definition detach ::
  "addr \<Rightarrow> ('k, 'v, 't) ExpirationCache \<Rightarrow> ('k, 'v, 't) ExpirationCache option" where
  "detach node c = do {
     n \<leftarrow> heap c node;
     c \<leftarrow> (case prev_p n of
            Some p \<Rightarrow> modify p (\<lambda>m. m\<lparr>next_p := next_p n\<rparr>) c
          | None \<Rightarrow> Some (c\<lparr>head_p := next_p n\<rparr>));
     n \<leftarrow> heap c node;
     (case next_p n of
        Some q \<Rightarrow> modify q (\<lambda>m. m\<lparr>prev_p := prev_p n\<rparr>) c
      | None \<Rightarrow> Some (c\<lparr>tail_p := prev_p n\<rparr>))
   }"

definition remove ::
  "addr \<Rightarrow> ('k, 'v, 't) ExpirationCache \<Rightarrow> ('k, 'v, 't) ExpirationCache option" where
  "remove node c = do {
     n \<leftarrow> heap c node;
     detach node (c\<lparr>nodeByKey := gm_del (Key (entry n)) (nodeByKey c)\<rparr>)
   }"

subsection \<open>Pruning\<close>

partial_function (option) pruneExpired_loop ::
  "'t::linorder \<Rightarrow> addr option \<Rightarrow> ('k, 'v, 't) ExpirationCache \<Rightarrow>
   ('k, 'v, 't) ExpirationCache option" where
  "pruneExpired_loop now node c =
     (case node of
        None \<Rightarrow> Some c
      | Some a \<Rightarrow> do {
          n \<leftarrow> heap c a;
          if now < expiresAt n then Some c
          else do {
            c' \<leftarrow> remove a c;
            n' \<leftarrow> heap c' a;
            pruneExpired_loop now (next_p n') c'
          }
        })"

definition pruneExpired ::
  "'t::linorder \<Rightarrow> ('k, 'v, 't) ExpirationCache \<Rightarrow> ('k, 'v, 't) ExpirationCache option" where
  "pruneExpired now c = pruneExpired_loop now (head_p c) c"

definition pruneOldest ::
  "('k, 'v, 't) ExpirationCache \<Rightarrow> ('k, 'v, 't) ExpirationCache option" where
  "pruneOldest c =
     (if int (gm_len (nodeByKey c)) < capacity c then Some c
      else do { a \<leftarrow> head_p c; remove a c })"

subsection \<open>Setting\<close>

definition getOrCreateNode ::
  "'k \<Rightarrow> 'v \<Rightarrow> 't::linorder \<Rightarrow> 't \<Rightarrow> ('k, 'v, 't) ExpirationCache \<Rightarrow>
   (addr \<times> ('k, 'v, 't) ExpirationCache) option" where
  "getOrCreateNode key value now expires c = do {
     c \<leftarrow> pruneExpired now c;
     (case gm_get (nodeByKey c) key of
        None \<Rightarrow> do {
          c \<leftarrow> pruneOldest c;
          let node = fresh c;
          Some (node, c\<lparr>
            heap := (heap c)(node \<mapsto> \<lparr>prev_p = None, next_p = None, expiresAt = expires,
                                      entry = \<lparr>Key = key, Value = value\<rparr>\<rparr>),
            fresh := Suc node,
            nodeByKey := gm_put key node (nodeByKey c)\<rparr>)
        }
      | Some node \<Rightarrow> do {
          c \<leftarrow> detach node c;
          c \<leftarrow> modify node (\<lambda>n. n\<lparr>expiresAt := expires\<rparr>) c;
          c \<leftarrow> modify node (\<lambda>n. n\<lparr>entry := (entry n)\<lparr>Value := value\<rparr>\<rparr>) c;
          Some (node, c)
        })
   }"

partial_function (option) setFromHead_loop ::
  "'t::linorder \<Rightarrow> addr \<Rightarrow> addr \<Rightarrow> ('k, 'v, 't) ExpirationCache \<Rightarrow>
   ('k, 'v, 't) ExpirationCache option" where
  "setFromHead_loop expires node mark c = do {
     m \<leftarrow> heap c mark;
     if expires < expiresAt m then insertBefore node mark c
     else (case next_p m of
             None \<Rightarrow> do { t \<leftarrow> tail_p c; insertAfter node t c }
           | Some mark' \<Rightarrow> setFromHead_loop expires node mark' c)
   }"

partial_function (option) setFromTail_loop ::
  "'t::linorder \<Rightarrow> addr \<Rightarrow> addr \<Rightarrow> ('k, 'v, 't) ExpirationCache \<Rightarrow>
   ('k, 'v, 't) ExpirationCache option" where
  "setFromTail_loop expires node mark c = do {
     m \<leftarrow> heap c mark;
     if expiresAt m < expires then insertAfter node mark c
     else (case prev_p m of
             None \<Rightarrow> do { h \<leftarrow> head_p c; insertBefore node h c }
           | Some mark' \<Rightarrow> setFromTail_loop expires node mark' c)
   }"

definition placeFromHead ::
  "'t::linorder \<Rightarrow> addr \<Rightarrow> ('k, 'v, 't) ExpirationCache \<Rightarrow>
   ('k, 'v, 't) ExpirationCache option" where
  "placeFromHead expires node c =
     (case head_p c of
        None \<Rightarrow> Some (c\<lparr>head_p := Some node, tail_p := Some node\<rparr>)
      | Some mark \<Rightarrow> setFromHead_loop expires node mark c)"

definition placeFromTail ::
  "'t::linorder \<Rightarrow> addr \<Rightarrow> ('k, 'v, 't) ExpirationCache \<Rightarrow>
   ('k, 'v, 't) ExpirationCache option" where
  "placeFromTail expires node c =
     (case tail_p c of
        None \<Rightarrow> Some (c\<lparr>head_p := Some node, tail_p := Some node\<rparr>)
      | Some mark \<Rightarrow> setFromTail_loop expires node mark c)"

definition SetFromHead ::
  "'k \<Rightarrow> 'v \<Rightarrow> 't::linorder \<Rightarrow> 't \<Rightarrow> ('k, 'v, 't) ExpirationCache \<Rightarrow>
   ('k, 'v, 't) ExpirationCache option" where
  "SetFromHead key value now expires c = do {
     (node, c) \<leftarrow> getOrCreateNode key value now expires c;
     placeFromHead expires node c
   }"

definition SetFromTail ::
  "'k \<Rightarrow> 'v \<Rightarrow> 't::linorder \<Rightarrow> 't \<Rightarrow> ('k, 'v, 't) ExpirationCache \<Rightarrow>
   ('k, 'v, 't) ExpirationCache option" where
  "SetFromTail key value now expires c = do {
     (node, c) \<leftarrow> getOrCreateNode key value now expires c;
     placeFromTail expires node c
   }"

subsection \<open>Removing\<close>

definition Remove ::
  "'k \<Rightarrow> ('k, 'v, 't) ExpirationCache \<Rightarrow> (bool \<times> ('k, 'v, 't) ExpirationCache) option" where
  "Remove key c =
     (case gm_get (nodeByKey c) key of
        None \<Rightarrow> Some (False, c)
      | Some node \<Rightarrow> do { c \<leftarrow> remove node c; Some (True, c) })"

definition Clear :: "('k, 'v, 't) ExpirationCache \<Rightarrow> ('k, 'v, 't) ExpirationCache" where
  "Clear c = c\<lparr>nodeByKey := gm_empty, head_p := None, tail_p := None\<rparr>"

subsection \<open>Iterating\<close>

text \<open>
  The consumer of an iterator is a state passing function: it gets its own state, a key and a
  value, and returns its new state and whether it wants more. It runs under the read lock, so it
  cannot change the cache.
\<close>

partial_function (option) All_loop ::
  "('s \<Rightarrow> 'k \<Rightarrow> 'v \<Rightarrow> 's \<times> bool) \<Rightarrow> addr option \<Rightarrow> ('k, 'v, 't) ExpirationCache \<Rightarrow> 's \<Rightarrow>
   's option" where
  "All_loop yield node c s =
     (case node of
        None \<Rightarrow> Some s
      | Some a \<Rightarrow> do {
          n \<leftarrow> heap c a;
          case yield s (Key (entry n)) (Value (entry n)) of
            (s', go_on) \<Rightarrow> if \<not> go_on then Some s' else All_loop yield (next_p n) c s'
        })"

partial_function (option) Backward_loop ::
  "('s \<Rightarrow> 'k \<Rightarrow> 'v \<Rightarrow> 's \<times> bool) \<Rightarrow> addr option \<Rightarrow> ('k, 'v, 't) ExpirationCache \<Rightarrow> 's \<Rightarrow>
   's option" where
  "Backward_loop yield node c s =
     (case node of
        None \<Rightarrow> Some s
      | Some a \<Rightarrow> do {
          n \<leftarrow> heap c a;
          case yield s (Key (entry n)) (Value (entry n)) of
            (s', go_on) \<Rightarrow> if \<not> go_on then Some s' else Backward_loop yield (prev_p n) c s'
        })"

definition All ::
  "('k, 'v, 't) ExpirationCache \<Rightarrow> ('s \<Rightarrow> 'k \<Rightarrow> 'v \<Rightarrow> 's \<times> bool) \<Rightarrow> 's \<Rightarrow> 's option" where
  "All c yield s = All_loop yield (head_p c) c s"

definition Backward ::
  "('k, 'v, 't) ExpirationCache \<Rightarrow> ('s \<Rightarrow> 'k \<Rightarrow> 'v \<Rightarrow> 's \<times> bool) \<Rightarrow> 's \<Rightarrow> 's option" where
  "Backward c yield s = Backward_loop yield (tail_p c) c s"

end
