(* ===== verification/Cache_Refine.thy ===== *)
theory Cache_Refine
  imports Cache_Spec Cache_Heap
begin

text \<open>
  The pointer program of Cache_Heap implements the entry list of Cache_Spec. The relation
  \<open>represents\<close> links the two: the linked list from head to tail visits, in order, nodes that
  hold the entries of the list, the back pointers mirror the forward ones, and the key map
  leads to exactly the nodes of the list.
\<close>

subsection \<open>Doubly linked segments\<close>

fun dllseg :: "(addr \<Rightarrow> ('k, 'v, 't) expirationNode option) \<Rightarrow> addr option \<Rightarrow> addr list \<Rightarrow>
    addr option \<Rightarrow> bool" where
  "dllseg h p [] q \<longleftrightarrow> True"
| "dllseg h p (a # as) q \<longleftrightarrow>
     (case h a of
        None \<Rightarrow> False
      | Some n \<Rightarrow> prev_p n = p \<and> next_p n = first_or as q \<and> dllseg h (Some a) as q)"

definition dll_ok :: "('k, 'v, 't) ExpirationCache \<Rightarrow> addr list \<Rightarrow> bool" where
  "dll_ok c as \<longleftrightarrow> distinct as \<and> dllseg (heap c) None as None \<and>
     head_p c = first_or as None \<and> tail_p c = last_or None as"

text \<open>What a node holds besides its links.\<close>

definition node_data ::
  "(addr \<Rightarrow> ('k, 'v, 't) expirationNode option) \<Rightarrow> addr \<Rightarrow> ('k, 'v, 't) ent option" where
  "node_data h a = map_option (\<lambda>n. (Key (entry n), Value (entry n), expiresAt n)) (h a)"

definition frame ::
  "('k, 'v, 't) ExpirationCache \<Rightarrow> ('k, 'v, 't) ExpirationCache \<Rightarrow> bool" where
  "frame c c' \<longleftrightarrow> node_data (heap c') = node_data (heap c) \<and> nodeByKey c' = nodeByKey c \<and>
     capacity c' = capacity c \<and> fresh c' = fresh c"

definition indexed :: "('k, 'v, 't) ExpirationCache \<Rightarrow> addr set \<Rightarrow> bool" where
  "indexed c A \<longleftrightarrow> gm_ok (nodeByKey c) \<and> finite A \<and> (\<forall>a\<in>A. a < fresh c) \<and>
     (\<forall>k a. gm_get (nodeByKey c) k = Some a \<longleftrightarrow>
        a \<in> A \<and> (\<exists>v e. node_data (heap c) a = Some (k, v, e)))"

definition linked ::
  "('k, 'v, 't) ExpirationCache \<Rightarrow> addr list \<Rightarrow> ('k, 'v, 't) ent list \<Rightarrow> bool" where
  "linked c as xs \<longleftrightarrow> dll_ok c as \<and> map (node_data (heap c)) as = map Some xs"

definition represents ::
  "('k, 'v, 't::linorder) ExpirationCache \<Rightarrow> int \<Rightarrow> ('k, 'v, 't) ent list \<Rightarrow> bool" where
  "represents c cap xs \<longleftrightarrow> capacity c = cap \<and> 0 < cap \<and> spec_inv cap xs \<and>
     (\<exists>as. linked c as xs \<and> indexed c (set as))"

lemma dllseg_append [dll]:
  "dllseg h p (xs @ ys) q \<longleftrightarrow>
     dllseg h p xs (first_or ys q) \<and> dllseg h (last_or p xs) ys q"
  by (induction xs arbitrary: p) (auto simp: first_or_append split: option.splits)

lemma dllseg_update [dll]: "a \<notin> set as \<Longrightarrow> dllseg (h(a := n)) p as q = dllseg h p as q"
  by (induction as arbitrary: p) (auto split: option.splits)

lemma dllseg_alloc: "dllseg h p as q \<Longrightarrow> a \<in> set as \<Longrightarrow> \<exists>n. h a = Some n"
  by (induction as arbitrary: p) (auto split: option.splits)

lemma dllseg_set_prev:
  "dllseg h p (a # as) q \<Longrightarrow> a \<notin> set as \<Longrightarrow> h a = Some n \<Longrightarrow>
   dllseg (h(a \<mapsto> n\<lparr>prev_p := p'\<rparr>)) p' (a # as) q"
  by (simp add: dllseg_update)

lemma dllseg_set_next:
  "dllseg h p (as @ [a]) q \<Longrightarrow> a \<notin> set as \<Longrightarrow> h a = Some n \<Longrightarrow>
   dllseg (h(a \<mapsto> n\<lparr>next_p := q'\<rparr>)) p (as @ [a]) q'"
  by (simp add: dllseg_append dllseg_update)

lemma node_data_None [simp]: "node_data h a = None \<longleftrightarrow> h a = None"
  by (simp add: node_data_def)

lemma node_data_upd_links:
  "h a = Some n \<Longrightarrow> entry n' = entry n \<Longrightarrow> expiresAt n' = expiresAt n \<Longrightarrow>
   node_data (h(a \<mapsto> n')) = node_data h"
  by (auto simp: node_data_def fun_eq_iff)

lemma frame_refl [simp]: "frame c c"
  by (simp add: frame_def)

lemma frame_trans: "frame c c' \<Longrightarrow> frame c' c'' \<Longrightarrow> frame c c''"
  by (simp add: frame_def)

lemma indexed_frame: "frame c c' \<Longrightarrow> indexed c' A = indexed c A"
  by (simp add: frame_def indexed_def)

lemma linked_Nil [simp]: "linked c [] xs \<longleftrightarrow> xs = [] \<and> head_p c = None \<and> tail_p c = None"
  by (auto simp: linked_def dll_ok_def)

subsection \<open>The link operations\<close>

lemma detach_dll:
  assumes "dll_ok c (xs @ a # ys)"
  shows "\<exists>c'. detach a c = Some c' \<and> dll_ok c' (xs @ ys) \<and> frame c c' \<and> heap c' a = heap c a"
proof -
  from assms obtain n where n: "heap c a = Some n" "prev_p n = last_or None xs"
      "next_p n = first_or ys None"
    and seg: "dllseg (heap c) None xs (Some a)" "dllseg (heap c) (Some a) ys None"
    and dst: "distinct (xs @ a # ys)"
    and ends: "head_p c = first_or xs (Some a)" "tail_p c = last_or (Some a) ys"
    by (auto simp: dll_ok_def dll first_or_append last_or_append split: option.splits)
  show ?thesis
  proof (cases xs rule: rev_cases; cases ys)
    assume "xs = []" "ys = []"
    with n show ?thesis by (simp add: detach_def dll_ok_def frame_def)
  next
    fix y ys' assume e: "xs = []" "ys = y # ys'"
    with seg obtain m where m: "heap c y = Some m" by (auto split: option.splits)
    from e n m seg dst ends show ?thesis
      by (auto simp: detach_def modify_def dll_ok_def frame_def node_data_upd_links dll)
  next
    fix xs' x assume e: "xs = xs' @ [x]" "ys = []"
    with seg obtain m where m: "heap c x = Some m" by (auto simp: dll split: option.splits)
    from e n m seg dst ends show ?thesis
      by (auto simp: detach_def modify_def dll_ok_def frame_def node_data_upd_links dll
          first_or_append split: option.splits)
  next
    fix xs' x y ys' assume e: "xs = xs' @ [x]" "ys = y # ys'"
    with seg obtain m where m: "heap c x = Some m" by (auto simp: dll split: option.splits)
    from e seg obtain m' where m': "heap c y = Some m'" by (auto split: option.splits)
    from e n m m' seg dst ends show ?thesis
      by (auto simp: detach_def modify_def dll_ok_def frame_def node_data_upd_links dll
          first_or_append last_or_append split: option.splits)
  qed
qed

lemma insertBefore_dll:
  assumes "dll_ok c (xs @ m # ys)" and "a \<notin> set (xs @ m # ys)" and "heap c a \<noteq> None"
  shows "\<exists>c'. insertBefore a m c = Some c' \<and> dll_ok c' (xs @ a # m # ys) \<and> frame c c'"
proof -
  from assms(3) obtain n0 where n0: "heap c a = Some n0" by auto
  from assms(1) obtain n where n: "heap c m = Some n" "prev_p n = last_or None xs"
      "next_p n = first_or ys None"
    and seg: "dllseg (heap c) None xs (Some m)" "dllseg (heap c) (Some m) ys None"
    and dst: "distinct (xs @ m # ys)"
    and ends: "head_p c = first_or xs (Some m)" "tail_p c = last_or (Some m) ys"
    by (auto simp: dll_ok_def dll first_or_append last_or_append split: option.splits)
  show ?thesis
  proof (cases xs rule: rev_cases)
    case Nil
    with n0 n seg dst ends assms(2) show ?thesis
      by (auto simp: insertBefore_def modify_def dll_ok_def frame_def node_data_upd_links dll)
  next
    case (snoc xs' x)
    with seg obtain m' where m': "heap c x = Some m'" by (auto simp: dll split: option.splits)
    from snoc m' n0 n seg dst ends assms(2) show ?thesis
      by (auto simp: insertBefore_def modify_def dll_ok_def frame_def node_data_upd_links dll
          first_or_append last_or_append split: option.splits)
  qed
qed

lemma insertAfter_dll:
  assumes "dll_ok c (xs @ m # ys)" and "a \<notin> set (xs @ m # ys)" and "heap c a \<noteq> None"
  shows "\<exists>c'. insertAfter a m c = Some c' \<and> dll_ok c' (xs @ m # a # ys) \<and> frame c c'"
proof -
  from assms(3) obtain n0 where n0: "heap c a = Some n0" by auto
  from assms(1) obtain n where n: "heap c m = Some n" "prev_p n = last_or None xs"
      "next_p n = first_or ys None"
    and seg: "dllseg (heap c) None xs (Some m)" "dllseg (heap c) (Some m) ys None"
    and dst: "distinct (xs @ m # ys)"
    and ends: "head_p c = first_or xs (Some m)" "tail_p c = last_or (Some m) ys"
    by (auto simp: dll_ok_def dll first_or_append last_or_append split: option.splits)
  show ?thesis
  proof (cases ys)
    case Nil
    with n0 n seg dst ends assms(2) show ?thesis
      by (auto simp: insertAfter_def modify_def dll_ok_def frame_def node_data_upd_links dll
          first_or_append last_or_append)
  next
    case (Cons y ys')
    with seg obtain m' where m': "heap c y = Some m'" by (auto simp: dll split: option.splits)
    from Cons m' n0 n seg dst ends assms(2) show ?thesis
      by (auto simp: insertAfter_def modify_def dll_ok_def frame_def node_data_upd_links dll
          first_or_append last_or_append split: option.splits)
  qed
qed

lemma modify_data_dll:
  assumes "dll_ok c as" and "a \<notin> set as" and "heap c a = Some n"
  shows "dll_ok (c\<lparr>heap := (heap c)(a \<mapsto> n')\<rparr>) as"
  using assms by (simp add: dll_ok_def dll)

subsection \<open>Removing a node of the list\<close>

lemma indexed_key:
  "indexed c A \<Longrightarrow> a \<in> A \<Longrightarrow> node_data (heap c) a = Some (k, v, e) \<Longrightarrow>
   gm_get (nodeByKey c) k = Some a"
  by (auto simp: indexed_def)

lemma indexed_same_key:
  "indexed c A \<Longrightarrow> a \<in> A \<Longrightarrow> b \<in> A \<Longrightarrow> node_data (heap c) a = Some (k, v, e) \<Longrightarrow>
   node_data (heap c) b = Some (k, v', e') \<Longrightarrow> a = b"
  by (metis indexed_key option.inject)

definition heap_frame ::
  "('k, 'v, 't) ExpirationCache \<Rightarrow> ('k, 'v, 't) ExpirationCache \<Rightarrow> bool" where
  "heap_frame c c' \<longleftrightarrow> node_data (heap c') = node_data (heap c) \<and>
     capacity c' = capacity c \<and> fresh c' = fresh c"

lemma heap_frame_refl [simp]: "heap_frame c c"
  by (simp add: heap_frame_def)

lemma heap_frame_trans: "heap_frame c c' \<Longrightarrow> heap_frame c' c'' \<Longrightarrow> heap_frame c c''"
  by (simp add: heap_frame_def)

lemma indexed_delete:
  assumes "indexed c A" and "a \<in> A" and "node_data (heap c) a = Some (k, v, e)"
    and "nodeByKey c' = gm_del k (nodeByKey c)" and "heap_frame c c'"
  shows "indexed c' (A - {a})"
proof -
  have same: "b = a" if "b \<in> A" "node_data (heap c) b = Some (k, v', e')" for b v' e'
    using indexed_same_key [OF assms(1) that(1) assms(2) that(2) assms(3)] .
  have ok: "gm_ok (nodeByKey c)" and
    at: "gm_get (nodeByKey c) k' = Some b \<longleftrightarrow>
      b \<in> A \<and> (\<exists>v e. node_data (heap c) b = Some (k', v, e))" for k' b
    using assms(1) by (auto simp: indexed_def)
  have "gm_get (gm_del k (nodeByKey c)) k' = Some b \<longleftrightarrow>
      b \<in> A - {a} \<and> (\<exists>v e. node_data (heap c) b = Some (k', v, e))" for k' b
  proof (cases "k' = k")
    case True
    with same show ?thesis by (auto simp: gmap.get_del [OF ok])
  next
    case False
    with assms(3) show ?thesis by (auto simp: gmap.get_del [OF ok] at)
  qed
  with assms show ?thesis
    by (auto simp: indexed_def heap_frame_def gomap)
qed

lemma remove_linked:
  assumes "linked c (as @ a # bs) (xs @ x # ys)" and "length as = length xs"
    and "indexed c (set (as @ a # bs))"
  shows "\<exists>c'. remove a c = Some c' \<and> linked c' (as @ bs) (xs @ ys) \<and>
    indexed c' (set (as @ bs)) \<and> heap_frame c c' \<and> heap c' a = heap c a"
proof -
  from assms have dll: "dll_ok c (as @ a # bs)" and dst: "distinct (as @ a # bs)"
    and data: "map (node_data (heap c)) (as @ bs) = map Some (xs @ ys)"
      "node_data (heap c) a = Some x"
    by (auto simp: linked_def dll_ok_def)
  obtain k v e where x: "x = (k, v, e)" by (cases x)
  from data(2) x obtain n where n: "heap c a = Some n" "Key (entry n) = k"
    by (auto simp: node_data_def)
  let ?c = "c\<lparr>nodeByKey := gm_del k (nodeByKey c)\<rparr>"
  from dll have "dll_ok ?c (as @ a # bs)" by (simp add: dll_ok_def)
  from detach_dll [OF this] obtain c' where c': "detach a ?c = Some c'" "dll_ok c' (as @ bs)"
      "frame ?c c'" "heap c' a = heap c a" by auto
  have fr: "heap_frame c c'" and m: "nodeByKey c' = gm_del k (nodeByKey c)"
    using c'(3) by (auto simp: frame_def heap_frame_def)
  have "set (as @ bs) = set (as @ a # bs) - {a}" using dst by auto
  then have "indexed c' (set (as @ bs))"
    using indexed_delete [OF assms(3) _ _ m fr, of a v e] data(2) x by simp
  with c' n data fr show ?thesis
    by (auto simp: remove_def linked_def heap_frame_def)
qed

subsection \<open>Pruning\<close>

lemma linked_Cons_node:
  assumes "linked c (a # as) xs"
  obtains n x ys where "heap c a = Some n" and "xs = x # ys" and "eexp x = expiresAt n"
    and "ekey x = Key (entry n)" and "next_p n = first_or as None" and "head_p c = Some a"
  using assms
  by (cases xs) (auto simp: linked_def dll_ok_def node_data_def split: option.splits)

lemma pruneExpired_loop_linked:
  "linked c as xs \<Longrightarrow> indexed c (set as) \<Longrightarrow>
   \<exists>c' as'. pruneExpired_loop now (first_or as None) c = Some c' \<and>
     linked c' as' (spec_prune now xs) \<and> indexed c' (set as') \<and> heap_frame c c'"
proof (induction as arbitrary: c xs)
  case Nil
  then show ?case
    by (intro exI [of _ c] exI [of _ "[]"])
      (simp add: pruneExpired_loop.simps spec_prune_def)
next
  case (Cons a as)
  from Cons.prems(1) obtain n x ys where n: "heap c a = Some n" and xs: "xs = x # ys"
    and e: "eexp x = expiresAt n" and nx: "next_p n = first_or as None"
    by (rule linked_Cons_node)
  show ?case
  proof (cases "now < expiresAt n")
    case True
    then have "pruneExpired_loop now (first_or (a # as) None) c = Some c"
      using n by (subst pruneExpired_loop.simps) simp
    moreover from True have "spec_prune now xs = xs" using xs e by (simp add: spec_prune_def)
    ultimately show ?thesis using Cons.prems by fastforce
  next
    case False
    from remove_linked [of c "[]" a as "[]" x ys] Cons.prems xs
    obtain c1 where c1: "remove a c = Some c1" "linked c1 as ys" "indexed c1 (set as)"
        "heap_frame c c1" "heap c1 a = heap c a" by auto
    from Cons.IH [OF c1(2,3)] obtain c' as' where
      c': "pruneExpired_loop now (first_or as None) c1 = Some c'"
        "linked c' as' (spec_prune now ys)" "indexed c' (set as')" "heap_frame c1 c'" by blast
    have "pruneExpired_loop now (first_or (a # as) None) c = Some c'"
      using n False c1(1,5) nx c'(1) by (subst pruneExpired_loop.simps) simp
    moreover have "spec_prune now xs = spec_prune now ys"
      using xs e False by (simp add: spec_prune_def)
    ultimately show ?thesis using c' heap_frame_trans [OF c1(4) c'(4)] by auto
  qed
qed

lemma pruneExpired_linked:
  assumes "linked c as xs" and "indexed c (set as)"
  shows "\<exists>c' as'. pruneExpired now c = Some c' \<and> linked c' as' (spec_prune now xs) \<and>
    indexed c' (set as') \<and> heap_frame c c'"
  using pruneExpired_loop_linked [OF assms] assms(1)
  by (simp add: pruneExpired_def linked_def dll_ok_def)

lemma linked_length: "linked c as xs \<Longrightarrow> length as = length xs"
  unfolding linked_def using map_eq_imp_length_eq by blast

lemma linked_image: "linked c as xs \<Longrightarrow> node_data (heap c) ` set as = Some ` set xs"
  unfolding linked_def by (metis list.set_map)

lemma linked_keys:
  assumes "linked c as xs" and "indexed c (set as)"
  shows "dom (gm_get (nodeByKey c)) = fst ` set xs"
proof (rule set_eqI)
  fix k
  have "k \<in> dom (gm_get (nodeByKey c)) \<longleftrightarrow> (\<exists>a. gm_get (nodeByKey c) k = Some a)"
    by (simp add: dom_def)
  also have "\<dots> \<longleftrightarrow> (\<exists>a v e. a \<in> set as \<and> node_data (heap c) a = Some (k, v, e))"
    using assms(2) by (simp add: indexed_def)
  also have "\<dots> \<longleftrightarrow> (\<exists>v e. Some (k, v, e) \<in> node_data (heap c) ` set as)"
    unfolding image_iff by (metis (no_types))
  also have "\<dots> \<longleftrightarrow> (\<exists>v e. (k, v, e) \<in> set xs)"
    by (auto simp: linked_image [OF assms(1)])
  also have "\<dots> \<longleftrightarrow> k \<in> fst ` set xs" by force
  finally show "k \<in> dom (gm_get (nodeByKey c)) \<longleftrightarrow> k \<in> fst ` set xs" .
qed

lemma linked_get_None:
  "linked c as xs \<Longrightarrow> indexed c (set as) \<Longrightarrow>
   gm_get (nodeByKey c) k = None \<longleftrightarrow> k \<notin> fst ` set xs"
  by (metis domIff linked_keys)

lemma linked_distinct_keys:
  assumes "linked c as xs" and "indexed c (set as)"
  shows "distinct (map fst xs)"
  using assms
proof -
  let ?key = "\<lambda>a. fst (the (node_data (heap c) a))"
  have keys: "map fst xs = map ?key as"
  proof -
    have "map ?key as = map (fst \<circ> the) (map (node_data (heap c)) as)" by simp
    also have "\<dots> = map fst xs" using assms(1) by (simp add: linked_def)
    finally show ?thesis by simp
  qed
  have "inj_on ?key (set as)"
  proof (rule inj_onI)
    fix a b assume ab: "a \<in> set as" "b \<in> set as" "?key a = ?key b"
    have "\<exists>k v e. node_data (heap c) d = Some (k, v, e)" if "d \<in> set as" for d
      using assms(1) that dllseg_alloc
      by (fastforce simp: linked_def dll_ok_def node_data_def)
    with ab obtain k v e v' e' where "node_data (heap c) a = Some (k, v, e)"
        "node_data (heap c) b = Some (k, v', e')" by (metis fst_conv option.sel)
    with indexed_same_key [OF assms(2) ab(1,2)] show "a = b" by blast
  qed
  with assms(1) keys show ?thesis
    by (simp add: distinct_map linked_def dll_ok_def)
qed

lemma linked_len:
  assumes "linked c as xs" and "indexed c (set as)"
  shows "gm_len (nodeByKey c) = length xs"
proof -
  have "gm_len (nodeByKey c) = card (fst ` set xs)"
    using assms by (simp add: gmap.len_card indexed_def linked_keys)
  also have "\<dots> = length xs"
    using distinct_card [OF linked_distinct_keys [OF assms]] by simp
  finally show ?thesis .
qed

lemma pruneOldest_linked:
  assumes "linked c as xs" and "indexed c (set as)" and "0 < capacity c"
  shows "\<exists>c' as'. pruneOldest c = Some c' \<and> linked c' as' (spec_evict (capacity c) xs) \<and>
    indexed c' (set as') \<and> heap_frame c c'"
proof (cases "int (length xs) < capacity c")
  case True
  then have "pruneOldest c = Some c"
    using linked_len [OF assms(1,2)] by (simp add: pruneOldest_def)
  with True assms show ?thesis
    by (intro exI [of _ c] exI [of _ as]) (simp add: spec_evict_def)
next
  case False
  with assms(3) obtain x ys where xs: "xs = x # ys" by (cases xs) auto
  with linked_length [OF assms(1)] obtain a as' where as: "as = a # as'" by (cases as) auto
  from remove_linked [of c "[]" a as' "[]" x ys] assms xs as obtain c' where
    "remove a c = Some c'" "linked c' as' ys" "indexed c' (set as')" "heap_frame c c'" by auto
  moreover have "head_p c = Some a" using assms(1) as by (simp add: linked_def dll_ok_def)
  ultimately show ?thesis using False linked_len [OF assms(1,2)] xs
    by (auto simp: pruneOldest_def spec_evict_def)
qed

subsection \<open>The node of a set operation\<close>

text \<open>
  After \<open>getOrCreateNode\<close> the node is in the key map but in no list; its own links matter only
  when the list is empty, where they must be nil.
\<close>

definition pending ::
  "('k, 'v, 't) ExpirationCache \<Rightarrow> addr \<Rightarrow> ('k, 'v, 't) ent \<Rightarrow> addr list \<Rightarrow>
   ('k, 'v, 't) ent list \<Rightarrow> bool" where
  "pending c a x as xs \<longleftrightarrow> linked c as xs \<and> a \<notin> set as \<and> node_data (heap c) a = Some x \<and>
     indexed c (insert a (set as)) \<and>
     (as = [] \<longrightarrow> map_option prev_p (heap c a) = Some None \<and>
                   map_option next_p (heap c a) = Some None)"

lemma linked_member:
  assumes "linked c as xs" and "a \<in> set as"
  obtains as1 as2 xs1 x xs2 where "as = as1 @ a # as2" and "xs = xs1 @ x # xs2"
    and "length as1 = length xs1" and "node_data (heap c) a = Some x"
proof -
  from assms(2) obtain as1 as2 where as: "as = as1 @ a # as2" by (auto dest: split_list)
  let ?n = "length as1"
  from as linked_length [OF assms(1)] have n: "?n < length xs" by auto
  have "map (node_data (heap c)) as ! ?n = map Some xs ! ?n"
    using assms(1) by (simp add: linked_def)
  with as n have "node_data (heap c) a = Some (xs ! ?n)" by (simp add: nth_append)
  with as id_take_nth_drop [OF n] n show ?thesis
    using that [of as1 as2 "take ?n xs" "xs ! ?n" "drop (Suc ?n) xs"] by simp
qed

lemma pending_new:
  assumes "linked c as xs" and "indexed c (set as)" and "k \<notin> fst ` set xs"
  shows "pending (c\<lparr>heap := (heap c)(fresh c \<mapsto> \<lparr>prev_p = None, next_p = None, expiresAt = e,
      entry = \<lparr>Key = k, Value = v\<rparr>\<rparr>), fresh := Suc (fresh c),
      nodeByKey := gm_put k (fresh c) (nodeByKey c)\<rparr>) (fresh c) (k, v, e) as xs"
    (is "pending (c\<lparr>heap := ?h, fresh := _, nodeByKey := _\<rparr>) _ _ _ _")
proof -
  from assms(2) have notin: "fresh c \<notin> set as" by (auto simp: indexed_def)
  have data: "node_data ?h = (node_data (heap c))(fresh c \<mapsto> (k, v, e))"
    by (auto simp: node_data_def fun_eq_iff)
  have "dll_ok c as" using assms(1) by (simp add: linked_def)
  then have "linked (c\<lparr>heap := ?h, fresh := Suc (fresh c),
      nodeByKey := gm_put k (fresh c) (nodeByKey c)\<rparr>) as xs"
    using assms(1) notin by (simp add: linked_def dll_ok_def dllseg_update data)
  moreover have "gm_get (nodeByKey c) k = None"
    using linked_keys [OF assms(1,2)] assms(3) by (auto simp: dom_def)
  then have "node_data (heap c) a \<noteq> Some (k, v', e')" if "a \<in> set as" for a v' e'
    using indexed_key [OF assms(2) that] by fastforce
  ultimately show ?thesis
    using assms(2) notin by (auto simp: pending_def indexed_def gomap data less_Suc_eq)
qed

lemma pending_detached:
  assumes "linked c (as1 @ a # as2) (xs1 @ x # xs2)" and "length as1 = length xs1"
    and "indexed c (set (as1 @ a # as2))" and "node_data (heap c) a = Some (k, v0, e0)"
  shows "\<exists>c1 c2 c3. detach a c = Some c1 \<and> modify a (\<lambda>n. n\<lparr>expiresAt := e\<rparr>) c1 = Some c2 \<and>
    modify a (\<lambda>n. n\<lparr>entry := (entry n)\<lparr>Value := v\<rparr>\<rparr>) c2 = Some c3 \<and>
    pending c3 a (k, v, e) (as1 @ as2) (xs1 @ xs2) \<and> capacity c3 = capacity c"
proof -
  from assms(1) have dll: "dll_ok c (as1 @ a # as2)"
    and data: "map (node_data (heap c)) (as1 @ as2) = map Some (xs1 @ xs2)"
    using assms(2) by (auto simp: linked_def)
  from detach_dll [OF dll] obtain c1 where c1: "detach a c = Some c1" "dll_ok c1 (as1 @ as2)"
      "frame c c1" "heap c1 a = heap c a" by blast
  have notin: "a \<notin> set (as1 @ as2)" using dll by (auto simp: dll_ok_def)
  from assms(4) obtain n where n: "heap c a = Some n" "Key (entry n) = k"
    by (auto simp: node_data_def)
  let ?n = "n\<lparr>expiresAt := e, entry := (entry n)\<lparr>Value := v\<rparr>\<rparr>"
  let ?c3 = "c1\<lparr>heap := (heap c1)(a \<mapsto> ?n)\<rparr>"
  have nd: "node_data ((heap c1)(a \<mapsto> ?n)) = (node_data (heap c))(a \<mapsto> (k, v, e))"
    using c1(3) n by (auto simp: node_data_def frame_def fun_eq_iff)
  have links: "as1 @ as2 = [] \<longrightarrow> prev_p n = None \<and> next_p n = None"
    using dll n by (auto simp: dll_ok_def)
  have "dll_ok ?c3 (as1 @ as2)"
    using c1(2) notin c1(4) n by (intro modify_data_dll) auto
  then have "linked ?c3 (as1 @ as2) (xs1 @ xs2)"
    using data notin by (simp add: linked_def nd)
  moreover have "indexed ?c3 (insert a (set (as1 @ as2)))"
    using assms(3,4) c1(3) by (auto simp: indexed_def frame_def nd)
  ultimately have "pending ?c3 a (k, v, e) (as1 @ as2) (xs1 @ xs2)"
    using notin links by (simp add: pending_def nd)
  with c1 n show ?thesis by (auto simp: modify_def frame_def)
qed

lemma getOrCreateNode_pending:
  assumes l: "linked c as xs" and i: "indexed c (set as)" and "0 < capacity c"
  shows "\<exists>a c' as'. getOrCreateNode k v now e c = Some (a, c') \<and> capacity c' = capacity c \<and>
    pending c' a (k, v, e) as' (spec_make_room (capacity c) k now xs)"
proof -
  let ?ys = "spec_prune now xs"
  from pruneExpired_linked [OF l i] obtain c1 as1 where c1: "pruneExpired now c = Some c1"
      "linked c1 as1 ?ys" "indexed c1 (set as1)" "heap_frame c c1" by blast
  have cap: "capacity c1 = capacity c" using c1(4) by (simp add: heap_frame_def)
  show ?thesis
  proof (cases "k \<in> fst ` set ?ys")
    case False
    from False have none: "gm_get (nodeByKey c1) k = None"
      using linked_keys [OF c1(2,3)] by (auto simp: dom_def)
    from pruneOldest_linked [OF c1(2,3)] cap assms(3) obtain c2 as2 where
      c2: "pruneOldest c1 = Some c2" "linked c2 as2 (spec_evict (capacity c) ?ys)"
        "indexed c2 (set as2)" "heap_frame c1 c2" by auto
    from False have "k \<notin> fst ` set (spec_evict (capacity c) ?ys)"
      by (auto simp: spec_evict_def dest: set_tl_subset)
    from pending_new [OF c2(2,3) this] c1 c2 none False cap show ?thesis
      by (simp add: getOrCreateNode_def Let_def spec_make_room_def heap_frame_def) blast
  next
    case True
    then obtain a where a: "gm_get (nodeByKey c1) k = Some a"
      using linked_keys [OF c1(2,3)] by (auto simp: dom_def)
    with c1(3) obtain v0 e0 where a': "a \<in> set as1" "node_data (heap c1) a = Some (k, v0, e0)"
      by (auto simp: indexed_def)
    from linked_member [OF c1(2) a'(1)] obtain bs1 bs2 ys1 x ys2 where
      sp: "as1 = bs1 @ a # bs2" "?ys = ys1 @ x # ys2" "length bs1 = length ys1"
        "node_data (heap c1) a = Some x" .
    with a' have x: "x = (k, v0, e0)" by simp
    have "distinct (map fst ?ys)" by (rule linked_distinct_keys [OF c1(2,3)])
    with sp x have rem: "spec_remove k ?ys = ys1 @ ys2"
      using spec_remove_split [of ys1 x ys2] by simp
    have "linked c1 (bs1 @ a # bs2) (ys1 @ x # ys2)" and "indexed c1 (set (bs1 @ a # bs2))"
      using c1 sp by simp_all
    from pending_detached [OF this(1) sp(3) this(2) a'(2), of e v] obtain c2 c3 c4 where
      c4: "detach a c1 = Some c2" "modify a (\<lambda>n. n\<lparr>expiresAt := e\<rparr>) c2 = Some c3"
      "modify a (\<lambda>n. n\<lparr>entry := (entry n)\<lparr>Value := v\<rparr>\<rparr>) c3 = Some c4"
      "pending c4 a (k, v, e) (bs1 @ bs2) (ys1 @ ys2)" "capacity c4 = capacity c1" by blast
    from c1(1) a c4(1-3) have "getOrCreateNode k v now e c = Some (a, c4)"
      by (simp add: getOrCreateNode_def)
    moreover from True rem have "spec_make_room (capacity c) k now xs = ys1 @ ys2"
      by (simp add: spec_make_room_def Let_def)
    ultimately show ?thesis using c4(4,5) cap by auto
  qed
qed

subsection \<open>The two searches for the place of a node\<close>

text \<open>
  What a search must deliver, whichever end it starts from: it ends, and it links the pending
  node so that the list holds what the insertion \<open>ins\<close> of the specification says.
\<close>

locale placement = ordered_insert ins
  for ins :: "('k, 'v, 't::linorder) ent \<Rightarrow> ('k, 'v, 't) ent list \<Rightarrow> ('k, 'v, 't) ent list" +
  fixes place :: "'t \<Rightarrow> addr \<Rightarrow> ('k, 'v, 't) ExpirationCache \<Rightarrow>
    ('k, 'v, 't) ExpirationCache option"
  assumes place_linked: "pending c a (k, v, e) as xs \<Longrightarrow>
    \<exists>c' as'. place e a c = Some c' \<and> linked c' as' (ins (k, v, e) xs) \<and>
      set as' = insert a (set as) \<and> frame c c'"
begin

lemma set_represents:
  assumes "represents c cap xs"
  shows "\<exists>c'. Option.bind (getOrCreateNode k v now e c) (\<lambda>(a, c). place e a c) = Some c' \<and>
    represents c' cap (spec_set ins cap k v now e xs)"
proof -
  from assms obtain as where l: "linked c as xs" "indexed c (set as)"
    and cap: "capacity c = cap" "0 < cap" and inv: "spec_inv cap xs"
    by (auto simp: represents_def)
  from getOrCreateNode_pending [OF l, of k v now e] cap obtain a c1 as1 where
    c1: "getOrCreateNode k v now e c = Some (a, c1)" "capacity c1 = cap"
      "pending c1 a (k, v, e) as1 (spec_make_room cap k now xs)" by auto
  from place_linked [OF c1(3)] obtain c2 as2 where c2: "place e a c1 = Some c2"
      "linked c2 as2 (ins (k, v, e) (spec_make_room cap k now xs))"
      "set as2 = insert a (set as1)" "frame c1 c2" by blast
  have "indexed c2 (set as2)"
    using c1(3) c2(3) indexed_frame [OF c2(4)] by (simp add: pending_def)
  with c1 c2 cap inv_set [OF cap(2) inv, of k v now e] show ?thesis
    by (auto simp: represents_def spec_set_def frame_def)
qed

end

lemma linked_insert:
  assumes "linked c (as1 @ as2) (xs1 @ xs2)" and "length as1 = length xs1"
    and "dll_ok c' (as1 @ a # as2)" and "frame c c'" and "node_data (heap c) a = Some x"
  shows "linked c' (as1 @ a # as2) (xs1 @ x # xs2)"
  using assms by (simp add: linked_def frame_def)

lemma pending_alloc: "pending c a x as xs \<Longrightarrow> heap c a \<noteq> None"
  by (auto simp: pending_def node_data_def)

lemma pending_empty:
  assumes "pending c a x [] xs"
  shows "linked (c\<lparr>head_p := Some a, tail_p := Some a\<rparr>) [a] [x] \<and> xs = []"
  using assms by (auto simp: pending_def linked_def dll_ok_def node_data_def)

lemma linked_mid:
  assumes "linked c (as1 @ m # as2) (xs1 @ y # ys)" and "length as1 = length xs1"
  obtains n where "heap c m = Some n" and "eexp y = expiresAt n"
    and "next_p n = first_or as2 None" and "prev_p n = last_or None as1"
  using assms by (auto simp: linked_def dll_ok_def dll node_data_def split: option.splits)

lemma pending_before:
  assumes "pending c a x (as1 @ m # as2) (xs1 @ y # ys)" and "length as1 = length xs1"
  shows "\<exists>c'. insertBefore a m c = Some c' \<and>
    linked c' (as1 @ a # m # as2) (xs1 @ x # y # ys) \<and> frame c c'"
proof -
  from assms(1) have l: "linked c (as1 @ m # as2) (xs1 @ y # ys)" and ok: "dll_ok c (as1 @ m # as2)"
    and notin: "a \<notin> set (as1 @ m # as2)" and da: "node_data (heap c) a = Some x"
    by (auto simp: pending_def linked_def)
  from insertBefore_dll [OF ok notin pending_alloc [OF assms(1)]] obtain c' where
    "insertBefore a m c = Some c'" "dll_ok c' (as1 @ a # m # as2)" "frame c c'" by blast
  with linked_insert [OF l assms(2) this(2,3) da] show ?thesis by blast
qed

lemma pending_after:
  assumes "pending c a x (as1 @ m # as2) (xs1 @ y # ys)" and "length as1 = length xs1"
  shows "\<exists>c'. insertAfter a m c = Some c' \<and>
    linked c' (as1 @ m # a # as2) (xs1 @ y # x # ys) \<and> frame c c'"
proof -
  from assms(1) have l: "linked c ((as1 @ [m]) @ as2) ((xs1 @ [y]) @ ys)"
    and ok: "dll_ok c (as1 @ m # as2)"
    and notin: "a \<notin> set (as1 @ m # as2)" and da: "node_data (heap c) a = Some x"
    by (auto simp: pending_def linked_def)
  from insertAfter_dll [OF ok notin pending_alloc [OF assms(1)]] obtain c' where
    c': "insertAfter a m c = Some c'" "dll_ok c' ((as1 @ [m]) @ a # as2)" "frame c c'" by auto
  have "length (as1 @ [m]) = length (xs1 @ [y])" using assms(2) by simp
  from linked_insert [OF l this c'(2,3) da] c' show ?thesis by auto
qed

lemma setFromHead_loop_linked:
  assumes "pending c a x (as1 @ m # as2) (xs1 @ y # ys)" and "length as1 = length xs1"
  shows "\<exists>c' as'. setFromHead_loop (eexp x) a m c = Some c' \<and>
    linked c' as' (xs1 @ ins_head x (y # ys)) \<and>
    set as' = insert a (set (as1 @ m # as2)) \<and> frame c c'"
  using assms
proof (induction as2 arbitrary: as1 m xs1 y ys)
  case (Cons m' as2)
  from Cons.prems(1) have l: "linked c (as1 @ m # m' # as2) (xs1 @ y # ys)"
    by (simp add: pending_def)
  from linked_mid [OF l Cons.prems(2)] obtain n where n: "heap c m = Some n"
    "eexp y = expiresAt n" "next_p n = Some m'" by auto
  show ?case
  proof (cases "eexp x < expiresAt n")
    case True
    with n have "setFromHead_loop (eexp x) a m c = insertBefore a m c"
      by (subst setFromHead_loop.simps) simp
    with pending_before [OF Cons.prems] True n show ?thesis by force
  next
    case False
    from linked_length [OF l] Cons.prems(2) obtain z zs where ys: "ys = z # zs"
      by (cases ys) auto
    from Cons.IH [of "as1 @ [m]" m' "xs1 @ [y]" z zs] Cons.prems ys obtain c' as' where
      "setFromHead_loop (eexp x) a m' c = Some c'"
      "linked c' as' ((xs1 @ [y]) @ ins_head x ys)"
      "set as' = insert a (set ((as1 @ [m]) @ m' # as2))" "frame c c'" by auto
    with False n show ?thesis
      by (subst setFromHead_loop.simps) auto
  qed
next
  case Nil
  from Nil.prems(1) have l: "linked c (as1 @ m # []) (xs1 @ y # ys)"
    by (simp add: pending_def)
  from linked_mid [OF l Nil.prems(2)] obtain n where n: "heap c m = Some n"
    "eexp y = expiresAt n" "next_p n = None" by auto
  have tl: "tail_p c = Some m" using l by (simp add: linked_def dll_ok_def)
  from linked_length [OF l] Nil.prems(2) have ys: "ys = []" by simp
  show ?case
  proof (cases "eexp x < expiresAt n")
    case True
    with n have "setFromHead_loop (eexp x) a m c = insertBefore a m c"
      by (subst setFromHead_loop.simps) simp
    with pending_before [OF Nil.prems] True n show ?thesis by force
  next
    case False
    with n tl have "setFromHead_loop (eexp x) a m c = insertAfter a m c"
      by (subst setFromHead_loop.simps) simp
    with pending_after [OF Nil.prems] False n ys show ?thesis by force
  qed
qed

lemma setFromTail_loop_linked:
  assumes "pending c a x (as1 @ m # as2) (xs1 @ y # ys)" and "length as1 = length xs1"
  shows "\<exists>c' as'. setFromTail_loop (eexp x) a m c = Some c' \<and>
    linked c' as' (ins_tail x (xs1 @ [y]) @ ys) \<and>
    set as' = insert a (set (as1 @ m # as2)) \<and> frame c c'"
  using assms
proof (induction as1 arbitrary: m as2 xs1 y ys rule: rev_induct)
  case (snoc m' as1)
  from snoc.prems(1) have l: "linked c ((as1 @ [m']) @ m # as2) (xs1 @ y # ys)"
    by (simp add: pending_def)
  from linked_mid [OF l snoc.prems(2)] obtain n where n: "heap c m = Some n"
    "eexp y = expiresAt n" "prev_p n = Some m'" by auto
  show ?case
  proof (cases "expiresAt n < eexp x")
    case True
    with n have "setFromTail_loop (eexp x) a m c = insertAfter a m c"
      by (subst setFromTail_loop.simps) simp
    with pending_after [OF snoc.prems] True n show ?thesis by force
  next
    case False
    from snoc.prems(2) obtain zs z where xs1: "xs1 = zs @ [z]"
      by (cases xs1 rule: rev_cases) auto
    from snoc.IH [of m' "m # as2" zs z "y # ys"] snoc.prems xs1 obtain c' as' where
      "setFromTail_loop (eexp x) a m' c = Some c'"
      "linked c' as' (ins_tail x xs1 @ y # ys)"
      "set as' = insert a (set (as1 @ m' # m # as2))" "frame c c'"
      by (auto simp del: ins_tail_simps)
    with False n show ?thesis
      by (subst setFromTail_loop.simps) auto
  qed
next
  case Nil
  from Nil.prems(1) have l: "linked c ([] @ m # as2) (xs1 @ y # ys)"
    by (simp add: pending_def)
  from linked_mid [OF l Nil.prems(2)] obtain n where n: "heap c m = Some n"
    "eexp y = expiresAt n" "prev_p n = None" by auto
  have hd: "head_p c = Some m" using l by (simp add: linked_def dll_ok_def)
  from Nil.prems(2) have xs1: "xs1 = []" by simp
  show ?case
  proof (cases "expiresAt n < eexp x")
    case True
    with n have "setFromTail_loop (eexp x) a m c = insertAfter a m c"
      by (subst setFromTail_loop.simps) simp
    with pending_after [OF Nil.prems] True n xs1 ins_tail_simps(2) [of x "[]" y]
    show ?thesis by force
  next
    case False
    with n hd have "setFromTail_loop (eexp x) a m c = insertBefore a m c"
      by (subst setFromTail_loop.simps) simp
    with pending_before [OF Nil.prems] False n xs1 ins_tail_simps(2) [of x "[]" y]
    show ?thesis by force
  qed
qed

lemma placeFromHead_linked:
  assumes "pending c a x as xs"
  shows "\<exists>c' as'. placeFromHead (eexp x) a c = Some c' \<and> linked c' as' (ins_head x xs) \<and>
    set as' = insert a (set as) \<and> frame c c'"
proof (cases as)
  case Nil
  with assms pending_empty [of c a x xs] have xs: "xs = []" and
    l: "linked (c\<lparr>head_p := Some a, tail_p := Some a\<rparr>) [a] [x]" and "head_p c = None"
    by (auto simp: pending_def)
  with Nil show ?thesis
    by (intro exI [of _ "c\<lparr>head_p := Some a, tail_p := Some a\<rparr>"] exI [of _ "[a]"])
      (simp add: placeFromHead_def frame_def)
next
  case (Cons m as')
  with assms have "linked c as xs" and hd: "head_p c = Some m"
    by (auto simp: pending_def linked_def dll_ok_def)
  with Cons obtain y ys where "xs = y # ys" by (cases xs) (auto dest: linked_length)
  with setFromHead_loop_linked [of c a x "[]" m as' "[]" y ys] assms Cons hd show ?thesis
    by (simp add: placeFromHead_def)
qed

lemma placeFromTail_linked:
  assumes "pending c a x as xs"
  shows "\<exists>c' as'. placeFromTail (eexp x) a c = Some c' \<and> linked c' as' (ins_tail x xs) \<and>
    set as' = insert a (set as) \<and> frame c c'"
proof (cases as rule: rev_cases)
  case Nil
  with assms pending_empty [of c a x xs] have xs: "xs = []" and
    l: "linked (c\<lparr>head_p := Some a, tail_p := Some a\<rparr>) [a] [x]" and "tail_p c = None"
    by (auto simp: pending_def)
  with Nil show ?thesis
    by (intro exI [of _ "c\<lparr>head_p := Some a, tail_p := Some a\<rparr>"] exI [of _ "[a]"])
      (simp add: placeFromTail_def frame_def)
next
  case (snoc as' m)
  with assms have l: "linked c as xs" and tl: "tail_p c = Some m"
    by (auto simp: pending_def linked_def dll_ok_def)
  with snoc obtain ys y where xs: "xs = ys @ [y]"
    by (cases xs rule: rev_cases) (auto dest: linked_length)
  with linked_length [OF l] snoc have "length as' = length ys" by simp
  with setFromTail_loop_linked [of c a x as' m "[]" ys y "[]"] assms snoc tl xs show ?thesis
    by (simp add: placeFromTail_def del: ins_tail_simps)
qed

interpretation at_head: placement ins_head placeFromHead
  by unfold_locales (use placeFromHead_linked in fastforce)

interpretation at_tail: placement ins_tail placeFromTail
  by unfold_locales (use placeFromTail_linked in fastforce)

subsection \<open>Every operation implements its specification\<close>

lemma New_represents:
  "represents (NewExpirationCache cap) (if cap \<le> 0 then MaxInt else cap) []"
  by (auto simp: represents_def NewExpirationCache_def spec_inv_def indexed_def gomap MaxInt_def
      intro!: exI [of _ "[]"])

lemma SetFromHead_represents:
  "represents c cap xs \<Longrightarrow> \<exists>c'. SetFromHead k v now e c = Some c' \<and>
   represents c' cap (spec_set ins_head cap k v now e xs)"
  using at_head.set_represents [of c cap xs k v now e] by (simp add: SetFromHead_def)

lemma SetFromTail_represents:
  "represents c cap xs \<Longrightarrow> \<exists>c'. SetFromTail k v now e c = Some c' \<and>
   represents c' cap (spec_set ins_tail cap k v now e xs)"
  using at_tail.set_represents [of c cap xs k v now e] by (simp add: SetFromTail_def)

lemma Remove_represents:
  assumes "represents c cap xs"
  shows "\<exists>c'. Remove k c = Some (k \<in> fst ` set xs, c') \<and> represents c' cap (spec_remove k xs)"
proof -
  from assms obtain as where l: "linked c as xs" and i: "indexed c (set as)"
    and cap: "capacity c = cap" "0 < cap" and inv: "spec_inv cap xs"
    by (auto simp: represents_def)
  note dom = linked_get_None [OF l i, of k]
  show ?thesis
  proof (cases "gm_get (nodeByKey c) k")
    case None
    with dom have k: "k \<notin> fst ` set xs" by simp
    then have "spec_remove k xs = xs" by (auto simp: spec_remove_def filter_id_conv)
    with None k assms show ?thesis by (simp add: Remove_def)
  next
    case (Some a)
    with dom have k: "k \<in> fst ` set xs" by simp
    from Some i obtain v e where a: "a \<in> set as" "node_data (heap c) a = Some (k, v, e)"
      by (auto simp: indexed_def)
    from linked_member [OF l a(1)] obtain as1 as2 xs1 x xs2 where sp: "as = as1 @ a # as2"
      "xs = xs1 @ x # xs2" "length as1 = length xs1" "node_data (heap c) a = Some x" .
    with a(2) have x: "ekey x = k" by simp
    have "linked c (as1 @ a # as2) (xs1 @ x # xs2)" "indexed c (set (as1 @ a # as2))"
      using l i sp by simp_all
    from remove_linked [OF this(1) sp(3) this(2)] obtain c' where c': "remove a c = Some c'"
      "linked c' (as1 @ as2) (xs1 @ xs2)" "indexed c' (set (as1 @ as2))" "heap_frame c c'"
      by blast
    have "spec_remove k xs = xs1 @ xs2"
      using spec_remove_split [of xs1 x xs2] sp(2) x linked_distinct_keys [OF l i] by simp
    with c' Some k cap spec_inv_remove [OF inv, of k] show ?thesis
      by (auto simp: Remove_def represents_def heap_frame_def)
  qed
qed

lemma Clear_represents: "represents c cap xs \<Longrightarrow> represents (Clear c) cap []"
  by (auto simp: represents_def Clear_def spec_inv_def indexed_def gomap intro!: exI [of _ "[]"])

lemma represents_get_None:
  assumes "represents c cap xs"
  shows "gm_get (nodeByKey c) k = None \<longleftrightarrow> k \<notin> fst ` set xs"
proof -
  from assms obtain as where "linked c as xs" "indexed c (set as)"
    by (auto simp: represents_def)
  then show ?thesis by (rule linked_get_None)
qed

lemma Contains_represents: "represents c cap xs \<Longrightarrow> Contains c k \<longleftrightarrow> k \<in> fst ` set xs"
  by (simp add: Contains_def represents_get_None)

lemma TryContains_represents:
  "represents c cap xs \<Longrightarrow> TryContains locked c k \<longleftrightarrow> locked \<and> k \<in> fst ` set xs"
  by (simp add: TryContains_def represents_get_None)

lemma Capacity_represents: "represents c cap xs \<Longrightarrow> Capacity c = cap"
  by (simp add: Capacity_def represents_def)

lemma Len_represents: "represents c cap xs \<Longrightarrow> Len c = int (length xs)"
  by (auto simp: represents_def Len_def linked_len)

lemma represents_lookup:
  assumes "represents c cap xs"
  shows "gm_get (nodeByKey c) k = None \<longleftrightarrow> spec_lookup xs k = None"
    and "gm_get (nodeByKey c) k = Some a \<Longrightarrow>
      \<exists>n. heap c a = Some n \<and> Key (entry n) = k \<and>
        spec_lookup xs k = Some (Value (entry n), expiresAt n)"
proof -
  from assms obtain as where l: "linked c as xs" and i: "indexed c (set as)"
    by (auto simp: represents_def)
  from linked_get_None [OF l i] show "gm_get (nodeByKey c) k = None \<longleftrightarrow> spec_lookup xs k = None"
    by (simp add: spec_lookup_def map_of_eq_None_iff)
  assume "gm_get (nodeByKey c) k = Some a"
  with i obtain v e where a: "a \<in> set as" "node_data (heap c) a = Some (k, v, e)"
    by (auto simp: indexed_def)
  have "Some (k, v, e) \<in> node_data (heap c) ` set as"
    using a by (metis imageI)
  then have "(k, v, e) \<in> set xs" by (auto simp: linked_image [OF l])
  with linked_distinct_keys [OF l i] have "spec_lookup xs k = Some (v, e)"
    by (simp add: spec_lookup_def map_of_is_SomeI)
  with a(2) show "\<exists>n. heap c a = Some n \<and> Key (entry n) = k \<and>
        spec_lookup xs k = Some (Value (entry n), expiresAt n)"
    by (auto simp: node_data_def)
qed

lemma Get_represents: "represents c cap xs \<Longrightarrow> Get c k now = Some (spec_get xs k now)"
  using represents_lookup [of c cap xs k]
  by (auto simp: Get_def spec_get_def split: option.splits)

lemma GetEntry_represents:
  "represents c cap xs \<Longrightarrow> GetEntry c k now =
     Some (map_option (\<lambda>v. \<lparr>Key = k, Value = v\<rparr>) (spec_get xs k now))"
  using represents_lookup [of c cap xs k]
  by (auto simp: GetEntry_def spec_get_def split: option.splits)

lemma All_loop_linked:
  "dllseg (heap c) p as None \<Longrightarrow> map (node_data (heap c)) as = map Some xs \<Longrightarrow>
   All_loop yield (first_or as None) c s = Some (spec_iter yield xs s)"
proof (induction as arbitrary: p xs s)
  case Nil
  then show ?case by (simp add: All_loop.simps)
next
  case (Cons a as)
  then obtain x ys n where "xs = x # ys" "heap c a = Some n" "node_data (heap c) a = Some x"
    "next_p n = first_or as None" "dllseg (heap c) (Some a) as None"
    by (cases xs) (auto split: option.splits)
  with Cons show ?case
    by (subst All_loop.simps) (auto simp: node_data_def split: prod.splits)
qed

lemma Backward_loop_linked:
  "dllseg (heap c) None as q \<Longrightarrow> map (node_data (heap c)) as = map Some xs \<Longrightarrow>
   Backward_loop yield (last_or None as) c s = Some (spec_iter yield (rev xs) s)"
proof (induction as arbitrary: q xs s rule: rev_induct)
  case Nil
  then show ?case by (simp add: Backward_loop.simps)
next
  case (snoc a as)
  then obtain x ys where xs: "xs = ys @ [x]" by (cases xs rule: rev_cases) auto
  with snoc.prems obtain n where "heap c a = Some n" "node_data (heap c) a = Some x"
    "prev_p n = last_or None as" "dllseg (heap c) None as (Some a)"
    "map (node_data (heap c)) as = map Some ys"
    by (auto simp: dll split: option.splits)
  with snoc.IH [of "Some a" ys] xs show ?case
    by (subst Backward_loop.simps) (auto simp: node_data_def [of _ a] split: prod.splits)
qed

lemma All_represents: "represents c cap xs \<Longrightarrow> All c yield s = Some (spec_iter yield xs s)"
  by (auto simp: represents_def All_def linked_def dll_ok_def intro: All_loop_linked)

lemma Backward_represents:
  "represents c cap xs \<Longrightarrow> Backward c yield s = Some (spec_iter yield (rev xs) s)"
  by (auto simp: represents_def Backward_def linked_def dll_ok_def intro: Backward_loop_linked)

lemmas cache_refinement =
  SetFromHead_represents SetFromTail_represents Remove_represents Clear_represents
  Contains_represents TryContains_represents Capacity_represents Len_represents Get_represents GetEntry_represents All_represents
  Backward_represents

end
