(* ===== verification/Cache_Props.thy ===== *)
theory Cache_Props
  imports Cache_Refine
begin

text \<open>
  Runs of the cache and the properties of the component. A run feeds a list of calls to the
  pointer program and to the specification; what a caller can see is the list of answers.
\<close>

datatype ('k, 'v, 't) call =
  CallSetFromHead 'k 'v 't 't
| CallSetFromTail 'k 'v 't 't
| CallRemove 'k
| CallClear
| CallLen
| CallCapacity
| CallContains 'k
| CallTryContains bool 'k
| CallGet 'k 't
| CallGetEntry 'k 't
| CallAll
| CallBackward

datatype ('k, 'v) answer =
  Done
| ABool bool
| AInt int
| AValue "'v option"
| AEntry "('k \<times> 'v) option"
| ASeq "('k \<times> 'v) list"

text \<open>The consumer of the tests: it appends every pair it is given and never stops.\<close>

definition collect :: "('k \<times> 'v) list \<Rightarrow> 'k \<Rightarrow> 'v \<Rightarrow> ('k \<times> 'v) list \<times> bool" where
  "collect s k v = (s @ [(k, v)], True)"

fun exec_call :: "('k, 'v, 't::linorder) call \<Rightarrow> ('k, 'v, 't) ExpirationCache \<Rightarrow>
    (('k, 'v) answer \<times> ('k, 'v, 't) ExpirationCache) option" where
  "exec_call (CallSetFromHead k v now e) c = do { c \<leftarrow> SetFromHead k v now e c; Some (Done, c) }"
| "exec_call (CallSetFromTail k v now e) c = do { c \<leftarrow> SetFromTail k v now e c; Some (Done, c) }"
| "exec_call (CallRemove k) c = do { (b, c) \<leftarrow> Remove k c; Some (ABool b, c) }"
| "exec_call CallClear c = Some (Done, Clear c)"
| "exec_call CallLen c = Some (AInt (Len c), c)"
| "exec_call CallCapacity c = Some (AInt (Capacity c), c)"
| "exec_call (CallContains k) c = Some (ABool (Contains c k), c)"
| "exec_call (CallTryContains l k) c = Some (ABool (TryContains l c k), c)"
| "exec_call (CallGet k now) c = do { r \<leftarrow> Get c k now; Some (AValue r, c) }"
| "exec_call (CallGetEntry k now) c = do {
     r \<leftarrow> GetEntry c k now; Some (AEntry (map_option (\<lambda>e. (Key e, Value e)) r), c) }"
| "exec_call CallAll c = do { r \<leftarrow> All c collect []; Some (ASeq r, c) }"
| "exec_call CallBackward c = do { r \<leftarrow> Backward c collect []; Some (ASeq r, c) }"

fun run_calls :: "('k, 'v, 't::linorder) call list \<Rightarrow> ('k, 'v, 't) ExpirationCache \<Rightarrow>
    (('k, 'v) answer list \<times> ('k, 'v, 't) ExpirationCache) option" where
  "run_calls [] c = Some ([], c)"
| "run_calls (x # xs) c = do {
     (r, c) \<leftarrow> exec_call x c;
     (rs, c) \<leftarrow> run_calls xs c;
     Some (r # rs, c)
   }"

definition pairs :: "('k, 'v, 't) ent list \<Rightarrow> ('k \<times> 'v) list" where
  "pairs xs = map (\<lambda>x. (ekey x, eval_of x)) xs"

fun spec_call :: "int \<Rightarrow> ('k, 'v, 't::linorder) call \<Rightarrow> ('k, 'v, 't) ent list \<Rightarrow>
    ('k, 'v) answer \<times> ('k, 'v, 't) ent list" where
  "spec_call cap (CallSetFromHead k v now e) xs = (Done, spec_set ins_head cap k v now e xs)"
| "spec_call cap (CallSetFromTail k v now e) xs = (Done, spec_set ins_tail cap k v now e xs)"
| "spec_call cap (CallRemove k) xs = (ABool (k \<in> fst ` set xs), spec_remove k xs)"
| "spec_call cap CallClear xs = (Done, [])"
| "spec_call cap CallLen xs = (AInt (int (length xs)), xs)"
| "spec_call cap CallCapacity xs = (AInt cap, xs)"
| "spec_call cap (CallContains k) xs = (ABool (k \<in> fst ` set xs), xs)"
| "spec_call cap (CallTryContains l k) xs = (ABool (l \<and> k \<in> fst ` set xs), xs)"
| "spec_call cap (CallGet k now) xs = (AValue (spec_get xs k now), xs)"
| "spec_call cap (CallGetEntry k now) xs =
     (AEntry (map_option (\<lambda>v. (k, v)) (spec_get xs k now)), xs)"
| "spec_call cap CallAll xs = (ASeq (pairs xs), xs)"
| "spec_call cap CallBackward xs = (ASeq (rev (pairs xs)), xs)"

fun spec_run :: "int \<Rightarrow> ('k, 'v, 't::linorder) call list \<Rightarrow> ('k, 'v, 't) ent list \<Rightarrow>
    ('k, 'v) answer list \<times> ('k, 'v, 't) ent list" where
  "spec_run cap [] xs = ([], xs)"
| "spec_run cap (x # cs) xs =
     (let (r, xs) = spec_call cap x xs; (rs, xs) = spec_run cap cs xs in (r # rs, xs))"

lemma spec_iter_collect: "spec_iter collect xs s = s @ pairs xs"
  by (induction xs arbitrary: s) (simp_all add: collect_def pairs_def)

lemma exec_call_refines:
  "represents c cap xs \<Longrightarrow> spec_call cap x xs = (r, xs') \<Longrightarrow>
   \<exists>c'. exec_call x c = Some (r, c') \<and> represents c' cap xs'"
proof (cases x)
  case (CallSetFromHead k v now e)
  then show "represents c cap xs \<Longrightarrow> spec_call cap x xs = (r, xs') \<Longrightarrow> ?thesis"
    using SetFromHead_represents [of c cap xs k v now e] by auto
next
  case (CallSetFromTail k v now e)
  then show "represents c cap xs \<Longrightarrow> spec_call cap x xs = (r, xs') \<Longrightarrow> ?thesis"
    using SetFromTail_represents [of c cap xs k v now e] by auto
next
  case (CallRemove k)
  then show "represents c cap xs \<Longrightarrow> spec_call cap x xs = (r, xs') \<Longrightarrow> ?thesis"
    using Remove_represents [of c cap xs k] by auto
qed (auto simp: cache_refinement spec_iter_collect pairs_def rev_map option.map_comp comp_def)

lemma run_calls_refines:
  "represents c cap xs \<Longrightarrow> spec_run cap cs xs = (rs, xs') \<Longrightarrow>
   \<exists>c'. run_calls cs c = Some (rs, c') \<and> represents c' cap xs'"
proof (induction cs arbitrary: c xs rs)
  case (Cons x cs)
  obtain r ys where s: "spec_call cap x xs = (r, ys)" by force
  obtain rs' where rs: "spec_run cap cs ys = (rs', xs')" "rs = r # rs'"
    using Cons.prems(2) s by (auto split: prod.splits)
  from exec_call_refines [OF Cons.prems(1) s] obtain c1 where
    c1: "exec_call x c = Some (r, c1)" "represents c1 cap ys" by blast
  from Cons.IH [OF c1(2) rs(1)] c1(1) rs(2) show ?case by auto
qed simp

subsection \<open>Facts the properties share\<close>

lemma run_from_New:
  assumes "cap' = (if cap \<le> 0 then MaxInt else cap)"
  shows "\<exists>c. run_calls cs (NewExpirationCache cap) = Some (fst (spec_run cap' cs []), c) \<and>
    represents c cap' (snd (spec_run cap' cs []))"
proof -
  have "represents (NewExpirationCache cap) cap' []"
    using New_represents [of cap] assms by simp
  from run_calls_refines [OF this, of cs] show ?thesis by (cases "spec_run cap' cs []") simp
qed

lemma pairs_simps [simp]:
  "pairs [] = []" "pairs (x # xs) = (ekey x, eval_of x) # pairs xs"
  "pairs (xs @ ys) = pairs xs @ pairs ys" "length (pairs xs) = length xs"
  by (simp_all add: pairs_def)

lemma set_lookup:
  assumes "represents c cap xs"
  shows "\<exists>c'. SetFromHead k v now e c = Some c' \<and> represents c' cap (spec_set ins_head cap k v now e xs)
      \<and> (\<forall>k'. spec_lookup (spec_set ins_head cap k v now e xs) k' =
            (if k' = k then Some (v, e) else spec_lookup (spec_make_room cap k now xs) k'))"
    and "\<exists>c'. SetFromTail k v now e c = Some c' \<and> represents c' cap (spec_set ins_tail cap k v now e xs)
      \<and> (\<forall>k'. spec_lookup (spec_set ins_tail cap k v now e xs) k' =
            (if k' = k then Some (v, e) else spec_lookup (spec_make_room cap k now xs) k'))"
proof -
  have inv: "spec_inv cap xs" using assms by (simp add: represents_def)
  from SetFromHead_represents [OF assms, of k v now e] from_head.lookup_set [OF inv]
  show "\<exists>c'. SetFromHead k v now e c = Some c' \<and> represents c' cap (spec_set ins_head cap k v now e xs)
      \<and> (\<forall>k'. spec_lookup (spec_set ins_head cap k v now e xs) k' =
            (if k' = k then Some (v, e) else spec_lookup (spec_make_room cap k now xs) k'))"
    by blast
  from SetFromTail_represents [OF assms, of k v now e] from_tail.lookup_set [OF inv]
  show "\<exists>c'. SetFromTail k v now e c = Some c' \<and> represents c' cap (spec_set ins_tail cap k v now e xs)
      \<and> (\<forall>k'. spec_lookup (spec_set ins_tail cap k v now e xs) k' =
            (if k' = k then Some (v, e) else spec_lookup (spec_make_room cap k now xs) k'))"
    by blast
qed

lemma spec_get_make_room:
  assumes "spec_inv cap xs" and "k' \<noteq> k"
  shows "spec_get xs k' now = None \<or> spec_victim cap k now xs = Some k' \<Longrightarrow>
      spec_lookup (spec_make_room cap k now xs) k' = None"
    and "spec_get xs k' now \<noteq> None \<Longrightarrow> spec_victim cap k now xs \<noteq> Some k' \<Longrightarrow>
      spec_lookup (spec_make_room cap k now xs) k' = spec_lookup xs k'"
  using spec_make_room_lookup [OF assms, of now]
  by (auto simp: spec_get_def split: option.splits if_splits)

lemma spec_victim_SomeD:
  assumes "spec_inv cap xs" and "spec_victim cap k now xs = Some k'"
  shows "\<exists>v e. spec_lookup xs k' = Some (v, e) \<and> (\<forall>x\<in>set xs. e \<le> eexp x) \<and>
    int (length xs) = cap \<and> k \<notin> fst ` set xs"
proof -
  let ?ys = "spec_prune now xs"
  from assms have srt: "exp_sorted xs" and dst: "distinct (map fst xs)" and len: "int (length xs) \<le> cap"
    by (auto simp: spec_inv_def)
  from assms(2) obtain y ys where y: "?ys = y # ys" "k \<notin> fst ` set ?ys" "cap \<le> int (length ?ys)"
      "ekey y = k'"
    by (auto simp: spec_victim_def split: list.splits if_splits)
  have "length ?ys = length xs"
    using y(3) len length_dropWhile_le [of _ xs] by (simp add: spec_prune_def dual_order.antisym)
  then have eq: "?ys = xs"
    using spec_prune_filter [OF srt, of now] length_filter_less filter_id_conv
    by (metis (mono_tags, lifting) less_irrefl)
  with y(1) have "xs = y # ys" by simp
  with srt have min: "\<forall>x\<in>set xs. eexp y \<le> eexp x" by simp
  have "spec_lookup xs k' = Some (snd y)"
    using \<open>xs = y # ys\<close> y(4) by (cases y) (simp add: spec_lookup_def)
  with min y len eq show ?thesis by (cases "snd y") auto
qed

text \<open>A reachable state with two entries, for the examples.\<close>

lemma example_represents:
  "\<exists>c. represents c 2 [(1::int, 10::int, 5::int), (2, 20, 7)]"
proof -
  have "represents (NewExpirationCache 2) 2 ([] :: (int, int, int) ent list)"
    using New_represents [of 2] by simp
  from SetFromHead_represents [OF this, of 1 10 0 5] obtain c where
    "represents c 2 [(1::int, 10::int, 5::int)]"
    by (auto simp: spec_set_def spec_make_room_def spec_prune_def spec_evict_def)
  from SetFromTail_represents [OF this, of 2 20 0 7] show ?thesis
    by (auto simp: spec_set_def spec_make_room_def spec_prune_def spec_evict_def ins_tail_def)
qed

subsection \<open>Properties\<close>

text \<open>
  C1. Whatever calls a client makes on a new cache, none of them panics or loops, and every
  answer is the one the entry-list specification gives.
\<close>

theorem cache_run_correct:
  "\<exists>c. run_calls cs (NewExpirationCache cap) =
     Some (fst (spec_run (if cap \<le> 0 then MaxInt else cap) cs []), c)"
  using run_from_New [OF refl, of cs cap] by blast

text \<open>
  C9. After any calls on a new cache the iterator yields distinct keys in order of expiration,
  the backward iterator yields the reverse, the length is their number and at most the capacity,
  and Get finds exactly the entries the iterator yields that are not yet expired.
\<close>

theorem cache_reachable_consistent:
  "case run_calls cs (NewExpirationCache cap) of
     None \<Rightarrow> False
   | Some (_, c) \<Rightarrow> \<exists>xs. All c collect [] = Some (pairs xs) \<and>
       Backward c collect [] = Some (rev (pairs xs)) \<and>
       sorted (map eexp xs) \<and> distinct (map fst xs) \<and>
       Len c = int (length xs) \<and> Len c \<le> Capacity c \<and>
       (\<forall>k t. Get c k t = Some (spec_get xs k t) \<and> Contains c k = (k \<in> fst ` set xs))"
proof -
  from run_from_New [OF refl, of cs cap] obtain c where
    c: "run_calls cs (NewExpirationCache cap) =
        Some (fst (spec_run (if cap \<le> 0 then MaxInt else cap) cs []), c)"
      "represents c (if cap \<le> 0 then MaxInt else cap)
        (snd (spec_run (if cap \<le> 0 then MaxInt else cap) cs []))" by blast
  then have "spec_inv (if cap \<le> 0 then MaxInt else cap)
      (snd (spec_run (if cap \<le> 0 then MaxInt else cap) cs []))"
    by (simp add: represents_def)
  with c show ?thesis
    by (auto simp: cache_refinement [OF c(2)] spec_iter_collect spec_inv_def exp_sorted_def
        rev_map pairs_def split: prod.splits)
qed

text \<open>
  C25. Either set operation stores the entry: it returns, and from then on Get gives the new
  value at every time before the new expiration and nothing from then on.
\<close>

theorem set_then_get:
  assumes "represents c cap xs"
  shows "(\<exists>c'. SetFromHead k v now e c = Some c' \<and>
            (\<forall>t. Get c' k t = Some (if t < e then Some v else None))) \<and>
         (\<exists>c'. SetFromTail k v now e c = Some c' \<and>
            (\<forall>t. Get c' k t = Some (if t < e then Some v else None)))"
  using set_lookup [OF assms, of k v now e] by (force simp: Get_represents spec_get_def)

theorem set_then_get_witness:
  "\<exists>c. represents c 2 [(1::int, 10::int, 5::int), (2, 20, 7)] \<and>
     (\<exists>c'. SetFromHead 3 30 6 9 c = Some c' \<and>
        (\<forall>t. Get c' 3 t = Some (if t < 9 then Some 30 else None)))"
proof -
  obtain c where c: "represents c 2 [(1::int, 10::int, 5::int), (2, 20, 7)]"
    using example_represents by blast
  from set_then_get [OF c, of 3 30 6 9] c show ?thesis by blast
qed

text \<open>
  C26. A set operation on one key changes what Get answers for another key only if that entry
  was expired at the time given, or was the one evicted to make room.
\<close>

theorem set_keeps_others:
  assumes "represents c cap xs" and "k' \<noteq> k"
  shows "(\<exists>c'. SetFromHead k v now e c = Some c' \<and> (\<forall>t. Get c' k' t =
            (if Get c k' now = Some None \<or> spec_victim cap k now xs = Some k' then Some None
             else Get c k' t))) \<and>
         (\<exists>c'. SetFromTail k v now e c = Some c' \<and> (\<forall>t. Get c' k' t =
            (if Get c k' now = Some None \<or> spec_victim cap k now xs = Some k' then Some None
             else Get c k' t)))"
proof -
  have inv: "spec_inv cap xs" using assms(1) by (simp add: represents_def)
  note room = spec_get_make_room [OF inv assms(2), of now]
  have get: "spec_lookup ys k' = spec_lookup (spec_make_room cap k now xs) k' \<Longrightarrow>
      spec_get ys k' t =
        (if spec_get xs k' now = None \<or> spec_victim cap k now xs = Some k' then None
         else spec_get xs k' t)" for ys t
    using room by (auto simp: spec_get_def)
  from set_lookup [OF assms(1), of k v now e] assms show ?thesis
    by (force simp: Get_represents get)
qed

theorem set_keeps_others_witness:
  "\<exists>c. represents c 2 [(1::int, 10::int, 5::int), (2, 20, 7)] \<and>
     (\<exists>c'. SetFromHead 3 30 4 9 c = Some c' \<and> (\<forall>t. Get c' 2 t = Get c 2 t))"
proof -
  obtain c where c: "represents c 2 [(1::int, 10::int, 5::int), (2, 20, 7)]"
    using example_represents by blast
  have "Get c 2 4 \<noteq> Some None"
    by (simp add: Get_represents [OF c] spec_get_def spec_lookup_def)
  moreover have "spec_victim 2 3 4 [(1::int, 10::int, 5::int), (2, 20, 7)] \<noteq> Some 2"
    by (simp add: spec_victim_def spec_prune_def)
  ultimately show ?thesis using set_keeps_others [OF c, of 2 3 30 4 9] c by auto
qed

text \<open>
  C14. A live entry of another key leaves the cache in a set operation only when the cache is
  full, the key being set is not in it, and no entry of the cache expires earlier.
\<close>

theorem eviction_only_of_earliest:
  assumes "represents c cap xs" and "k' \<noteq> k" and "Get c k' now = Some (Some w)"
    and "SetFromHead k v now e c = Some c' \<or> SetFromTail k v now e c = Some c'"
    and "\<not> Contains c' k'"
  shows "Len c = Capacity c \<and> \<not> Contains c k \<and>
    (\<exists>e'. spec_lookup xs k' = Some (w, e') \<and> (\<forall>x\<in>set xs. e' \<le> eexp x))"
proof -
  have inv: "spec_inv cap xs" using assms(1) by (simp add: represents_def)
  have gone: "Get c' k' now = Some None"
  proof -
    from set_lookup [OF assms(1), of k v now e] assms(4) obtain ys where
      ys: "represents c' cap ys" by auto
    with assms(5) have "map_of ys k' = None"
      by (simp add: Contains_represents map_of_eq_None_iff)
    then show ?thesis by (simp add: Get_represents [OF ys] spec_get_def spec_lookup_def)
  qed
  have "spec_victim cap k now xs = Some k'"
  proof (rule ccontr)
    assume "spec_victim cap k now xs \<noteq> Some k'"
    with assms(3) spec_get_make_room(2) [OF inv assms(2), of now]
    have "spec_lookup (spec_make_room cap k now xs) k' = spec_lookup xs k'"
      by (simp add: Get_represents [OF assms(1)])
    with set_lookup [OF assms(1), of k v now e] assms(2-4) gone show False
      by (auto simp: Get_represents spec_get_def Get_represents [OF assms(1)])
  qed
  from spec_victim_SomeD [OF inv this] assms(3) show ?thesis
    by (auto simp: cache_refinement [OF assms(1)] spec_get_def split: if_splits)
qed

theorem eviction_only_of_earliest_witness:
  "\<exists>c c'. represents c 2 [(1::int, 10::int, 5::int), (2, 20, 7)] \<and>
     SetFromHead 3 30 4 9 c = Some c' \<and> \<not> Contains c' 1 \<and> Len c = Capacity c"
proof -
  obtain c where c: "represents c 2 [(1::int, 10::int, 5::int), (2, 20, 7)]"
    using example_represents by blast
  from SetFromHead_represents [OF c, of 3 30 4 9] obtain c' where
    c': "SetFromHead 3 30 4 9 c = Some c'" "represents c' 2 [(2::int, 20::int, 7::int), (3, 30, 9)]"
    by (auto simp: spec_set_def spec_make_room_def spec_prune_def spec_evict_def)
  have "Get c 1 4 = Some (Some 10)"
    by (simp add: Get_represents [OF c] spec_get_def spec_lookup_def)
  moreover have "\<not> Contains c' 1" by (simp add: Contains_represents [OF c'(2)])
  ultimately show ?thesis
    using eviction_only_of_earliest [OF c, of 1 3 4 10 30 9 c'] c c'(1) by auto
qed

text \<open>
  C24. Where a set operation puts the entry among the others: SetFromHead after every entry that
  expires no later, SetFromTail before every entry that expires no earlier, so entries of equal
  expiration come out first-in first-out after the one and last-in first-out after the other.
\<close>

theorem set_order:
  assumes "represents c cap xs"
  shows "(\<exists>c'. SetFromHead k v now e c = Some c' \<and>
            All c' collect [] = Some (
              pairs (filter (\<lambda>y. eexp y \<le> e) (spec_make_room cap k now xs)) @ (k, v) #
              pairs (filter (\<lambda>y. e < eexp y) (spec_make_room cap k now xs)))) \<and>
         (\<exists>c'. SetFromTail k v now e c = Some c' \<and>
            All c' collect [] = Some (
              pairs (filter (\<lambda>y. eexp y < e) (spec_make_room cap k now xs)) @ (k, v) #
              pairs (filter (\<lambda>y. e \<le> eexp y) (spec_make_room cap k now xs))))"
proof -
  from assms have "spec_inv cap (spec_make_room cap k now xs)"
    by (simp add: represents_def spec_make_room_inv)
  then have "exp_sorted (spec_make_room cap k now xs)" by (simp add: spec_inv_def)
  with SetFromHead_represents [OF assms, of k v now e] SetFromTail_represents [OF assms, of k v now e]
  show ?thesis
    by (auto simp: All_represents spec_iter_collect spec_set_def ins_head_split ins_tail_split)
qed

theorem set_order_witness:
  "\<exists>c. represents c 2 [(1::int, 10::int, 5::int), (2, 20, 7)] \<and>
     (\<exists>c'. SetFromHead 1 11 0 7 c = Some c' \<and> All c' collect [] = Some [(2, 20), (1, 11)]) \<and>
     (\<exists>c'. SetFromTail 1 11 0 7 c = Some c' \<and> All c' collect [] = Some [(1, 11), (2, 20)])"
proof -
  obtain c where c: "represents c 2 [(1::int, 10::int, 5::int), (2, 20, 7)]"
    using example_represents by blast
  from set_order [OF c, of 1 11 0 7] c show ?thesis
    by (intro exI [of _ c]) (simp add: spec_make_room_def spec_prune_def spec_remove_def)
qed

text \<open>
  C27. Remove answers whether the key was there, whatever its expiration; afterwards the key is
  gone, every other entry is as before and in the same order.
\<close>

theorem remove_correct:
  assumes "represents c cap xs"
  shows "\<exists>c'. Remove k c = Some (Contains c k, c') \<and> \<not> Contains c' k \<and>
    (\<forall>t. \<forall>k'. Get c' k' t = (if k' = k then Some None else Get c k' t)) \<and>
    Len c' = (if Contains c k then Len c - 1 else Len c) \<and>
    All c' collect [] = Some (pairs (filter (\<lambda>x. ekey x \<noteq> k) xs))"
proof -
  from Remove_represents [OF assms, of k] obtain c' where
    c': "Remove k c = Some (k \<in> fst ` set xs, c')" "represents c' cap (spec_remove k xs)" by blast
  from assms have dst: "distinct (map fst xs)" by (simp add: represents_def spec_inv_def)
  have "length (spec_remove k xs) = (if k \<in> fst ` set xs then length xs - 1 else length xs)"
  proof (cases "k \<in> fst ` set xs")
    case True
    then obtain x where "x \<in> set xs" "ekey x = k" by auto
    then obtain ys zs where "xs = ys @ x # zs" by (auto dest: split_list)
    with spec_remove_split [of ys x zs] dst True \<open>ekey x = k\<close> show ?thesis by simp
  next
    case False
    then have "spec_remove k xs = xs" by (auto simp: spec_remove_def filter_id_conv)
    with False show ?thesis by simp
  qed
  moreover have "xs \<noteq> []" if "k \<in> fst ` set xs" using that by auto
  moreover have "spec_get (spec_remove k xs) k' t = (if k' = k then None else spec_get xs k' t)"
    for k' t
    by (simp add: spec_get_def spec_lookup_def spec_remove_def distinct_lookup_filter [OF dst]
        split: option.splits)
  ultimately show ?thesis using c'
    by (auto simp: cache_refinement [OF assms] cache_refinement [OF c'(2)] spec_iter_collect
        spec_remove_def of_nat_diff Suc_le_eq)
qed

theorem remove_correct_witness:
  "\<exists>c c'. represents c 2 [(1::int, 10::int, 5::int), (2, 20, 7)] \<and>
     Remove 1 c = Some (True, c') \<and> All c' collect [] = Some [(2, 20)]"
proof -
  obtain c where c: "represents c 2 [(1::int, 10::int, 5::int), (2, 20, 7)]"
    using example_represents by blast
  have "Contains c 1" by (simp add: Contains_represents [OF c])
  with remove_correct [OF c, of 1] c show ?thesis by auto
qed

end
