(* ===== verification/Cache_Links.thy ===== *)
theory Cache_Links
  imports Cache_Props
begin

text \<open>
  What every step of the list surgery respects. The operations of the cache change nodes through
  few statements: links, the head and tail pointers, the map. A relation between caches that is a
  preorder and holds over each of these statements holds over the composed operations; the proof
  is made once, in the locale \<open>link_relation\<close>. It is used for two relations: nodes keep their keys
  (\<open>keys_stable\<close>), and what nodes hold was stored by some call (\<open>drawn\<close>).
\<close>

locale link_relation =
  fixes R :: "('k, 'v, 't::linorder) ExpirationCache \<Rightarrow> ('k, 'v, 't) ExpirationCache \<Rightarrow> bool"
  assumes R_refl: "R c c"
    and R_trans: "R c c' \<Longrightarrow> R c' c'' \<Longrightarrow> R c c''"
    and R_head: "R c (c\<lparr>head_p := p\<rparr>)"
    and R_tail: "R c (c\<lparr>tail_p := p\<rparr>)"
    and R_map: "R c (c\<lparr>nodeByKey := m\<rparr>)"
    and R_prev: "modify a (\<lambda>n. n\<lparr>prev_p := p\<rparr>) c = Some c' \<Longrightarrow> R c c'"
    and R_next: "modify a (\<lambda>n. n\<lparr>next_p := p\<rparr>) c = Some c' \<Longrightarrow> R c c'"
begin

lemma detach_R: "detach a c = Some c' \<Longrightarrow> R c c'"
  unfolding detach_def
  by (auto simp: bind_eq_Some_conv split: option.splits dest!: R_prev R_next)
    (metis R_trans R_head R_tail)+

lemma insertBefore_R: "insertBefore a m c = Some c' \<Longrightarrow> R c c'"
  unfolding insertBefore_def
  by (auto simp: bind_eq_Some_conv split: option.splits dest!: R_prev R_next)
    (metis R_trans R_head R_tail)+

lemma insertAfter_R: "insertAfter a m c = Some c' \<Longrightarrow> R c c'"
  unfolding insertAfter_def
  by (auto simp: bind_eq_Some_conv split: option.splits dest!: R_prev R_next)
    (metis R_trans R_head R_tail)+

lemma remove_R: "remove a c = Some c' \<Longrightarrow> R c c'"
  by (auto simp: remove_def bind_eq_Some_conv dest!: detach_R intro: R_trans R_map)

lemma pruneExpired_loop_R:
  assumes "pruneExpired_loop now p c = Some c'"
  shows "R c c'"
proof (rule pruneExpired_loop.raw_induct [where P = "\<lambda>now p c c'. R c c'", OF _ assms])
  fix f and now :: 't and p :: "addr option" and c c' :: "('k, 'v, 't) ExpirationCache"
  assume IH: "\<And>now p c c'. f now p c = Some c' \<Longrightarrow> R c c'"
    and "(case p of None \<Rightarrow> Some c
      | Some a \<Rightarrow> heap c a \<bind> (\<lambda>n. if now < expiresAt n then Some c
          else remove a c \<bind> (\<lambda>c'. heap c' a \<bind> (\<lambda>n'. f now (next_p n') c')))) = Some c'"
  then show "R c c'"
    by (auto simp: bind_eq_Some_conv R_refl split: option.splits if_splits
        dest!: IH remove_R intro: R_trans)
qed

lemma pruneExpired_R: "pruneExpired now c = Some c' \<Longrightarrow> R c c'"
  by (auto simp: pruneExpired_def dest: pruneExpired_loop_R)

lemma setFromHead_loop_R:
  assumes "setFromHead_loop e a m c = Some c'"
  shows "R c c'"
proof (rule setFromHead_loop.raw_induct [where P = "\<lambda>e a m c c'. R c c'", OF _ assms])
  fix f and e :: 't and a m :: addr and c c' :: "('k, 'v, 't) ExpirationCache"
  assume IH: "\<And>e a m c c'. f e a m c = Some c' \<Longrightarrow> R c c'"
    and "heap c m \<bind> (\<lambda>k. if e < expiresAt k then insertBefore a m c
      else case next_p k of None \<Rightarrow> tail_p c \<bind> (\<lambda>t. insertAfter a t c)
        | Some m' \<Rightarrow> f e a m' c) = Some c'"
  then show "R c c'"
    by (auto simp: bind_eq_Some_conv split: option.splits if_splits
        dest: IH insertBefore_R insertAfter_R)
qed

lemma setFromTail_loop_R:
  assumes "setFromTail_loop e a m c = Some c'"
  shows "R c c'"
proof (rule setFromTail_loop.raw_induct [where P = "\<lambda>e a m c c'. R c c'", OF _ assms])
  fix f and e :: 't and a m :: addr and c c' :: "('k, 'v, 't) ExpirationCache"
  assume IH: "\<And>e a m c c'. f e a m c = Some c' \<Longrightarrow> R c c'"
    and "heap c m \<bind> (\<lambda>k. if expiresAt k < e then insertAfter a m c
      else case prev_p k of None \<Rightarrow> head_p c \<bind> (\<lambda>h. insertBefore a h c)
        | Some m' \<Rightarrow> f e a m' c) = Some c'"
  then show "R c c'"
    by (auto simp: bind_eq_Some_conv split: option.splits if_splits
        dest: IH insertBefore_R insertAfter_R)
qed

lemma pruneOldest_R: "pruneOldest c = Some c' \<Longrightarrow> R c c'"
  by (auto simp: pruneOldest_def bind_eq_Some_conv R_refl dest: remove_R split: if_splits)

lemma placeFromHead_R: "placeFromHead e a c = Some c' \<Longrightarrow> R c c'"
  using R_trans [OF R_head R_tail]
  by (auto simp: placeFromHead_def split: option.splits dest: setFromHead_loop_R)

lemma placeFromTail_R: "placeFromTail e a c = Some c' \<Longrightarrow> R c c'"
  using R_trans [OF R_head R_tail]
  by (auto simp: placeFromTail_def split: option.splits dest: setFromTail_loop_R)

lemma Remove_R: "Remove k c = Some (b, c') \<Longrightarrow> R c c'"
  by (auto simp: Remove_def bind_eq_Some_conv R_refl split: option.splits dest: remove_R)

lemma Clear_R: "R c (Clear c)"
proof -
  have "R c (c\<lparr>nodeByKey := gm_empty, head_p := None\<rparr>)" by (rule R_trans [OF R_map R_head])
  from R_trans [OF this R_tail] show ?thesis by (simp add: Clear_def)
qed

text \<open>The set operations also create a node or change one, which is up to the relation.\<close>

lemma getOrCreateNode_R:
  assumes "getOrCreateNode k v now e c = Some (a, c')"
    and new: "\<And>c n. n = \<lparr>prev_p = None, next_p = None, expiresAt = e, entry = \<lparr>Key = k, Value = v\<rparr>\<rparr> \<Longrightarrow>
      R c (c\<lparr>heap := (heap c)(fresh c \<mapsto> n), fresh := Suc (fresh c)\<rparr>)"
    and old: "\<And>c1 a c2 c3 c4. pruneExpired now c = Some c1 \<Longrightarrow> gm_get (nodeByKey c1) k = Some a \<Longrightarrow>
      detach a c1 = Some c2 \<Longrightarrow> modify a (\<lambda>n. n\<lparr>expiresAt := e\<rparr>) c2 = Some c3 \<Longrightarrow>
      modify a (\<lambda>n. n\<lparr>entry := (entry n)\<lparr>Value := v\<rparr>\<rparr>) c3 = Some c4 \<Longrightarrow> R c2 c4"
  shows "R c c'"
proof -
  from assms(1) obtain c1 where p: "pruneExpired now c = Some c1" and
    g: "(case gm_get (nodeByKey c1) k of
        None \<Rightarrow> pruneOldest c1 \<bind> (\<lambda>c. let node = fresh c in
          Some (node, c\<lparr>
            heap := (heap c)(node \<mapsto> \<lparr>prev_p = None, next_p = None, expiresAt = e,
                                      entry = \<lparr>Key = k, Value = v\<rparr>\<rparr>),
            fresh := Suc node,
            nodeByKey := gm_put k node (nodeByKey c)\<rparr>))
      | Some node \<Rightarrow> detach node c1 \<bind> (\<lambda>c.
          modify node (\<lambda>n. n\<lparr>expiresAt := e\<rparr>) c \<bind> (\<lambda>c.
          modify node (\<lambda>n. n\<lparr>entry := (entry n)\<lparr>Value := v\<rparr>\<rparr>) c \<bind> (\<lambda>c.
          Some (node, c))))) = Some (a, c')"
    by (auto simp: getOrCreateNode_def bind_eq_Some_conv)
  have "R c1 c'"
  proof (cases "gm_get (nodeByKey c1) k")
    case None
    with g obtain c2 where c2: "pruneOldest c1 = Some c2"
      "c' = c2\<lparr>heap := (heap c2)(fresh c2 \<mapsto> \<lparr>prev_p = None, next_p = None, expiresAt = e,
          entry = \<lparr>Key = k, Value = v\<rparr>\<rparr>), fresh := Suc (fresh c2),
          nodeByKey := gm_put k (fresh c2) (nodeByKey c2)\<rparr>"
      by (auto simp: bind_eq_Some_conv Let_def)
    from R_trans [OF pruneOldest_R [OF c2(1)] R_trans [OF new [OF refl] R_map]] show ?thesis
      unfolding c2(2) .
  next
    case (Some b)
    with g obtain c2 c3 where s: "detach b c1 = Some c2"
      "modify b (\<lambda>n. n\<lparr>expiresAt := e\<rparr>) c2 = Some c3"
      "modify b (\<lambda>n. n\<lparr>entry := (entry n)\<lparr>Value := v\<rparr>\<rparr>) c3 = Some c'"
      by (auto simp: bind_eq_Some_conv)
    from R_trans [OF detach_R [OF s(1)] old [OF p Some s]] show ?thesis .
  qed
  with pruneExpired_R [OF p] show ?thesis by (rule R_trans)
qed

end

end
