(* ===== verification/Cache_Race.thy ===== *)
theory Cache_Race
  imports Cache_Links
begin

text \<open>
  Get and GetEntry release the read lock before they look at the node the map gave them. Here a
  call of Get is three atomic steps (the lookup under the lock, the read of expiresAt, the read
  of Value) and the other goroutines are calls that hold the lock from start to end, which may
  run between them.
\<close>

datatype 'v get_pc = Start | Found addr | Live addr | Returned "'v option"

inductive get_step ::
  "'k \<Rightarrow> 't::linorder \<Rightarrow> 'v get_pc \<times> ('k, 'v, 't) ExpirationCache \<Rightarrow>
   'v get_pc \<times> ('k, 'v, 't) ExpirationCache \<Rightarrow> bool" for key now where
  lookup_miss: "gm_get (nodeByKey c) key = None \<Longrightarrow>
     get_step key now (Start, c) (Returned None, c)"
| lookup_hit: "gm_get (nodeByKey c) key = Some a \<Longrightarrow> get_step key now (Start, c) (Found a, c)"
| check_expired: "heap c a = Some n \<Longrightarrow> \<not> now < expiresAt n \<Longrightarrow>
     get_step key now (Found a, c) (Returned None, c)"
| check_live: "heap c a = Some n \<Longrightarrow> now < expiresAt n \<Longrightarrow>
     get_step key now (Found a, c) (Live a, c)"
| read_value: "heap c a = Some n \<Longrightarrow>
     get_step key now (Live a, c) (Returned (Some (Value (entry n))), c)"
| other_SetFromHead: "SetFromHead k v t e c = Some c' \<Longrightarrow> get_step key now (pc, c) (pc, c')"
| other_SetFromTail: "SetFromTail k v t e c = Some c' \<Longrightarrow> get_step key now (pc, c) (pc, c')"
| other_Remove: "Remove k c = Some (b, c') \<Longrightarrow> get_step key now (pc, c) (pc, c')"
| other_Clear: "get_step key now (pc, c) (pc, Clear c)"

inductive get_steps ::
  "'k \<Rightarrow> 't::linorder \<Rightarrow> 'v get_pc \<times> ('k, 'v, 't) ExpirationCache \<Rightarrow>
   'v get_pc \<times> ('k, 'v, 't) ExpirationCache \<Rightarrow> bool" for key now where
  none: "get_steps key now s s"
| more_steps: "get_steps key now s t \<Longrightarrow> get_step key now t u \<Longrightarrow> get_steps key now s u"

text \<open>The states of the cache that a run goes through.\<close>

fun get_trace ::
  "'k \<Rightarrow> 't::linorder \<Rightarrow> ('v get_pc \<times> ('k, 'v, 't) ExpirationCache) list \<Rightarrow> bool" where
  "get_trace key now (s # t # ss) \<longleftrightarrow> get_step key now s t \<and> get_trace key now (t # ss)"
| "get_trace key now _ \<longleftrightarrow> True"

subsection \<open>Nodes keep their keys\<close>

definition keys_stable ::
  "('k, 'v, 't) ExpirationCache \<Rightarrow> ('k, 'v, 't) ExpirationCache \<Rightarrow> bool" where
  "keys_stable c c' \<longleftrightarrow> fresh c \<le> fresh c' \<and>
     (\<forall>a n. a < fresh c \<longrightarrow> heap c a = Some n \<longrightarrow>
        (\<exists>n'. heap c' a = Some n' \<and> Key (entry n') = Key (entry n)))"

lemma keys_stable_refl [simp]: "keys_stable c c"
  by (simp add: keys_stable_def)

lemma keys_stableD:
  "keys_stable c c' \<Longrightarrow> a < fresh c \<Longrightarrow> heap c a = Some n \<Longrightarrow>
   \<exists>n'. heap c' a = Some n' \<and> Key (entry n') = Key (entry n)"
  by (simp add: keys_stable_def)

lemma keys_stable_trans:
  assumes "keys_stable c c'" and "keys_stable c' c''"
  shows "keys_stable c c''"
proof -
  from assms have le: "fresh c \<le> fresh c'" "fresh c' \<le> fresh c''"
    by (simp_all add: keys_stable_def)
  have "\<exists>n'. heap c'' a = Some n' \<and> Key (entry n') = Key (entry n)"
    if a: "a < fresh c" "heap c a = Some n" for a n
  proof -
    from keys_stableD [OF assms(1) a] obtain n' where
      n': "heap c' a = Some n'" "Key (entry n') = Key (entry n)" by blast
    from a(1) le have "a < fresh c'" by simp
    from keys_stableD [OF assms(2) this n'(1)] n'(2) show ?thesis by auto
  qed
  with le show ?thesis by (simp add: keys_stable_def)
qed

lemma modify_keys_stable:
  "modify a f c = Some c' \<Longrightarrow> (\<And>n. Key (entry (f n)) = Key (entry n)) \<Longrightarrow> keys_stable c c'"
  by (auto simp: modify_def keys_stable_def split: option.splits)

interpretation keys: link_relation keys_stable
  by unfold_locales
    (auto intro: keys_stable_trans modify_keys_stable, simp_all add: keys_stable_def)

lemma getOrCreateNode_keys_stable:
  assumes "getOrCreateNode k v now e c = Some (a, c')"
  shows "keys_stable c c'"
proof (rule keys.getOrCreateNode_R [OF assms])
  show "keys_stable c (c\<lparr>heap := (heap c)(fresh c \<mapsto> n), fresh := Suc (fresh c)\<rparr>)" for c n
    by (simp add: keys_stable_def)
  show "keys_stable c2 c4"
    if "modify a (\<lambda>n. n\<lparr>expiresAt := e\<rparr>) c2 = Some c3"
      "modify a (\<lambda>n. n\<lparr>entry := (entry n)\<lparr>Value := v\<rparr>\<rparr>) c3 = Some c4" for a c2 c3 c4
    by (rule keys_stable_trans [OF modify_keys_stable [OF that(1)] modify_keys_stable [OF that(2)]])
      simp_all
qed

lemma SetFromHead_keys_stable: "SetFromHead k v now e c = Some c' \<Longrightarrow> keys_stable c c'"
  by (auto simp: SetFromHead_def bind_eq_Some_conv
      dest!: getOrCreateNode_keys_stable keys.placeFromHead_R intro: keys_stable_trans)

lemma SetFromTail_keys_stable: "SetFromTail k v now e c = Some c' \<Longrightarrow> keys_stable c c'"
  by (auto simp: SetFromTail_def bind_eq_Some_conv
      dest!: getOrCreateNode_keys_stable keys.placeFromTail_R intro: keys_stable_trans)

lemmas Remove_keys_stable = keys.Remove_R
lemmas Clear_keys_stable = keys.Clear_R

subsection \<open>What holds at every point of an interleaved Get\<close>

definition race_inv ::
  "'k \<Rightarrow> 'v get_pc \<times> ('k, 'v, 't::linorder) ExpirationCache \<Rightarrow> bool" where
  "race_inv key s \<longleftrightarrow> (\<exists>cap xs. represents (snd s) cap xs) \<and>
     (case fst s of
        Found a \<Rightarrow> a < fresh (snd s) \<and> (\<exists>n. heap (snd s) a = Some n \<and> Key (entry n) = key)
      | Live a \<Rightarrow> a < fresh (snd s) \<and> (\<exists>n. heap (snd s) a = Some n \<and> Key (entry n) = key)
      | _ \<Rightarrow> True)"

lemma race_inv_stable:
  assumes "race_inv key (pc, c)" and "keys_stable c c'" and "represents c' cap xs"
  shows "race_inv key (pc, c')"
  using assms by (cases pc) (fastforce simp: race_inv_def keys_stable_def)+

lemma represents_found:
  assumes "represents c cap xs" and "gm_get (nodeByKey c) k = Some a"
  shows "a < fresh c \<and> (\<exists>n. heap c a = Some n \<and> Key (entry n) = k)"
  using assms represents_lookup(2) [OF assms] by (auto simp: represents_def indexed_def)

lemma get_step_race_inv:
  assumes "get_step key now s s'" and "race_inv key s"
  shows "race_inv key s'"
  using assms
proof (induction rule: get_step.induct)
  case (lookup_hit c a)
  then show ?case using represents_found by (fastforce simp: race_inv_def)
next
  case (other_SetFromHead k v t e c c' pc)
  moreover from other_SetFromHead.prems obtain cap xs where "represents c cap xs"
    by (auto simp: race_inv_def)
  ultimately show ?case
    using SetFromHead_represents [of c cap xs k v t e]
    by (auto intro: race_inv_stable SetFromHead_keys_stable)
next
  case (other_SetFromTail k v t e c c' pc)
  moreover from other_SetFromTail.prems obtain cap xs where "represents c cap xs"
    by (auto simp: race_inv_def)
  ultimately show ?case
    using SetFromTail_represents [of c cap xs k v t e]
    by (auto intro: race_inv_stable SetFromTail_keys_stable)
next
  case (other_Remove k c b c' pc)
  moreover from other_Remove.prems obtain cap xs where "represents c cap xs"
    by (auto simp: race_inv_def)
  ultimately show ?case
    using Remove_represents [of c cap xs k]
    by (auto intro: race_inv_stable Remove_keys_stable)
next
  case (other_Clear pc c)
  then obtain cap xs where "represents c cap xs" by (auto simp: race_inv_def)
  with other_Clear show ?case
    by (auto intro: race_inv_stable Clear_keys_stable Clear_represents)
qed (auto simp: race_inv_def)

lemma get_steps_race_inv: "get_steps key now s s' \<Longrightarrow> race_inv key s \<Longrightarrow> race_inv key s'"
  by (induction rule: get_steps.induct) (auto intro: get_step_race_inv)

subsection \<open>Properties\<close>

text \<open>
  Whatever other calls run between the steps of a Get, it never dereferences nil and never
  looks at a node of another key, it can always take its next step, and the cache stays
  consistent.
\<close>

theorem get_under_writers_safe:
  assumes "represents c0 cap xs" and "get_steps key now (Start, c0) (pc, c)"
  shows "(\<exists>cap xs. represents c cap xs) \<and>
    (case pc of
       Start \<Rightarrow> \<exists>pc'. get_step key now (pc, c) (pc', c) \<and> pc' \<noteq> pc
     | Found a \<Rightarrow> (\<exists>n. heap c a = Some n \<and> Key (entry n) = key) \<and>
         (\<exists>pc'. get_step key now (pc, c) (pc', c) \<and> pc' \<noteq> pc)
     | Live a \<Rightarrow> \<exists>n. heap c a = Some n \<and> Key (entry n) = key \<and>
         get_step key now (pc, c) (Returned (Some (Value (entry n))), c)
     | Returned r \<Rightarrow> True)"
proof -
  have "race_inv key (Start, c0)" using assms(1) by (auto simp: race_inv_def)
  from get_steps_race_inv [OF assms(2) this] have inv: "race_inv key (pc, c)" .
  show ?thesis
  proof (cases pc)
    case Start
    have "\<exists>pc'. get_step key now (Start, c) (pc', c) \<and> pc' \<noteq> Start"
      by (cases "gm_get (nodeByKey c) key") (auto intro: lookup_miss lookup_hit)
    with inv Start show ?thesis by (simp add: race_inv_def)
  next
    case (Found a)
    with inv obtain n where n: "heap c a = Some n" "Key (entry n) = key"
      by (auto simp: race_inv_def)
    then have "\<exists>pc'. get_step key now (Found a, c) (pc', c) \<and> pc' \<noteq> Found a"
      by (cases "now < expiresAt n") (auto intro: check_live check_expired)
    with inv Found n show ?thesis by (simp add: race_inv_def)
  next
    case (Live a)
    with inv obtain n where "heap c a = Some n" "Key (entry n) = key"
      by (auto simp: race_inv_def)
    with inv Live show ?thesis by (auto simp: race_inv_def intro: read_value)
  next
    case (Returned r)
    with inv show ?thesis by (simp add: race_inv_def)
  qed
qed

theorem get_under_writers_safe_witness:
  "\<exists>c0 c. represents c0 2 [(1::int, 10::int, 5::int), (2, 20, 7)] \<and>
     get_steps 1 4 (Start, c0) (Start, c) \<and> c = Clear c0 \<and> (\<exists>cap xs. represents c cap xs)"
proof -
  obtain c0 where c0: "represents c0 2 [(1::int, 10::int, 5::int), (2, 20, 7)]"
    using example_represents by blast
  have steps: "get_steps 1 4 (Start, c0) (Start, Clear c0)"
    by (rule more_steps [OF none other_Clear])
  from get_under_writers_safe [OF c0 steps] c0 steps show ?thesis by blast
qed

text \<open>
  The states of the counterexample: one entry, and the same node after a SetFromHead of the same
  key with a value that is already expired at the reader's time.
\<close>

definition race_before :: "(int, int, int) ExpirationCache" where
  "race_before = \<lparr>nodeByKey = [(1, 0)], capacity = 2, head_p = Some 0, tail_p = Some 0,
     heap = [0 \<mapsto> \<lparr>prev_p = None, next_p = None, expiresAt = 5,
                    entry = \<lparr>Key = 1, Value = 10\<rparr>\<rparr>], fresh = 1\<rparr>"

definition race_after :: "(int, int, int) ExpirationCache" where
  "race_after = \<lparr>nodeByKey = [(1, 0)], capacity = 2, head_p = Some 0, tail_p = Some 0,
     heap = [0 \<mapsto> \<lparr>prev_p = None, next_p = None, expiresAt = 2,
                    entry = \<lparr>Key = 1, Value = 20\<rparr>\<rparr>], fresh = 1\<rparr>"

lemma race_before_reachable:
  "SetFromHead 1 10 0 5 (NewExpirationCache 2) = Some race_before"
  by (simp add: SetFromHead_def getOrCreateNode_def pruneExpired_def pruneOldest_def
      pruneExpired_loop.simps [of 0 None] NewExpirationCache_def gm_empty_def gm_get_def
      gm_len_def gm_put_def placeFromHead_def race_before_def Let_def)

lemma race_write: "SetFromHead 1 20 3 2 race_before = Some race_after"
  by (simp add: SetFromHead_def getOrCreateNode_def pruneExpired_def
      pruneExpired_loop.simps [of 3 "Some 0"] gm_get_def detach_def modify_def
      placeFromHead_def race_before_def race_after_def)

text \<open>
  The set operation of a key that is there updates its node in two statements. The states between
  the statements of a SetFromHead that stores value 20 with expiration 9: the node detached, with the
  new expiration, with the new value too; and at its end.
\<close>

definition torn :: "addr option \<Rightarrow> int \<Rightarrow> int \<Rightarrow> (int, int, int) ExpirationCache" where
  "torn p e v = \<lparr>nodeByKey = [(1, 0)], capacity = 2, head_p = p, tail_p = p,
     heap = [0 \<mapsto> \<lparr>prev_p = None, next_p = None, expiresAt = e,
                    entry = \<lparr>Key = 1, Value = v\<rparr>\<rparr>], fresh = 1\<rparr>"

lemma torn_writes:
  "SetFromHead 1 20 3 9 race_before = Some (torn (Some 0) 9 20)"
  "detach 0 race_before = Some (torn None 5 10)"
  "modify 0 (\<lambda>n. n\<lparr>expiresAt := 9\<rparr>) (torn None 5 10) = Some (torn None 9 10)"
  "modify 0 (\<lambda>n. n\<lparr>entry := (entry n)\<lparr>Value := 20\<rparr>\<rparr>) (torn None 9 10) = Some (torn None 9 20)"
  "placeFromHead 9 0 (torn None 9 20) = Some (torn (Some 0) 9 20)"
  by (simp_all add: SetFromHead_def getOrCreateNode_def pruneExpired_def
      pruneExpired_loop.simps [of 3 "Some 0"] gm_get_def detach_def modify_def
      placeFromHead_def race_before_def torn_def)

text \<open>
  C28. Get is not atomic. It can answer with a value that was not current at any moment of the
  call: a reader at time 3 finds the node and sees it live; a SetFromHead then stores value 20
  with expiration 2, already past; the reader answers 20, which an uninterrupted Get answers
  neither before nor after the write. And between the statements of a SetFromHead it can bring an
  expired value back: at time 6 the value 10 with expiration 5 is not found before the write, and
  value 20 is found after it, but a reader that comes between the stores of expiration and value
  answers 10.
\<close>

theorem get_not_atomic:
  "SetFromHead 1 10 0 5 (NewExpirationCache 2) = Some race_before \<and>
   (get_trace 1 3 [(Start, race_before), (Found 0, race_before), (Live 0, race_before),
      (Live 0, race_after), (Returned (Some 20), race_after)] \<and>
    Get race_before 1 3 = Some (Some 10) \<and> Get race_after 1 3 = Some None) \<and>
   (SetFromHead 1 20 3 9 race_before = Some (torn (Some 0) 9 20) \<and>
    do { c \<leftarrow> detach 0 race_before; modify 0 (\<lambda>n. n\<lparr>expiresAt := 9\<rparr>) c } = Some (torn None 9 10) \<and>
    do { c \<leftarrow> modify 0 (\<lambda>n. n\<lparr>entry := (entry n)\<lparr>Value := 20\<rparr>\<rparr>) (torn None 9 10);
         placeFromHead 9 0 c } = Some (torn (Some 0) 9 20) \<and>
    get_trace 1 6 [(Start, race_before), (Found 0, race_before)] \<and>
    get_trace 1 6 [(Found 0, torn None 9 10), (Live 0, torn None 9 10),
      (Returned (Some 10), torn None 9 10)] \<and>
    Get race_before 1 6 = Some None \<and> Get (torn (Some 0) 9 20) 1 6 = Some (Some 20))"
proof -
  have "get_step 1 3 (Start, race_before) (Found 0, race_before)"
    by (rule lookup_hit) (simp add: race_before_def gm_get_def)
  moreover have "get_step 1 3 (Found 0, race_before) (Live 0, race_before)"
    using check_live [of race_before 0 "the (heap race_before 0)" 3 1]
    by (simp add: race_before_def)
  moreover have "get_step 1 3 (Live 0, race_before) (Live 0, race_after)"
    by (rule other_SetFromHead [OF race_write])
  moreover have "get_step 1 3 (Live 0, race_after)
      (Returned (Some (Value \<lparr>Key = 1, Value = 20\<rparr>)), race_after)"
    using read_value [of race_after 0 "the (heap race_after 0)" 1 3]
    by (simp add: race_after_def)
  moreover have "get_step 1 6 (Start, race_before) (Found 0, race_before)"
    by (rule lookup_hit) (simp add: race_before_def gm_get_def)
  moreover have "get_step 1 6 (Found 0, torn None 9 10) (Live 0, torn None 9 10)"
    using check_live [of "torn None 9 10" 0 "the (heap (torn None 9 10) 0)" 6 1]
    by (simp add: torn_def)
  moreover have "get_step 1 6 (Live 0, torn None 9 10) (Returned (Some 10), torn None 9 10)"
    using read_value [of "torn None 9 10" 0 "the (heap (torn None 9 10) 0)" 1 6]
    by (simp add: torn_def)
  ultimately show ?thesis
    by (simp add: race_before_reachable torn_writes)
      (simp add: Get_def race_before_def race_after_def torn_def gm_get_def)
qed

end
