(* ===== verification/Rw_Mutex.thy ===== *)
theory Rw_Mutex
  imports Prelude
begin

text \<open>
  The reader/writer lock of the standard library (sync.RWMutex) as its documentation describes it:
  any number of readers or one writer; a Lock that waits for the readers to leave already keeps
  new readers out, and of two calls of Lock one waits for the other to unlock. \<open>None\<close> is a
  call that has to wait; a wrong unlock, which is a fatal error, is \<open>None\<close> too and is shown
  not to happen.
\<close>

record RWMutex =
  rw_readers :: nat
  rw_writer :: bool

definition unlocked :: RWMutex where
  "unlocked = \<lparr>rw_readers = 0, rw_writer = False\<rparr>"

definition RLock :: "RWMutex \<Rightarrow> RWMutex option" where
  "RLock m = (if rw_writer m then None else Some (m\<lparr>rw_readers := Suc (rw_readers m)\<rparr>))"

definition TryRLock :: "RWMutex \<Rightarrow> bool \<times> RWMutex" where
  "TryRLock m =
     (if rw_writer m then (False, m) else (True, m\<lparr>rw_readers := Suc (rw_readers m)\<rparr>))"

definition RUnlock :: "RWMutex \<Rightarrow> RWMutex option" where
  "RUnlock m =
     (if rw_readers m = 0 then None else Some (m\<lparr>rw_readers := rw_readers m - 1\<rparr>))"

text \<open>A Lock first keeps other writers and new readers out, then waits for the readers.\<close>

definition Lock_announce :: "RWMutex \<Rightarrow> RWMutex option" where
  "Lock_announce m = (if rw_writer m then None else Some (m\<lparr>rw_writer := True\<rparr>))"

definition Lock_acquire :: "RWMutex \<Rightarrow> RWMutex option" where
  "Lock_acquire m = (if rw_readers m = 0 then Some m else None)"

definition Unlock :: "RWMutex \<Rightarrow> RWMutex option" where
  "Unlock m = (if rw_writer m then Some (m\<lparr>rw_writer := False\<rparr>) else None)"

lemmas rw_defs = RLock_def TryRLock_def RUnlock_def Lock_announce_def Lock_acquire_def Unlock_def

subsection \<open>The interface\<close>

text \<open>
  What the methods under a lock rely on: how each operation that returns changes the number of
  readers and the writer, and when it returns. The account of a lock is the number of its read
  holders, of the writers that have announced themselves and of the write holders among these.
\<close>

locale rw_lock =
  fixes rlock :: "'m \<Rightarrow> 'm option" and try_rlock :: "'m \<Rightarrow> bool \<times> 'm" and runlock :: "'m \<Rightarrow> 'm option"
    and announce :: "'m \<Rightarrow> 'm option" and acquire :: "'m \<Rightarrow> 'm option" and unlock :: "'m \<Rightarrow> 'm option"
    and readers :: "'m \<Rightarrow> nat" and writer :: "'m \<Rightarrow> bool"
  assumes rlock: "rlock m = Some m' \<Longrightarrow> \<not> writer m \<and> \<not> writer m' \<and> readers m' = Suc (readers m)"
    and rlock_returns: "\<not> writer m \<Longrightarrow> \<exists>m'. rlock m = Some m'"
    and try_rlock: "try_rlock m = (b, m') \<Longrightarrow> if b then rlock m = Some m' else m' = m \<and> writer m"
    and runlock: "runlock m = Some m' \<Longrightarrow> readers m = Suc (readers m') \<and> (writer m' \<longleftrightarrow> writer m)"
    and runlock_returns: "0 < readers m \<Longrightarrow> \<exists>m'. runlock m = Some m'"
    and announce: "announce m = Some m' \<Longrightarrow> \<not> writer m \<and> writer m' \<and> readers m' = readers m"
    and announce_returns: "\<not> writer m \<Longrightarrow> \<exists>m'. announce m = Some m'"
    and acquire: "acquire m = Some m' \<Longrightarrow> m' = m \<and> readers m = 0"
    and acquire_returns: "readers m = 0 \<Longrightarrow> \<exists>m'. acquire m = Some m'"
    and unlock: "unlock m = Some m' \<Longrightarrow> writer m \<and> \<not> writer m' \<and> readers m' = readers m"
    and unlock_returns: "writer m \<Longrightarrow> \<exists>m'. unlock m = Some m'"
begin

definition accounts :: "'m \<Rightarrow> nat \<Rightarrow> nat \<Rightarrow> nat \<Rightarrow> bool" where
  "accounts m r a w \<longleftrightarrow> readers m = r \<and> of_bool (writer m) = a \<and> (0 < w \<longrightarrow> r = 0)"

lemma accounts_rlock:
  "rlock m = Some m' \<Longrightarrow> accounts m r a w \<Longrightarrow> w \<le> a \<Longrightarrow> accounts m' (Suc r) a w"
  using rlock [of m m'] by (auto simp: accounts_def)

lemma accounts_try_rlock:
  "try_rlock m = (True, m') \<Longrightarrow> accounts m r a w \<Longrightarrow> w \<le> a \<Longrightarrow> accounts m' (Suc r) a w"
  "try_rlock m = (False, m') \<Longrightarrow> accounts m r a w \<Longrightarrow> accounts m' r a w"
  using try_rlock [of m True m'] try_rlock [of m False m'] by (simp_all add: accounts_rlock)

lemma accounts_runlock:
  "runlock m = Some m' \<Longrightarrow> accounts m (Suc r) a w \<Longrightarrow> accounts m' r a w"
  using runlock [of m m'] by (auto simp: accounts_def)

lemma accounts_announce:
  "announce m = Some m' \<Longrightarrow> accounts m r a w \<Longrightarrow> accounts m' r (Suc a) w"
  using announce [of m m'] by (auto simp: accounts_def)

lemma accounts_acquire:
  "acquire m = Some m' \<Longrightarrow> accounts m r a w \<Longrightarrow> accounts m' r a (Suc w)"
  using acquire [of m m'] by (auto simp: accounts_def)

lemma accounts_unlock:
  "unlock m = Some m' \<Longrightarrow> accounts m r (Suc a) (Suc w) \<Longrightarrow> accounts m' r a w"
  using unlock [of m m'] by (auto simp: accounts_def)

lemmas accounts_moves =
  accounts_rlock accounts_try_rlock accounts_runlock accounts_announce accounts_acquire accounts_unlock

text \<open>Mutual exclusion, and who holds the lock can give it back.\<close>

lemma accounts_exclusive:
  "accounts m r a w \<Longrightarrow> w \<le> a \<Longrightarrow> 0 < w \<Longrightarrow> w = 1 \<and> r = 0"
  by (cases "writer m") (auto simp: accounts_def)

lemma accounts_release:
  "accounts m r a w \<Longrightarrow> 0 < r \<Longrightarrow> \<exists>m'. runlock m = Some m'"
  "accounts m r a w \<Longrightarrow> 0 < a \<Longrightarrow> \<exists>m'. unlock m = Some m'"
  by (auto simp: accounts_def intro: runlock_returns unlock_returns)

end

interpretation mutex:
  rw_lock RLock TryRLock RUnlock Lock_announce Lock_acquire Unlock rw_readers rw_writer
  by unfold_locales (auto simp: rw_defs split: if_splits)

subsection \<open>Sums over the frames of all goroutines\<close>

definition total_of :: "('f \<Rightarrow> nat) \<Rightarrow> 'f list list \<Rightarrow> nat" where
  "total_of w fss = sum_list (map (\<lambda>fs. sum_list (map w fs)) fss)"

lemma total_of_update:
  assumes "i < length fss"
  shows "total_of w (fss[i := fs]) + sum_list (map w (fss ! i)) =
    total_of w fss + sum_list (map w fs)"
  using assms unfolding total_of_def
  by (induction fss arbitrary: i) (auto split: nat.splits)

lemma total_of_ge: "i < length fss \<Longrightarrow> sum_list (map w (fss ! i)) \<le> total_of w fss"
  unfolding total_of_def by (induction fss arbitrary: i) (auto simp: nth_Cons' less_Suc_eq_0_disj trans_le_add2 split: nat.splits)

lemma total_of_ge_two:
  assumes "i < length fss" and "j < length fss" and "i \<noteq> j"
  shows "sum_list (map w (fss ! i)) + sum_list (map w (fss ! j)) \<le> total_of w fss"
  using total_of_update [OF assms(1), of w "[]"] total_of_ge [of j "fss[i := []]" w] assms
  by simp

lemma sum_list_map_pos:
  fixes w :: "'f \<Rightarrow> nat"
  shows "0 < sum_list (map w fs) \<longleftrightarrow> (\<exists>f\<in>set fs. 0 < w f)"
  by (induction fs) auto

lemma total_of_pos:
  assumes "0 < total_of w fss"
  obtains i f where "i < length fss" and "f \<in> set (fss ! i)" and "0 < w f"
proof -
  from assms have "\<exists>fs\<in>set fss. 0 < sum_list (map w fs)"
    by (simp only: total_of_def sum_list_map_pos)
  with that show ?thesis by (auto simp: sum_list_map_pos in_set_conv_nth [of _ fss])
qed

end
