(* ===== verification/Cache_Locks.thy ===== *)
theory Cache_Locks
  imports Cache_Race Rw_Mutex
begin

text \<open>
  Any number of goroutines that call the methods of one cache, with the lock the methods take.
  A goroutine is a stack of frames, the top one first; a step runs its top frame as far as the
  next point where another goroutine can come in between: a lock operation, the part of a method
  that runs under the lock, one look of an unlocked read of Get and GetEntry, one round of an
  iterator. The consumer of an iterator is the program's: it decides from the pairs it has been
  given which methods to call and whether to go on.
\<close>

text \<open>
  Get and GetEntry read fields of a node after they gave their lock back, beside a writer. The
  memory model of Go makes such a read a number of reads of machine words: each may see any write
  since the moment under the lock when the node was looked up, and the words seen need not belong
  together. How a call puts together what it reads is an argument of the call: how many looks at
  the field its words come from, and the function that takes all values the field had at these
  looks, the oldest first, to the value read.
\<close>

record ('v, 't) racy_read =
  expiry_looks :: nat
  read_expiry :: "'t list \<Rightarrow> 't"
  value_looks :: nat
  read_value :: "'v list \<Rightarrow> 'v"

datatype ('k, 'v, 't) gcall =
  GLen
| GCapacity
| GContains 'k
| GTryContains 'k
| GGet 'k 't "('v, 't) racy_read"
| GGetEntry 'k 't "('v, 't) racy_read"
| GSetFromHead 'k 'v 't 't
| GSetFromTail 'k 'v 't 't
| GRemove 'k
| GClear
| GIterate bool "('k \<times> 'v) list \<Rightarrow> ('k, 'v, 't) gcall list \<times> bool"

text \<open>\<open>GIterate True\<close> ranges over All, \<open>GIterate False\<close> over Backward.\<close>

fun writes :: "('k, 'v, 't) gcall \<Rightarrow> bool" where
  "writes (GSetFromHead k v now e) \<longleftrightarrow> True"
| "writes (GSetFromTail k v now e) \<longleftrightarrow> True"
| "writes (GRemove k) \<longleftrightarrow> True"
| "writes GClear \<longleftrightarrow> True"
| "writes _ \<longleftrightarrow> False"

datatype ('k, 'v, 't) frame =
  Begin "('k, 'v, 't) gcall"
| Waiting "('k, 'v, 't) gcall"
| Body "('k, 'v, 't) gcall"
| Unlocking
| RUnlocking
| Check bool 'k 't "('v, 't) racy_read" "addr option" "('t \<times> 'v) list"
| ReadValue 'k 't "('v, 't) racy_read" addr "('t \<times> 'v) list"
| Visit bool "('k \<times> 'v) list \<Rightarrow> ('k, 'v, 't) gcall list \<times> bool" "('k \<times> 'v) list" "addr option"
| Advance bool "('k \<times> 'v) list \<Rightarrow> ('k, 'v, 't) gcall list \<times> bool" "('k \<times> 'v) list" addr bool

datatype ('k, 'v, 't) event =
  Ret "('k, 'v, 't) call" "('k, 'v) answer"
| RetGet 'k 't "('v, 't) racy_read" "'v option"
| RetEntry 'k 't "('v, 't) racy_read" "addr option"
| RetStopped bool "('k \<times> 'v) list"

datatype ('k, 'v, 't) outcome =
  Blocks
| Panics
| Moves "('k, 'v, 't) frame list" RWMutex "('k, 'v, 't) ExpirationCache" "('k, 'v, 't) event list"

subsection \<open>The methods\<close>

fun begin_call ::
  "('k, 'v, 't) gcall \<Rightarrow> RWMutex \<Rightarrow> ('k, 'v, 't) ExpirationCache \<Rightarrow> ('k, 'v, 't) outcome" where
  "begin_call GCapacity m c = Moves [] m c [Ret CallCapacity (AInt (Capacity c))]"
| "begin_call (GTryContains k) m c =
     (case TryRLock m of
        (True, m') \<Rightarrow> Moves [Body (GTryContains k)] m' c []
      | (False, m') \<Rightarrow> Moves [] m' c [Ret (CallTryContains False k) (ABool False)])"
| "begin_call x m c =
     (if writes x
      then (case Lock_announce m of None \<Rightarrow> Blocks | Some m' \<Rightarrow> Moves [Waiting x] m' c [])
      else (case RLock m of None \<Rightarrow> Blocks | Some m' \<Rightarrow> Moves [Body x] m' c []))"

text \<open>What a look at a node sees of its two fields.\<close>

definition look :: "('k, 'v, 't) ExpirationCache \<Rightarrow> addr option \<Rightarrow> ('t \<times> 'v) list" where
  "look c p = (case p of None \<Rightarrow> [] | Some a \<Rightarrow>
     (case heap c a of None \<Rightarrow> [] | Some n \<Rightarrow> [(expiresAt n, Value (entry n))]))"

text \<open>What a method does while it holds the lock; the lock is held until the frame on top of
  the rest releases it.\<close>

fun locked_body ::
  "('k, 'v, 't::linorder) gcall \<Rightarrow> RWMutex \<Rightarrow> ('k, 'v, 't) ExpirationCache \<Rightarrow>
   ('k, 'v, 't) outcome" where
  "locked_body GLen m c = Moves [RUnlocking] m c [Ret CallLen (AInt (Len c))]"
| "locked_body (GContains k) m c =
     Moves [RUnlocking] m c [Ret (CallContains k) (ABool (Contains c k))]"
| "locked_body (GTryContains k) m c =
     Moves [RUnlocking] m c [Ret (CallTryContains True k) (ABool (TryContains True c k))]"
| "locked_body (GGet k now rd) m c =
     (let node = gm_get (nodeByKey c) k
      in Moves [RUnlocking, Check False k now rd node (look c node)] m c [])"
| "locked_body (GGetEntry k now rd) m c =
     (let node = gm_get (nodeByKey c) k
      in Moves [RUnlocking, Check True k now rd node (look c node)] m c [])"
| "locked_body (GSetFromHead k v now e) m c =
     (case SetFromHead k v now e c of
        None \<Rightarrow> Panics
      | Some c' \<Rightarrow> Moves [Unlocking] m c' [Ret (CallSetFromHead k v now e) Done])"
| "locked_body (GSetFromTail k v now e) m c =
     (case SetFromTail k v now e c of
        None \<Rightarrow> Panics
      | Some c' \<Rightarrow> Moves [Unlocking] m c' [Ret (CallSetFromTail k v now e) Done])"
| "locked_body (GRemove k) m c =
     (case Remove k c of
        None \<Rightarrow> Panics
      | Some (b, c') \<Rightarrow> Moves [Unlocking] m c' [Ret (CallRemove k) (ABool b)])"
| "locked_body GClear m c = Moves [Unlocking] m (Clear c) [Ret CallClear Done]"
| "locked_body (GIterate fwd yield) m c =
     Moves [Visit fwd yield [] (if fwd then head_p c else tail_p c), RUnlocking] m c []"
| "locked_body GCapacity m c = Panics"

fun run_frame ::
  "('k, 'v, 't::linorder) frame \<Rightarrow> RWMutex \<Rightarrow> ('k, 'v, 't) ExpirationCache \<Rightarrow>
   ('k, 'v, 't) outcome" where
  "run_frame (Begin x) m c = begin_call x m c"
| "run_frame (Waiting x) m c =
     (case Lock_acquire m of None \<Rightarrow> Blocks | Some m' \<Rightarrow> Moves [Body x] m' c [])"
| "run_frame (Body x) m c = locked_body x m c"
| "run_frame Unlocking m c =
     (case Unlock m of None \<Rightarrow> Panics | Some m' \<Rightarrow> Moves [] m' c [])"
| "run_frame RUnlocking m c =
     (case RUnlock m of None \<Rightarrow> Panics | Some m' \<Rightarrow> Moves [] m' c [])"
| "run_frame (Check ent k now rd p seen) m c =
     (case p of
        None \<Rightarrow> Moves [] m c [if ent then RetEntry k now rd None else RetGet k now rd None]
      | Some a \<Rightarrow> (case heap c a of
          None \<Rightarrow> Panics
        | Some n \<Rightarrow>
            let seen = seen @ look c p
            in if length seen < expiry_looks rd then Moves [Check ent k now rd p seen] m c []
               else if \<not> now < read_expiry rd (map fst seen)
               then Moves [] m c [if ent then RetEntry k now rd None else RetGet k now rd None]
               else if ent then Moves [] m c [RetEntry k now rd (Some a)]
               else Moves [ReadValue k now rd a seen] m c []))"
| "run_frame (ReadValue k now rd a seen) m c =
     (case heap c a of
        None \<Rightarrow> Panics
      | Some n \<Rightarrow>
          let seen = seen @ look c (Some a)
          in if length seen < value_looks rd then Moves [ReadValue k now rd a seen] m c []
             else Moves [] m c [RetGet k now rd (Some (read_value rd (map snd seen)))])"
| "run_frame (Visit fwd yield ys p) m c =
     (case p of
        None \<Rightarrow> Moves [] m c [Ret (if fwd then CallAll else CallBackward) (ASeq ys)]
      | Some a \<Rightarrow> (case heap c a of
          None \<Rightarrow> Panics
        | Some n \<Rightarrow>
            let ys' = ys @ [(Key (entry n), Value (entry n))]; (calls, go_on) = yield ys'
            in Moves (map Begin calls @ [Advance fwd yield ys' a go_on]) m c []))"
| "run_frame (Advance fwd yield ys a go_on) m c =
     (if \<not> go_on then Moves [] m c [RetStopped fwd ys]
      else (case heap c a of
          None \<Rightarrow> Panics
        | Some n \<Rightarrow> Moves [Visit fwd yield ys (if fwd then next_p n else prev_p n)] m c []))"

subsection \<open>The system\<close>

record ('k, 'v, 't) system =
  mu :: RWMutex
  shared :: "('k, 'v, 't) ExpirationCache"
  stacks :: "('k, 'v, 't) frame list list"
  history :: "(nat \<times> ('k, 'v, 't) event) list"

definition launch ::
  "int \<Rightarrow> ('k, 'v, 't) gcall list list \<Rightarrow> ('k, 'v, 't) system" where
  "launch cap progs =
     \<lparr>mu = unlocked, shared = NewExpirationCache cap, stacks = map (map Begin) progs, history = []\<rparr>"

inductive go_step ::
  "('k, 'v, 't::linorder) system \<Rightarrow> ('k, 'v, 't) system \<Rightarrow> bool" where
  go: "i < length (stacks s) \<Longrightarrow> stacks s ! i = f # fs \<Longrightarrow>
     run_frame f (mu s) (shared s) = Moves new m c evs \<Longrightarrow>
     go_step s \<lparr>mu = m, shared = c, stacks = (stacks s)[i := new @ fs],
       history = history s @ map (Pair i) evs\<rparr>"

inductive go_reach ::
  "int \<Rightarrow> ('k, 'v, 't::linorder) gcall list list \<Rightarrow> ('k, 'v, 't) system \<Rightarrow> bool"
  for cap progs where
  started: "go_reach cap progs (launch cap progs)"
| stepped: "go_reach cap progs s \<Longrightarrow> go_step s s' \<Longrightarrow> go_reach cap progs s'"

subsection \<open>Who holds the lock\<close>

fun read_holds :: "('k, 'v, 't) frame \<Rightarrow> nat" where
  "read_holds (Body x) = (if writes x then 0 else 1)"
| "read_holds RUnlocking = 1"
| "read_holds _ = 0"

fun write_holds :: "('k, 'v, 't) frame \<Rightarrow> nat" where
  "write_holds (Body x) = (if writes x then 1 else 0)"
| "write_holds Unlocking = 1"
| "write_holds _ = 0"

fun announces :: "('k, 'v, 't) frame \<Rightarrow> nat" where
  "announces (Waiting x) = 1"
| "announces f = write_holds f"

definition locks_agree :: "('k, 'v, 't) system \<Rightarrow> bool" where
  "locks_agree s \<longleftrightarrow>
     rw_readers (mu s) = total_of read_holds (stacks s) \<and>
     of_bool (rw_writer (mu s)) = total_of announces (stacks s) \<and>
     (0 < total_of write_holds (stacks s) \<longrightarrow> rw_readers (mu s) = 0)"

text \<open>An iterator that has yielded \<open>ys\<close> and goes on at \<open>p\<close> is on its way to
  yielding what an undisturbed iteration yields.\<close>

definition iter_result ::
  "bool \<Rightarrow> ('k, 'v, 't) ExpirationCache \<Rightarrow> ('k \<times> 'v) list option" where
  "iter_result fwd c = (if fwd then All c collect [] else Backward c collect [])"

definition iter_from ::
  "bool \<Rightarrow> addr option \<Rightarrow> ('k, 'v, 't) ExpirationCache \<Rightarrow> ('k \<times> 'v) list \<Rightarrow>
   ('k \<times> 'v) list option" where
  "iter_from fwd p c ys =
     (if fwd then All_loop collect p c ys else Backward_loop collect p c ys)"

lemma iter_from_start [simp]:
  "iter_from True (head_p c) c [] = iter_result True c"
  "iter_from False (tail_p c) c [] = iter_result False c"
  by (simp_all add: iter_from_def iter_result_def All_def Backward_def)

lemma iter_from_simps [simp]:
  "iter_from fwd None c ys = Some ys"
  "iter_from fwd (Some a) c ys = heap c a \<bind>
     (\<lambda>n. iter_from fwd (if fwd then next_p n else prev_p n) c (ys @ [(Key (entry n), Value (entry n))]))"
  by (simp_all add: iter_from_def All_loop.simps [of collect None] All_loop.simps [of collect "Some a"]
      Backward_loop.simps [of collect None] Backward_loop.simps [of collect "Some a"] collect_def)

lemma All_loop_extends:
  fixes c :: "('k, 'v, 't) ExpirationCache"
  assumes "All_loop y p c ys = Some zs"
  shows "y = collect \<longrightarrow> (\<exists>ws. zs = ys @ ws)"
proof (rule All_loop.raw_induct
    [where P = "\<lambda>y p c s s'. y = collect \<longrightarrow> (\<exists>ws. s' = s @ ws)", OF _ assms])
  fix f and y :: "('k \<times> 'v) list \<Rightarrow> 'k \<Rightarrow> 'v \<Rightarrow> ('k \<times> 'v) list \<times> bool"
    and p :: "addr option" and c :: "('k, 'v, 't) ExpirationCache" and s s'
  assume IH: "\<And>y p c s s'. f y p c s = Some s' \<Longrightarrow> y = collect \<longrightarrow> (\<exists>ws. s' = s @ ws)"
    and "(case p of None \<Rightarrow> Some s
      | Some a \<Rightarrow> heap c a \<bind> (\<lambda>n. case y s (Key (entry n)) (Value (entry n)) of
          (s', go_on) \<Rightarrow> if \<not> go_on then Some s' else f y (next_p n) c s')) = Some s'"
  then show "y = collect \<longrightarrow> (\<exists>ws. s' = s @ ws)"
    by (fastforce simp: bind_eq_Some_conv collect_def split: option.splits dest!: IH)
qed

lemma Backward_loop_extends:
  fixes c :: "('k, 'v, 't) ExpirationCache"
  assumes "Backward_loop y p c ys = Some zs"
  shows "y = collect \<longrightarrow> (\<exists>ws. zs = ys @ ws)"
proof (rule Backward_loop.raw_induct
    [where P = "\<lambda>y p c s s'. y = collect \<longrightarrow> (\<exists>ws. s' = s @ ws)", OF _ assms])
  fix f and y :: "('k \<times> 'v) list \<Rightarrow> 'k \<Rightarrow> 'v \<Rightarrow> ('k \<times> 'v) list \<times> bool"
    and p :: "addr option" and c :: "('k, 'v, 't) ExpirationCache" and s s'
  assume IH: "\<And>y p c s s'. f y p c s = Some s' \<Longrightarrow> y = collect \<longrightarrow> (\<exists>ws. s' = s @ ws)"
    and "(case p of None \<Rightarrow> Some s
      | Some a \<Rightarrow> heap c a \<bind> (\<lambda>n. case y s (Key (entry n)) (Value (entry n)) of
          (s', go_on) \<Rightarrow> if \<not> go_on then Some s' else f y (prev_p n) c s')) = Some s'"
  then show "y = collect \<longrightarrow> (\<exists>ws. s' = s @ ws)"
    by (fastforce simp: bind_eq_Some_conv collect_def split: option.splits dest!: IH)
qed

lemma iter_from_extends: "iter_from fwd p c ys = Some zs \<Longrightarrow> \<exists>ws. zs = ys @ ws"
  by (auto simp: iter_from_def dest: All_loop_extends Backward_loop_extends split: if_splits)

lemma iter_result_represents:
  "represents c cap xs \<Longrightarrow>
   iter_result fwd c = Some (if fwd then pairs xs else rev (pairs xs))"
  by (simp add: iter_result_def cache_refinement spec_iter_collect pairs_def rev_map)

subsection \<open>What holds of every frame\<close>

definition points_to :: "('k, 'v, 't) ExpirationCache \<Rightarrow> addr \<Rightarrow> 'k \<Rightarrow> bool" where
  "points_to c a k \<longleftrightarrow> a < fresh c \<and> (\<exists>n. heap c a = Some n \<and> Key (entry n) = k)"

fun frame_ok :: "('k, 'v, 't) ExpirationCache \<Rightarrow> ('k, 'v, 't) frame \<Rightarrow> bool" where
  "frame_ok c (Waiting x) \<longleftrightarrow> writes x"
| "frame_ok c (Body x) \<longleftrightarrow> x \<noteq> GCapacity"
| "frame_ok c (Check ent k now rd p seen) \<longleftrightarrow> (case p of None \<Rightarrow> True | Some a \<Rightarrow> points_to c a k)"
| "frame_ok c (ReadValue k now rd a seen) \<longleftrightarrow> points_to c a k"
| "frame_ok c (Visit fwd yield ys p) \<longleftrightarrow> iter_from fwd p c ys = iter_result fwd c"
| "frame_ok c (Advance fwd yield ys a go_on) \<longleftrightarrow>
     heap c a \<bind> (\<lambda>n. iter_from fwd (if fwd then next_p n else prev_p n) c ys) = iter_result fwd c"
| "frame_ok c _ \<longleftrightarrow> True"

fun iterating :: "('k, 'v, 't) frame \<Rightarrow> bool" where
  "iterating (Visit fwd yield ys p) \<longleftrightarrow> True"
| "iterating (Advance fwd yield ys a go_on) \<longleftrightarrow> True"
| "iterating _ \<longleftrightarrow> False"

fun event_ok :: "('k, 'v, 't) ExpirationCache \<Rightarrow> ('k, 'v, 't) event \<Rightarrow> bool" where
  "event_ok c (RetEntry k now rd p) \<longleftrightarrow> (case p of None \<Rightarrow> True | Some a \<Rightarrow> points_to c a k)"
| "event_ok c _ \<longleftrightarrow> True"

lemma points_to_stable: "points_to c a k \<Longrightarrow> keys_stable c c' \<Longrightarrow> points_to c' a k"
  by (fastforce simp: points_to_def keys_stable_def)

lemma event_ok_stable: "event_ok c e \<Longrightarrow> keys_stable c c' \<Longrightarrow> event_ok c' e"
  by (cases e) (auto split: option.splits intro: points_to_stable)

lemma frame_ok_stable:
  "frame_ok c f \<Longrightarrow> keys_stable c c' \<Longrightarrow> \<not> iterating f \<Longrightarrow> frame_ok c' f"
  by (cases f) (auto split: option.splits intro: points_to_stable)

lemma represents_points_to:
  "represents c cap xs \<Longrightarrow> gm_get (nodeByKey c) k = Some a \<Longrightarrow> points_to c a k"
  using represents_found by (fastforce simp: points_to_def)

lemma Begin_ok [simp]: "f \<in> Begin ` X \<Longrightarrow> frame_ok c f" by auto

lemma frame_step_ok:
  assumes "run_frame f m c = Moves new m' c' evs" and "frame_ok c f" and "represents c cap xs"
  shows "(\<forall>g\<in>set new. frame_ok c' g) \<and> (\<forall>e\<in>set evs. event_ok c' e)"
proof (cases f)
  case (Begin x)
  with assms show ?thesis
    by (cases x) (auto simp: rw_defs split: option.splits if_splits)
next
  case (Waiting x)
  with assms show ?thesis by (cases x) (auto simp: rw_defs split: option.splits if_splits)
next
  case (Body x)
  with assms show ?thesis
    by (cases x) (auto simp: Let_def split: option.splits if_splits elim!: represents_points_to)
next
  case (Check ent k now rd p seen)
  with assms show ?thesis by (auto simp: Let_def split: option.splits if_splits)
next
  case (Visit fwd yield ys p)
  with assms show ?thesis
    by (auto simp: Let_def split: option.splits if_splits prod.splits)
next
  case (Advance fwd yield ys a go_on)
  with assms show ?thesis
    by (auto simp: Let_def split: option.splits if_splits prod.splits)
qed (use assms in \<open>auto simp: Let_def split: option.splits if_splits\<close>)

lemma frame_step_cache:
  assumes "run_frame f m c = Moves new m' c' evs" and "represents c cap xs"
  shows "c' = c \<or> (write_holds f = 1 \<and> keys_stable c c' \<and> (\<exists>xs'. represents c' cap xs'))"
proof (cases f)
  case (Begin x)
  with assms show ?thesis by (cases x) (auto split: option.splits if_splits prod.splits bool.splits)
next
  case (Body x)
  note reps = SetFromHead_represents [OF assms(2)] SetFromTail_represents [OF assms(2)]
    Remove_represents [OF assms(2)] Clear_represents [OF assms(2)]
  show ?thesis
  proof (cases x)
    case (GSetFromHead k v now e)
    with Body assms reps(1) [of k v now e] show ?thesis
      by (auto split: option.splits intro: SetFromHead_keys_stable)
  next
    case (GSetFromTail k v now e)
    with Body assms reps(2) [of k v now e] show ?thesis
      by (auto split: option.splits intro: SetFromTail_keys_stable)
  next
    case (GRemove k)
    with Body assms reps(3) [of k] show ?thesis
      by (auto split: option.splits intro: Remove_keys_stable)
  next
    case GClear
    with Body assms reps(4) show ?thesis by (auto intro: Clear_keys_stable)
  qed (use Body assms in \<open>auto simp: Let_def\<close>)
qed (use assms in \<open>auto simp: Let_def split: option.splits if_splits prod.splits\<close>)

lemma frame_step_accounts:
  assumes "run_frame f m c = Moves new m' c' evs" and "frame_ok c f" and "w \<le> a"
    and "mutex.accounts m (r + read_holds f) (a + announces f) (w + write_holds f)"
  shows "mutex.accounts m' (r + sum_list (map read_holds new)) (a + sum_list (map announces new))
    (w + sum_list (map write_holds new))"
proof (cases f)
  case (Begin x)
  with assms show ?thesis
    by (cases x) (auto split: option.splits prod.splits bool.splits dest: mutex.accounts_moves)
next
  case (Body x)
  with assms show ?thesis by (cases x) (auto simp: Let_def split: option.splits)
next
  case (Visit fwd yield ys p)
  with assms show ?thesis
    by (auto simp: Let_def comp_def split: option.splits prod.splits)
qed (use assms in \<open>auto simp: Let_def split: option.splits if_splits dest: mutex.accounts_moves\<close>)

subsection \<open>What holds in every reachable state\<close>

text \<open>Below an iterator's frame there is the frame that releases its read lock.\<close>

fun nested :: "('k, 'v, 't) frame list \<Rightarrow> bool" where
  "nested [] \<longleftrightarrow> True"
| "nested (f # fs) \<longleftrightarrow> (iterating f \<longrightarrow> RUnlocking \<in> set fs) \<and> nested fs"

lemma nested_Begins [simp]: "nested (map Begin xs @ fs) = nested fs"
  by (induction xs) auto

lemma frame_step_nested:
  assumes "run_frame f m c = Moves new m' c' evs" and "nested (f # fs)"
  shows "nested (new @ fs)"
proof (cases f)
  case (Begin x)
  with assms show ?thesis
    by (cases x) (auto split: option.splits if_splits prod.splits bool.splits)
next
  case (Body x)
  with assms show ?thesis by (cases x) (auto simp: Let_def split: option.splits)
qed (use assms in \<open>auto simp: Let_def split: option.splits if_splits prod.splits\<close>)

lemma nested_iterating:
  "nested fs \<Longrightarrow> f \<in> set fs \<Longrightarrow> iterating f \<Longrightarrow> RUnlocking \<in> set fs"
  by (induction fs) auto

definition sys_inv :: "int \<Rightarrow> ('k, 'v, 't::linorder) system \<Rightarrow> bool" where
  "sys_inv cap s \<longleftrightarrow> locks_agree s \<and> (\<exists>xs. represents (shared s) cap xs) \<and>
     (\<forall>fs\<in>set (stacks s). nested fs \<and> (\<forall>f\<in>set fs. frame_ok (shared s) f)) \<and>
     (\<forall>(i, e)\<in>set (history s). event_ok (shared s) e)"

lemma write_holds_le: "write_holds f \<le> announces f"
  by (cases f) auto

lemma total_write_le: "total_of write_holds fss \<le> total_of announces fss"
  unfolding total_of_def by (intro sum_list_mono write_holds_le)

lemma locks_agree_accounts:
  "locks_agree s \<longleftrightarrow> mutex.accounts (mu s) (total_of read_holds (stacks s))
     (total_of announces (stacks s)) (total_of write_holds (stacks s))"
  by (auto simp: locks_agree_def mutex.accounts_def)

lemma locks_agree_step:
  assumes "locks_agree s" and "i < length (stacks s)" and "stacks s ! i = f # fs"
    and "run_frame f (mu s) (shared s) = Moves new m c evs" and "frame_ok (shared s) f"
  shows "locks_agree \<lparr>mu = m, shared = c, stacks = (stacks s)[i := new @ fs], history = h\<rparr>"
proof -
  let ?rest = "\<lambda>w. total_of w ((stacks s)[i := fs])"
  have before: "total_of w (stacks s) = ?rest w + w f" for w :: "('a, 'b, 'c) frame \<Rightarrow> nat"
    using total_of_update [OF assms(2), of w fs] assms(3) by simp
  have after: "total_of w ((stacks s)[i := new @ fs]) = ?rest w + sum_list (map w new)"
    for w :: "('a, 'b, 'c) frame \<Rightarrow> nat"
    using total_of_update [OF assms(2), of w "new @ fs"] assms(3) before [of w] by simp
  show ?thesis
    using assms(1) unfolding locks_agree_accounts before after system.simps
    by (rule frame_step_accounts [OF assms(4,5) total_write_le])
qed

lemma sole_writer_no_iterator:
  assumes "sys_inv cap s" and "0 < total_of write_holds (stacks s)"
    and "fs \<in> set (stacks s)" and "f \<in> set fs"
  shows "\<not> iterating f"
proof
  assume "iterating f"
  moreover have "nested fs" using assms(1,3) by (simp add: sys_inv_def)
  ultimately have "RUnlocking \<in> set fs" using assms(4) by (blast dest: nested_iterating)
  then have "0 < sum_list (map read_holds fs)"
    using sum_list_map_pos [of read_holds fs] by fastforce
  moreover obtain i where "i < length (stacks s)" "stacks s ! i = fs"
    using assms(3) by (auto simp: in_set_conv_nth)
  ultimately have "0 < total_of read_holds (stacks s)"
    using total_of_ge [of i "stacks s" read_holds] by simp
  with assms(1,2) show False by (simp add: sys_inv_def locks_agree_def)
qed

lemma go_step_inv:
  assumes "go_step s s'" and "sys_inv cap s"
  shows "sys_inv cap s'"
  using assms
proof (induction rule: go_step.induct)
  case (go i s f fs new m c evs)
  let ?s' = "\<lparr>mu = m, shared = c, stacks = (stacks s)[i := new @ fs],
    history = history s @ map (Pair i) evs\<rparr>"
  from go.prems obtain xs where xs: "represents (shared s) cap xs" by (auto simp: sys_inv_def)
  have stack: "f # fs \<in> set (stacks s)" using go.hyps(1,2) by (metis nth_mem)
  with go.prems have ok: "frame_ok (shared s) f" "nested (f # fs)" by (auto simp: sys_inv_def)
  note new_ok = frame_step_ok [OF go.hyps(3) ok(1) xs]
  note change = frame_step_cache [OF go.hyps(3) xs]
  have stable: "keys_stable (shared s) c" using change by auto
  have rest: "frame_ok c g" if g: "gs \<in> set (stacks s)" "g \<in> set gs" for gs g
  proof (cases "c = shared s")
    case True
    with go.prems g show ?thesis by (auto simp: sys_inv_def)
  next
    case False
    with change have "write_holds f = 1" by simp
    with stack have "0 < total_of write_holds (stacks s)"
      using total_of_ge [OF go.hyps(1), of write_holds] go.hyps(2) by simp
    from sole_writer_no_iterator [OF go.prems this g] go.prems g stable show ?thesis
      by (auto simp: sys_inv_def intro: frame_ok_stable)
  qed
  have "locks_agree ?s'"
    using go.prems by (intro locks_agree_step [OF _ go.hyps ok(1)]) (simp add: sys_inv_def)
  moreover have "\<exists>xs. represents c cap xs" using change xs by auto
  moreover have "nested gs \<and> (\<forall>g\<in>set gs. frame_ok c g)"
    if "gs \<in> set ((stacks s)[i := new @ fs])" for gs
  proof -
    from that have "gs \<in> set (stacks s) \<or> gs = new @ fs"
      by (metis insert_iff set_update_subset_insert subsetD)
    moreover have "nested (new @ fs)" by (rule frame_step_nested [OF go.hyps(3) ok(2)])
    moreover have "\<forall>g\<in>set (new @ fs). frame_ok c g" using new_ok rest [OF stack] by auto
    ultimately show ?thesis using rest go.prems by (auto simp: sys_inv_def)
  qed
  moreover have "\<forall>(j, e)\<in>set (history s @ map (Pair i) evs). event_ok c e"
    using new_ok go.prems stable by (fastforce simp: sys_inv_def intro: event_ok_stable)
  ultimately show ?case by (simp add: sys_inv_def)
qed

lemma total_of_Begin [simp]:
  "total_of read_holds (map (map Begin) progs) = 0"
  "total_of announces (map (map Begin) progs) = 0"
  "total_of write_holds (map (map Begin) progs) = 0"
  by (simp_all add: total_of_def comp_def)

lemma go_reach_inv:
  assumes "go_reach cap progs s"
  shows "sys_inv (if cap \<le> 0 then MaxInt else cap) s"
  using assms
proof (induction rule: go_reach.induct)
  case started
  have "nested (map Begin p)" for p :: "('a, 'b, 'c) gcall list"
    using nested_Begins [of p "[]"] by simp
  then show ?case
    using New_represents [of cap]
    by (auto simp: sys_inv_def launch_def locks_agree_def unlocked_def)
next
  case (stepped s s')
  then show ?case by (blast intro: go_step_inv)
qed

end
