(* ===== verification/Cache_Locks_Props.thy ===== *)
theory Cache_Locks_Props
  imports Cache_Locks
begin

text \<open>
  The properties of goroutines that share one cache: mutual exclusion, iterators
  as snapshots, pointers to entries, and which programs can deadlock and which cannot.
\<close>

subsection \<open>Schedules\<close>

text \<open>A schedule names the goroutine that moves next; it makes reachable states computable.\<close>

fun run_schedule ::
  "nat list \<Rightarrow> ('k, 'v, 't::linorder) system \<Rightarrow> ('k, 'v, 't) system option" where
  "run_schedule [] s = Some s"
| "run_schedule (i # is) s =
     (if i < length (stacks s)
      then (case stacks s ! i of
          [] \<Rightarrow> None
        | f # fs \<Rightarrow> (case run_frame f (mu s) (shared s) of
            Moves new m c evs \<Rightarrow> run_schedule is \<lparr>mu = m, shared = c,
              stacks = (stacks s)[i := new @ fs], history = history s @ map (Pair i) evs\<rparr>
          | _ \<Rightarrow> None))
      else None)"

lemma run_schedule_steps: "run_schedule is s = Some s' \<Longrightarrow> rtranclp go_step s s'"
proof (induction "is" s rule: run_schedule.induct)
  case (2 i "is" s)
  from "2.prems" obtain f fs new m c evs where
    move: "i < length (stacks s)" "stacks s ! i = f # fs"
      "run_frame f (mu s) (shared s) = Moves new m c evs" and
    rest: "run_schedule is \<lparr>mu = m, shared = c, stacks = (stacks s)[i := new @ fs],
      history = history s @ map (Pair i) evs\<rparr> = Some s'"
    by (auto split: if_splits list.splits outcome.splits)
  from "2.IH" [OF move(1,2,3) rest] go_step.go [OF move] show ?case
    by (rule converse_rtranclp_into_rtranclp [rotated])
qed simp

lemma go_reach_steps: "rtranclp go_step s s' \<Longrightarrow> go_reach cap progs s \<Longrightarrow> go_reach cap progs s'"
  by (induction rule: rtranclp_induct) (auto intro: stepped)

lemma run_schedule_reach:
  "run_schedule is (launch cap progs) = Some s \<Longrightarrow> go_reach cap progs s"
  by (blast intro: go_reach_steps run_schedule_steps started)

subsection \<open>Mutual exclusion and absence of panics\<close>

definition writing :: "('k, 'v, 't) system \<Rightarrow> nat \<Rightarrow> bool" where
  "writing s i \<longleftrightarrow> i < length (stacks s) \<and> (\<exists>f\<in>set (stacks s ! i). 0 < write_holds f)"

definition reading :: "('k, 'v, 't) system \<Rightarrow> nat \<Rightarrow> bool" where
  "reading s i \<longleftrightarrow> i < length (stacks s) \<and> (\<exists>f\<in>set (stacks s ! i). 0 < read_holds f)"

lemma writing_total: "writing s i \<longleftrightarrow> i < length (stacks s) \<and> 0 < sum_list (map write_holds (stacks s ! i))"
  by (simp add: writing_def sum_list_map_pos)

lemma reading_total: "reading s i \<longleftrightarrow> i < length (stacks s) \<and> 0 < sum_list (map read_holds (stacks s ! i))"
  by (simp add: reading_def sum_list_map_pos)

lemma reading_readers:
  "locks_agree s \<Longrightarrow> reading s i \<Longrightarrow> 0 < rw_readers (mu s)"
  using total_of_ge [of i "stacks s" read_holds] by (simp add: reading_total locks_agree_def)

lemma writing_excludes:
  assumes "locks_agree s" and "writing s i"
  shows "\<not> reading s j" and "writing s j \<Longrightarrow> j = i"
proof -
  from assms(2) have "0 < total_of write_holds (stacks s)"
    using total_of_ge [of i "stacks s" write_holds] by (simp add: writing_total)
  then have one: "total_of write_holds (stacks s) = 1 \<and> total_of read_holds (stacks s) = 0"
    by (rule mutex.accounts_exclusive [OF assms(1) [unfolded locks_agree_accounts] total_write_le])
  then show "\<not> reading s j"
    using reading_readers [OF assms(1)] assms(1) by (auto simp: locks_agree_def)
  show "j = i" if "writing s j"
    using that assms(2) one total_of_ge_two [of i "stacks s" j write_holds]
    by (cases "j = i") (simp_all add: writing_total)
qed

lemma frame_no_panic:
  assumes "frame_ok c f" and "represents c cap xs"
    and "f = RUnlocking \<Longrightarrow> \<exists>m'. RUnlock m = Some m'" and "f = Unlocking \<Longrightarrow> \<exists>m'. Unlock m = Some m'"
  shows "run_frame f m c \<noteq> Panics"
proof (cases f)
  case (Begin x)
  then show ?thesis by (cases x) (auto split: option.splits prod.splits bool.splits)
next
  case (Body x)
  have "SetFromHead k v now e c \<noteq> None" "SetFromTail k v now e c \<noteq> None" "Remove k c \<noteq> None"
    for k v now e
    using SetFromHead_represents [OF assms(2), of k v now e]
      SetFromTail_represents [OF assms(2), of k v now e] Remove_represents [OF assms(2), of k]
    by auto
  with Body assms(1) show ?thesis by (cases x) (auto simp: Let_def split: option.splits prod.splits)
next
  case (Visit fwd yield ys p)
  then show ?thesis
    using assms(1) iter_result_represents [OF assms(2), of fwd]
    by (auto simp: Let_def split: option.splits prod.splits)
next
  case (Advance fwd yield ys a go_on)
  then show ?thesis
    using assms(1) iter_result_represents [OF assms(2), of fwd]
    by (auto split: option.splits)
qed (use assms in \<open>auto simp: points_to_def Let_def split: option.splits\<close>)

lemma sys_inv_no_panic:
  assumes "sys_inv cap s" and "i < length (stacks s)" and "stacks s ! i = f # fs"
  shows "run_frame f (mu s) (shared s) \<noteq> Panics"
proof -
  from assms obtain xs where xs: "represents (shared s) cap xs" by (auto simp: sys_inv_def)
  have "f # fs \<in> set (stacks s)" using assms(2,3) by (metis nth_mem)
  with assms(1) have ok: "frame_ok (shared s) f" by (auto simp: sys_inv_def)
  have acc: "mutex.accounts (mu s) (total_of read_holds (stacks s))
      (total_of announces (stacks s)) (total_of write_holds (stacks s))"
    using assms(1) by (simp add: sys_inv_def locks_agree_accounts)
  have "\<exists>m'. RUnlock (mu s) = Some m'" if "f = RUnlocking"
    using total_of_ge [OF assms(2), of read_holds] that assms(3)
    by (intro mutex.accounts_release(1) [OF acc]) simp
  moreover have "\<exists>m'. Unlock (mu s) = Some m'" if "f = Unlocking"
    using total_of_ge [OF assms(2), of announces] that assms(3)
    by (intro mutex.accounts_release(2) [OF acc]) simp
  ultimately show ?thesis by (rule frame_no_panic [OF ok xs])
qed

lemma sys_inv_frame:
  assumes "sys_inv cap s" and "i < length (stacks s)" and "stacks s ! i = f # fs"
  shows "frame_ok (shared s) f" and "nested (f # fs)"
proof -
  have "f # fs \<in> set (stacks s)" using assms(2,3) by (metis nth_mem)
  with assms(1) show "frame_ok (shared s) f" "nested (f # fs)" by (auto simp: sys_inv_def)
qed

subsection \<open>Progress\<close>

text \<open>Calls that never wait for the lock, and programs whose consumers make no others.\<close>

fun never_waits :: "('k, 'v, 't) gcall \<Rightarrow> bool" where
  "never_waits GCapacity \<longleftrightarrow> True"
| "never_waits (GTryContains k) \<longleftrightarrow> True"
| "never_waits _ \<longleftrightarrow> False"

definition polite_yield :: "(('k \<times> 'v) list \<Rightarrow> ('k, 'v, 't) gcall list \<times> bool) \<Rightarrow> bool" where
  "polite_yield yield \<longleftrightarrow> (\<forall>ys. \<forall>x\<in>set (fst (yield ys)). never_waits x)"

fun polite_call :: "('k, 'v, 't) gcall \<Rightarrow> bool" where
  "polite_call (GIterate fwd yield) \<longleftrightarrow> polite_yield yield"
| "polite_call _ \<longleftrightarrow> True"

fun polite :: "('k, 'v, 't) frame \<Rightarrow> bool" where
  "polite (Begin x) \<longleftrightarrow> polite_call x"
| "polite (Waiting x) \<longleftrightarrow> polite_call x"
| "polite (Body x) \<longleftrightarrow> polite_call x"
| "polite (Visit fwd yield ys p) \<longleftrightarrow> polite_yield yield"
| "polite (Advance fwd yield ys a go_on) \<longleftrightarrow> polite_yield yield"
| "polite _ \<longleftrightarrow> True"

text \<open>Frames that may run while their goroutine holds the read lock already.\<close>

fun light :: "('k, 'v, 't) frame \<Rightarrow> bool" where
  "light (Begin x) \<longleftrightarrow> never_waits x"
| "light (Waiting x) \<longleftrightarrow> False"
| "light (Body x) \<longleftrightarrow> never_waits x"
| "light Unlocking \<longleftrightarrow> False"
| "light (Check ent k now rd p seen) \<longleftrightarrow> False"
| "light (ReadValue k now rd a seen) \<longleftrightarrow> False"
| "light _ \<longleftrightarrow> True"

text \<open>Frames that are on top of their stack: they hold the lock or wait for it.\<close>

fun topmost :: "('k, 'v, 't) frame \<Rightarrow> bool" where
  "topmost (Waiting x) \<longleftrightarrow> True"
| "topmost (Body x) \<longleftrightarrow> True"
| "topmost Unlocking \<longleftrightarrow> True"
| "topmost _ \<longleftrightarrow> False"

fun calm :: "('k, 'v, 't) frame list \<Rightarrow> bool" where
  "calm [] \<longleftrightarrow> True"
| "calm (f # fs) \<longleftrightarrow> polite f \<and> (RUnlocking \<in> set fs \<longrightarrow> light f) \<and>
     (\<forall>g\<in>set fs. \<not> topmost g) \<and> calm fs"

lemma calm_Begins:
  assumes "\<forall>x\<in>set xs. never_waits x" and "calm fs" and "\<forall>g\<in>set fs. \<not> topmost g"
  shows "calm (map Begin xs @ fs)"
  using assms
proof (induction xs)
  case (Cons x xs)
  then show ?case by (cases x) auto
qed simp

lemma frame_step_calm:
  assumes "run_frame f m c = Moves new m' c' evs" and "calm (f # fs)" and "nested (f # fs)"
  shows "calm (new @ fs)"
proof (cases f)
  case (Begin x)
  with assms show ?thesis
    by (cases x) (auto split: option.splits if_splits prod.splits bool.splits)
next
  case (Body x)
  with assms show ?thesis by (cases x) (auto simp: Let_def split: option.splits)
next
  case (Visit fwd yield ys p)
  with assms show ?thesis
    by (auto simp: Let_def case_prod_beta polite_yield_def split: option.splits
        intro!: calm_Begins)
qed (use assms in \<open>auto simp: Let_def split: option.splits if_splits prod.splits\<close>)

definition calm_sys :: "('k, 'v, 't) system \<Rightarrow> bool" where
  "calm_sys s \<longleftrightarrow> (\<forall>fs\<in>set (stacks s). calm fs)"

lemma go_step_calm:
  assumes "go_step s s'" and "sys_inv cap s" and "calm_sys s"
  shows "calm_sys s'"
  using assms
proof (induction rule: go_step.induct)
  case (go i s f fs new m c evs)
  have "f # fs \<in> set (stacks s)" using go.hyps(1,2) by (metis nth_mem)
  with go.prems have "calm (f # fs)" "nested (f # fs)" by (auto simp: calm_sys_def sys_inv_def)
  from frame_step_calm [OF go.hyps(3) this] go.prems(2) show ?case
    by (auto simp: calm_sys_def dest!: set_update_subset_insert [THEN subsetD])
qed

lemma calm_program: "\<forall>x\<in>set p. polite_call x \<Longrightarrow> calm (map Begin p)"
  by (induction p) auto

lemma go_reach_calm:
  assumes "go_reach cap progs s" and "\<forall>p\<in>set progs. \<forall>x\<in>set p. polite_call x"
  shows "calm_sys s"
  using assms
proof (induction rule: go_reach.induct)
  case started
  then show ?case by (auto simp: calm_sys_def launch_def calm_program)
next
  case (stepped s s')
  then show ?case by (blast intro: go_step_calm go_reach_inv)
qed

lemma blocked_frame:
  "run_frame f m c = Blocks \<Longrightarrow>
   (\<exists>x. f = Begin x \<and> \<not> never_waits x \<and> rw_writer m) \<or> (\<exists>x. f = Waiting x \<and> 0 < rw_readers m)"
proof (cases f)
  case (Begin x)
  then show "run_frame f m c = Blocks \<Longrightarrow> ?thesis"
    by (cases x) (auto simp: rw_defs split: option.splits if_splits prod.splits bool.splits)
next
  case (Body x)
  then show "run_frame f m c = Blocks \<Longrightarrow> ?thesis" by (cases x) (auto simp: Let_def split: option.splits)
qed (auto simp: rw_defs Let_def case_prod_beta split: option.splits if_splits)

lemma calm_head:
  assumes "calm (g # gs)" and "f \<in> set (g # gs)" and "topmost f"
  shows "g = f"
  using assms by auto

lemma unblocked_goroutine:
  assumes "locks_agree s" and "calm_sys s" and "\<exists>fs\<in>set (stacks s). fs \<noteq> []"
  obtains i f fs where "i < length (stacks s)" and "stacks s ! i = f # fs"
    and "run_frame f (mu s) (shared s) \<noteq> Blocks"
proof -
  have head: "\<exists>g gs. stacks s ! i = g # gs \<and> calm (g # gs) \<and> f \<in> set (g # gs)"
    if "i < length (stacks s)" "f \<in> set (stacks s ! i)" for i f
  proof -
    from that assms(2) have "calm (stacks s ! i)" by (simp add: calm_sys_def)
    with that(2) show ?thesis by (cases "stacks s ! i") auto
  qed
  consider (readers) "0 < rw_readers (mu s)" | (writer) "rw_readers (mu s) = 0" "rw_writer (mu s)"
    | (free) "rw_readers (mu s) = 0" "\<not> rw_writer (mu s)" by blast
  then show ?thesis
  proof cases
    case readers
    with assms(1) have "0 < total_of read_holds (stacks s)" by (simp add: locks_agree_def)
    then obtain i f where f: "i < length (stacks s)" "f \<in> set (stacks s ! i)" "0 < read_holds f"
      by (rule total_of_pos)
    from head [OF f(1,2)] obtain g gs where
      g: "stacks s ! i = g # gs" "calm (g # gs)" "f \<in> set (g # gs)" by blast
    have "g = f \<or> light g" using g(2,3) f(3) by (cases f) auto
    then have "run_frame g (mu s) (shared s) \<noteq> Blocks"
      using f(3) blocked_frame [of g "mu s" "shared s"] by auto
    with f(1) g(1) that show ?thesis by blast
  next
    case writer
    with assms(1) have "0 < total_of announces (stacks s)" by (simp add: locks_agree_def)
    then obtain i f where f: "i < length (stacks s)" "f \<in> set (stacks s ! i)" "0 < announces f"
      by (rule total_of_pos)
    from head [OF f(1,2)] obtain g gs where
      g: "stacks s ! i = g # gs" "calm (g # gs)" "f \<in> set (g # gs)" by blast
    have "topmost f" using f(3) by (cases f) auto
    with g(2,3) have "g = f" by (rule calm_head)
    then have "run_frame g (mu s) (shared s) \<noteq> Blocks"
      using f(3) writer(1) blocked_frame [of g "mu s" "shared s"] by auto
    with f(1) g(1) that show ?thesis by blast
  next
    case free
    from assms(3) obtain i where i: "i < length (stacks s)" "stacks s ! i \<noteq> []"
      by (auto simp: in_set_conv_nth)
    then obtain g gs where g: "stacks s ! i = g # gs" by (cases "stacks s ! i") auto
    with i(1) free that blocked_frame [of g "mu s" "shared s"] show ?thesis by fastforce
  qed
qed

lemma calm_progress:
  assumes "sys_inv cap s" and "calm_sys s" and "\<exists>fs\<in>set (stacks s). fs \<noteq> []"
  shows "\<exists>s'. go_step s s'"
proof -
  from assms(1) have "locks_agree s" by (simp add: sys_inv_def)
  then obtain i f fs where i: "i < length (stacks s)" "stacks s ! i = f # fs"
    "run_frame f (mu s) (shared s) \<noteq> Blocks"
    using assms(2,3) by (rule unblocked_goroutine)
  with sys_inv_no_panic [OF assms(1) i(1,2)] obtain new m c evs where
    "run_frame f (mu s) (shared s) = Moves new m c evs"
    by (cases "run_frame f (mu s) (shared s)") auto
  from go_step.go [OF i(1,2) this] show ?thesis by blast
qed

subsection \<open>Every run ends\<close>

text \<open>A step lowers, in this order: the calls that have not got their lock, the pairs the
  iterators still have to yield, and the steps of the frames that are left.\<close>

fun calls_left :: "('k, 'v, 't) frame \<Rightarrow> nat" where
  "calls_left (Begin x) = (if never_waits x then 0 else 3)"
| "calls_left (Waiting x) = 2"
| "calls_left (Body x) = (if never_waits x then 0 else 1)"
| "calls_left _ = 0"

fun pairs_left :: "('k, 'v, 't) ExpirationCache \<Rightarrow> ('k, 'v, 't) frame \<Rightarrow> nat" where
  "pairs_left c (Visit fwd yield ys p) = length (the (iter_result fwd c)) - length ys"
| "pairs_left c (Advance fwd yield ys a go_on) = length (the (iter_result fwd c)) - length ys"
| "pairs_left c _ = 0"

fun steps_left :: "('k, 'v, 't) frame \<Rightarrow> nat" where
  "steps_left (Begin x) = 3"
| "steps_left (Waiting x) = 0"
| "steps_left (Body x) = 2"
| "steps_left Unlocking = 1"
| "steps_left RUnlocking = 1"
| "steps_left (Check ent k now rd p seen) = 2 + (expiry_looks rd - length seen) + value_looks rd"
| "steps_left (ReadValue k now rd a seen) = 1 + (value_looks rd - length seen)"
| "steps_left (Visit fwd yield ys p) = 1"
| "steps_left (Advance fwd yield ys a go_on) = 2"

lemma calls_left_Begins:
  "\<forall>x\<in>set xs. never_waits x \<Longrightarrow> sum_list (map (calls_left \<circ> Begin) xs) = 0"
  by (induction xs) auto

lemma visit_decreases:
  assumes "iter_from fwd (Some a) c ys = iter_result fwd c" and "represents c cap xs"
  shows "length (the (iter_result fwd c)) - Suc (length ys) < length (the (iter_result fwd c)) - length ys"
proof -
  from iter_result_represents [OF assms(2)] obtain zs where zs: "iter_result fwd c = Some zs" by blast
  with assms(1) obtain n where "heap c a = Some n"
    "iter_from fwd (if fwd then next_p n else prev_p n) c (ys @ [(Key (entry n), Value (entry n))]) = Some zs"
    by (auto simp: bind_eq_Some_conv)
  from iter_from_extends [OF this(2)] zs show ?thesis by auto
qed

lemma frame_step_decreases:
  assumes "run_frame f m c = Moves new m' c' evs" and "frame_ok c f" and "polite f"
    and "represents c cap xs"
  shows "sum_list (map calls_left new) < calls_left f \<or>
    c' = c \<and> sum_list (map calls_left new) = calls_left f \<and>
      (sum_list (map (pairs_left c) new) < pairs_left c f \<or>
       sum_list (map (pairs_left c) new) = pairs_left c f \<and>
         sum_list (map steps_left new) < steps_left f)"
proof (cases f)
  case (Begin x)
  with assms show ?thesis
    by (cases x) (auto split: option.splits if_splits prod.splits bool.splits)
next
  case (Waiting x)
  with assms show ?thesis by (cases x) (auto simp: Let_def split: option.splits)
next
  case (Body x)
  with assms show ?thesis by (cases x) (auto simp: Let_def split: option.splits)
next
  case (Check ent k now rd p seen)
  with assms show ?thesis
    by (auto simp: Let_def look_def points_to_def split: option.splits if_splits)
next
  case (ReadValue k now rd a seen)
  with assms show ?thesis
    by (auto simp: Let_def look_def points_to_def split: if_splits)
next
  case (Visit fwd yield ys p)
  show ?thesis
  proof (cases p)
    case None
    with Visit assms(1,2) show ?thesis by (auto split: if_splits)
  next
    case (Some a)
    with Visit assms visit_decreases [of fwd a c ys cap xs] show ?thesis
      by (auto simp: Let_def case_prod_beta polite_yield_def calls_left_Begins comp_def
          split: option.splits)
  qed
next
  case (Advance fwd yield ys a go_on)
  with assms show ?thesis by (auto split: option.splits if_splits)
qed (use assms in \<open>auto split: option.splits if_splits\<close>)

definition go_measure :: "('k, 'v, 't) system \<Rightarrow> nat \<times> nat \<times> nat" where
  "go_measure s = (total_of calls_left (stacks s), total_of (pairs_left (shared s)) (stacks s),
     total_of steps_left (stacks s))"

lemma go_step_decreases:
  assumes "go_step s s'" and "sys_inv cap s" and "calm_sys s"
  shows "(go_measure s', go_measure s) \<in> less_than <*lex*> less_than <*lex*> less_than"
  using assms
proof (induction rule: go_step.induct)
  case (go i s f fs new m c evs)
  from go.prems(1) obtain xs where xs: "represents (shared s) cap xs" by (auto simp: sys_inv_def)
  have "f # fs \<in> set (stacks s)" using go.hyps(1,2) by (metis nth_mem)
  with go.prems(2) have "polite f" by (auto simp: calm_sys_def)
  note less = frame_step_decreases [OF go.hyps(3) sys_inv_frame(1) [OF go.prems(1) go.hyps(1,2)] this xs]
  have upd: "total_of w ((stacks s)[i := new @ fs]) + w f =
      total_of w (stacks s) + sum_list (map w new)" for w :: "('a, 'b, 'c) frame \<Rightarrow> nat"
    using total_of_update [OF go.hyps(1), of w "new @ fs"] go.hyps(2) by simp
  from less upd [of calls_left] upd [of "pairs_left (shared s)"] upd [of steps_left]
  show ?case by (auto simp: go_measure_def)
qed

lemma calm_runs_end:
  assumes "sys_inv cap s" and "calm_sys s"
  shows "\<not> (\<exists>g. g 0 = s \<and> (\<forall>n. go_step (g n) (g (Suc n))))"
proof
  assume "\<exists>g. g 0 = s \<and> (\<forall>n. go_step (g n) (g (Suc n)))"
  then obtain g where g: "g 0 = s" "\<And>n. go_step (g n) (g (Suc n))" by blast
  have inv: "sys_inv cap (g n) \<and> calm_sys (g n)" for n
  proof (induction n)
    case (Suc n)
    then show ?case using g(2) [of n] by (blast intro: go_step_inv go_step_calm)
  qed (use assms g(1) in simp)
  have "(go_measure (g (Suc n)), go_measure (g n)) \<in> less_than <*lex*> less_than <*lex*> less_than" for n
    using inv [of n] g(2) [of n] by (blast intro: go_step_decreases)
  moreover have "wf (less_than <*lex*> less_than <*lex*> less_than)" by auto
  ultimately show False
    using wf_no_infinite_down_chainE [of _ "\<lambda>n. go_measure (g n)"] by blast
qed

subsection \<open>Waiting for ever\<close>

lemma go_step_length: "go_step s s' \<Longrightarrow> length (stacks s') = length (stacks s)"
  by (induction rule: go_step.induct) simp

lemma go_step_history: "go_step s s' \<Longrightarrow> set (history s) \<subseteq> set (history s')"
  by (induction rule: go_step.induct) auto

lemma steps_history: "rtranclp go_step s s' \<Longrightarrow> set (history s) \<subseteq> set (history s')"
  by (induction rule: rtranclp_induct) (use go_step_history in blast)+

definition waits_for_itself :: "('k, 'v, 't) gcall \<Rightarrow> ('k, 'v, 't) frame list \<Rightarrow> nat \<Rightarrow>
    ('k, 'v, 't) system \<Rightarrow> bool" where
  "waits_for_itself x fs i s \<longleftrightarrow> i < length (stacks s) \<and>
     (stacks s ! i = Begin x # fs \<or> stacks s ! i = Waiting x # fs)"

lemma waits_for_itself_step:
  assumes "go_step s s'" and "sys_inv cap s" and "waits_for_itself x fs i s"
    and "writes x" and "RUnlocking \<in> set fs"
  shows "waits_for_itself x fs i s'"
  using assms
proof (induction rule: go_step.induct)
  case (go j s f gs new m c evs)
  show ?case
  proof (cases "j = i")
    case True
    have "reading s i" using go.prems by (auto simp: waits_for_itself_def reading_def intro!: bexI)
    with go.prems(1) have "0 < rw_readers (mu s)" by (auto simp: sys_inv_def intro: reading_readers)
    with go True show ?thesis
      by (cases x) (auto simp: waits_for_itself_def rw_defs split: if_splits)
  next
    case False
    with go.prems show ?thesis by (simp add: waits_for_itself_def)
  qed
qed

lemma waits_for_itself_steps:
  assumes "rtranclp go_step s s'" and "sys_inv cap s" and "waits_for_itself x fs i s"
    and "writes x" and "RUnlocking \<in> set fs"
  shows "sys_inv cap s' \<and> waits_for_itself x fs i s'"
  using assms
  by (induction rule: rtranclp_induct) (blast intro: go_step_inv waits_for_itself_step)+

subsection \<open>An example\<close>

text \<open>A read that sees each field as it is at the last look.\<close>

definition whole :: "('v, 't) racy_read" where
  "whole = \<lparr>expiry_looks = 1, read_expiry = last, value_looks = 1, read_value = last\<rparr>"

text \<open>
  Two goroutines. The first stores an entry and then iterates; its consumer asks TryContains. The
  second fetches the entry and clears the cache.
\<close>

definition demo :: "(int, int, int) gcall list list" where
  "demo = [[GSetFromHead 1 10 0 5, GIterate True (\<lambda>ys. ([GTryContains 1], True))],
     [GGetEntry 1 2 whole, GClear]]"

text \<open>A consumer that asks for the length, and one that removes what it is given.\<close>

definition demo_len :: "(int, int, int) gcall list list" where
  "demo_len = [[GSetFromHead 1 10 0 5, GIterate True (\<lambda>ys. ([GLen], True))], [GClear]]"

definition demo_remove :: "(int, int, int) gcall list list" where
  "demo_remove = [[GSetFromHead 1 10 0 5,
     GIterate True (\<lambda>ys. ([GRemove (fst (last ys))], True))], [GLen]]"

lemmas prune_unroll =
  pruneExpired_loop.simps [of _ None] pruneExpired_loop.simps [of _ "Some a" for a]

lemmas cache_eval = SetFromHead_def getOrCreateNode_def pruneExpired_def pruneOldest_def
  prune_unroll NewExpirationCache_def gm_empty_def gm_get_def gm_len_def gm_put_def gm_del_def
  placeFromHead_def modify_def detach_def remove_def Remove_def Clear_def Let_def
  rw_defs unlocked_def launch_def look_def whole_def

text \<open>The first goroutine has stored its entry and is in the middle of its iteration.\<close>

lemma demo_iterating:
  "\<exists>s. go_reach 2 demo s \<and> stacks s ! 0 = [Begin (GTryContains 1),
       Advance True (\<lambda>ys. ([GTryContains 1], True)) [(1, 10)] 0 True, RUnlocking] \<and>
     length (stacks s) = 2"
proof -
  have "\<exists>s. run_schedule [0, 0, 0, 0, 0, 0, 0] (launch 2 demo) = Some s \<and>
      stacks s ! 0 = [Begin (GTryContains 1),
        Advance True (\<lambda>ys. ([GTryContains 1], True)) [(1, 10)] 0 True, RUnlocking] \<and>
      length (stacks s) = 2"
    by (simp add: cache_eval demo_def)
  then show ?thesis by (blast intro: run_schedule_reach)
qed

text \<open>The second goroutine has its pointer and has cleared the cache.\<close>

lemma demo_cleared:
  "\<exists>s. go_reach 2 demo s \<and> history s = [(0, Ret (CallSetFromHead 1 10 0 5) Done),
       (1, RetEntry 1 2 whole (Some 0)), (1, Ret CallClear Done)]"
proof -
  have "\<exists>s. run_schedule [0, 0, 0, 0, 1, 1, 1, 1, 1, 1, 1, 1] (launch 2 demo) = Some s \<and>
      history s = [(0, Ret (CallSetFromHead 1 10 0 5) Done),
        (1, RetEntry 1 2 whole (Some 0)), (1, Ret CallClear Done)]"
    by (simp add: cache_eval demo_def)
  then show ?thesis by (blast intro: run_schedule_reach)
qed

text \<open>The consumer is about to call Remove.\<close>

lemma demo_removing:
  "\<exists>s s' f. go_reach 2 demo_remove s \<and> length (stacks s) = 2 \<and>
     stacks s ! 0 = [Begin (GRemove 1), f, RUnlocking] \<and> rtranclp go_step s s' \<and>
     stacks s' ! 0 = [Waiting (GRemove 1), f, RUnlocking]"
proof -
  have "\<exists>s f. run_schedule [0, 0, 0, 0, 0, 0, 0] (launch 2 demo_remove) = Some s \<and>
      length (stacks s) = 2 \<and> stacks s ! 0 = [Begin (GRemove 1), f, RUnlocking] \<and>
      \<not> rw_writer (mu s)"
    by (simp add: cache_eval demo_remove_def)
  then obtain s f where s: "go_reach 2 demo_remove s" "length (stacks s) = 2"
    "stacks s ! 0 = [Begin (GRemove 1), f, RUnlocking]" "\<not> rw_writer (mu s)"
    by (blast intro: run_schedule_reach)
  then have "\<exists>s'. run_schedule [0] s = Some s' \<and>
      stacks s' ! 0 = [Waiting (GRemove 1), f, RUnlocking]"
    by (simp add: rw_defs)
  with s show ?thesis by (blast intro: run_schedule_steps)
qed

subsection \<open>Properties\<close>

text \<open>
  C3. Whatever methods any number of goroutines call, from consumers of iterators too: the cache
  is consistent at every moment, no goroutine panics, and while one is inside a write operation
  no other is inside a locked section, nor is it itself inside an iteration.
\<close>

theorem goroutines_safe:
  assumes "go_reach cap progs s"
  shows "(\<exists>xs. represents (shared s) (if cap \<le> 0 then MaxInt else cap) xs) \<and>
    (\<forall>i f fs. i < length (stacks s) \<longrightarrow> stacks s ! i = f # fs \<longrightarrow>
       run_frame f (mu s) (shared s) \<noteq> Panics) \<and>
    (\<forall>i j. writing s i \<longrightarrow> \<not> reading s j \<and> (writing s j \<longrightarrow> j = i))"
  using go_reach_inv [OF assms] sys_inv_no_panic [OF go_reach_inv [OF assms]]
    writing_excludes [of s] by (auto simp: sys_inv_def)

theorem goroutines_safe_witness:
  "\<exists>s. go_reach 2 demo s \<and> reading s 0 \<and> \<not> writing s 1"
proof -
  obtain s where s: "go_reach 2 demo s" "stacks s ! 0 = [Begin (GTryContains 1),
      Advance True (\<lambda>ys. ([GTryContains 1], True)) [(1, 10)] 0 True, RUnlocking]"
    "length (stacks s) = 2" using demo_iterating by blast
  then have "reading s 0" by (simp add: reading_def)
  with goroutines_safe [OF s(1)] s(1) show ?thesis by blast
qed

text \<open>
  C8. An ongoing iterator blocks writes: as long as a goroutine is inside an iteration no step of
  any goroutine changes the cache, and what the iterator has yielded so far is the beginning of
  what an undisturbed iteration of that cache yields.
\<close>

theorem iterator_snapshot:
  assumes "go_reach cap progs s" and "i < length (stacks s)" and "f \<in> set (stacks s ! i)"
    and "f = Visit fwd yield ys p \<or> f = Advance fwd yield ys a go_on" and "go_step s s'"
  shows "shared s' = shared s \<and>
    (\<exists>zs. (if fwd then All (shared s) collect [] else Backward (shared s) collect []) =
       Some (ys @ zs))"
proof -
  let ?cap = "if cap \<le> 0 then MaxInt else cap"
  have inv: "sys_inv ?cap s" by (rule go_reach_inv [OF assms(1)])
  then obtain xs where xs: "represents (shared s) ?cap xs" by (auto simp: sys_inv_def)
  have mem: "stacks s ! i \<in> set (stacks s)" using assms(2) by simp
  have "\<exists>p. iter_from fwd p (shared s) ys = iter_result fwd (shared s)"
    using inv mem assms(3,4) iter_result_represents [OF xs, of fwd]
    by (fastforce simp: sys_inv_def bind_eq_Some_conv)
  then obtain zs where zs: "iter_result fwd (shared s) = Some (ys @ zs)"
    using iter_result_represents [OF xs, of fwd] iter_from_extends by metis
  have "total_of write_holds (stacks s) = 0"
    using sole_writer_no_iterator [OF inv _ mem assms(3)] assms(4) by (metis gr0I iterating.simps(1,2))
  with assms(5) inv have "shared s' = shared s"
  proof (induction rule: go_step.induct)
    case (go j s g gs new m c evs)
    then obtain xs where "represents (shared s) ?cap xs" by (auto simp: sys_inv_def)
    from frame_step_cache [OF go.hyps(3) this] total_of_ge [OF go.hyps(1), of write_holds] go
    show ?case by auto
  qed
  with zs show ?thesis by (simp add: iter_result_def)
qed

theorem iterator_snapshot_witness:
  "\<exists>s s'. go_reach 2 demo s \<and> go_step s s' \<and> shared s' = shared s \<and>
     (\<exists>zs. All (shared s) collect [] = Some ((1, 10) # zs))"
proof -
  obtain s where s: "go_reach 2 demo s" "stacks s ! 0 = [Begin (GTryContains 1),
      Advance True (\<lambda>ys. ([GTryContains 1], True)) [(1, 10)] 0 True, RUnlocking]"
    "length (stacks s) = 2" using demo_iterating by blast
  obtain new m c evs where "run_frame (Begin (GTryContains 1)) (mu s) (shared s) = Moves new m c evs"
    by (cases "rw_writer (mu s)") (auto simp: TryRLock_def)
  then obtain s' where s': "go_step s s'" using go_step.go [of 0 s] s(2,3) by fastforce
  from iterator_snapshot [OF s(1) _ _ _ s', of 0] s s' show ?thesis by fastforce
qed

text \<open>
  C16. The pointer that GetEntry returned points to an entry of the key asked for, now and at any
  later time, whatever calls are made in between.
\<close>

theorem entry_pointer_keeps_key:
  assumes "go_reach cap progs s" and "(i, RetEntry k now rd (Some a)) \<in> set (history s)"
    and "rtranclp go_step s s'"
  shows "\<exists>n. heap (shared s') a = Some n \<and> Key (entry n) = k"
proof -
  from assms(2) steps_history [OF assms(3)] have "(i, RetEntry k now rd (Some a)) \<in> set (history s')"
    by blast
  with go_reach_inv [OF go_reach_steps [OF assms(3,1)]] show ?thesis
    by (fastforce simp: sys_inv_def points_to_def)
qed

theorem entry_pointer_keeps_key_witness:
  "\<exists>s n. go_reach 2 demo s \<and> (1, Ret CallClear Done) \<in> set (history s) \<and>
     heap (shared s) 0 = Some n \<and> Key (entry n) = 1"
proof -
  obtain s where s: "go_reach 2 demo s" "history s = [(0, Ret (CallSetFromHead 1 10 0 5) Done),
      (1, RetEntry 1 2 whole (Some 0)), (1, Ret CallClear Done)]"
    using demo_cleared by blast
  then have "(1, RetEntry 1 2 whole (Some 0)) \<in> set (history s)" by simp
  from entry_pointer_keeps_key [OF s(1) this rtranclp.rtrancl_refl] s show ?thesis by auto
qed

text \<open>
  C11. When the consumers of iterators call nothing but Capacity and TryContains on the cache they
  iterate over, every call returns: no run goes on for ever, and as long as a goroutine has
  something left to do some goroutine can take a step.
\<close>

theorem polite_goroutines_finish:
  assumes "go_reach cap progs s" and "\<forall>p\<in>set progs. \<forall>x\<in>set p. polite_call x"
  shows "\<not> (\<exists>g. g 0 = s \<and> (\<forall>n. go_step (g n) (g (Suc n)))) \<and>
    ((\<exists>s'. go_step s s') \<or> (\<forall>fs\<in>set (stacks s). fs = []))"
  using go_reach_inv [OF assms(1)] go_reach_calm [OF assms] calm_runs_end calm_progress by blast

theorem polite_goroutines_finish_witness:
  "\<exists>s s'. go_reach 2 demo s \<and> stacks s ! 0 \<noteq> [] \<and> go_step s s'"
proof -
  obtain s where s: "go_reach 2 demo s" "stacks s ! 0 = [Begin (GTryContains 1),
      Advance True (\<lambda>ys. ([GTryContains 1], True)) [(1, 10)] 0 True, RUnlocking]"
    "length (stacks s) = 2" using demo_iterating by blast
  have "\<forall>p\<in>set demo. \<forall>x\<in>set p. polite_call x" by (simp add: demo_def polite_yield_def)
  from polite_goroutines_finish [OF s(1) this] s nth_mem [of 0 "stacks s"] show ?thesis
    by fastforce
qed

text \<open>
  C17. A consumer that calls a write operation of the cache it iterates over never gets an answer:
  its goroutine makes no further progress whatever the others do, and once it waits for the lock
  every call of another goroutine that takes the lock waits too.
\<close>

theorem write_inside_iteration_hangs:
  assumes "go_reach cap progs s" and "i < length (stacks s)" and "stacks s ! i = Begin x # fs"
    and "writes x" and "RUnlocking \<in> set fs" and "rtranclp go_step s s'"
  shows "(stacks s' ! i = Begin x # fs \<or> stacks s' ! i = Waiting x # fs) \<and>
    (stacks s' ! i = Waiting x # fs \<longrightarrow> (\<forall>y. never_waits y \<or>
       run_frame (Begin y) (mu s') (shared s') = Blocks))"
proof -
  have "waits_for_itself x fs i s" using assms(2,3) by (simp add: waits_for_itself_def)
  from waits_for_itself_steps [OF assms(6) go_reach_inv [OF assms(1)] this assms(4,5)]
  have inv: "locks_agree s'" and stk: "waits_for_itself x fs i s'" by (simp_all add: sys_inv_def)
  have "run_frame (Begin y) (mu s') (shared s') = Blocks"
    if "stacks s' ! i = Waiting x # fs" "\<not> never_waits y" for y
  proof -
    have "0 < total_of announces (stacks s')"
      using that(1) stk total_of_ge [of i "stacks s'" announces] by (simp add: waits_for_itself_def)
    with inv have "rw_writer (mu s')" by (cases "rw_writer (mu s')") (simp_all add: locks_agree_def)
    with that(2) show ?thesis by (cases y) (simp_all add: rw_defs)
  qed
  with stk show ?thesis by (auto simp: waits_for_itself_def)
qed

theorem write_inside_iteration_hangs_witness:
  "\<exists>s s'. go_reach 2 demo_remove s \<and> rtranclp go_step s s' \<and>
     run_frame (Begin GLen) (mu s') (shared s') = Blocks"
proof -
  obtain s s' f where s: "go_reach 2 demo_remove s" "length (stacks s) = 2"
    "stacks s ! 0 = [Begin (GRemove 1), f, RUnlocking]" "rtranclp go_step s s'"
    "stacks s' ! 0 = [Waiting (GRemove 1), f, RUnlocking]"
    using demo_removing by blast
  have "run_frame (Begin GLen) (mu s') (shared s') = Blocks"
    using write_inside_iteration_hangs [OF s(1) _ s(3) _ _ s(4)] s(2,5) never_waits.simps(3)
    by fastforce
  with s(1,4) show ?thesis by blast
qed

text \<open>
  Even a read operation is not safe inside an iteration: with a consumer that calls Len and
  another goroutine that calls Clear there is a run that ends with both waiting for each other.
\<close>

theorem len_inside_iteration_deadlocks:
  "\<exists>s. go_reach 2 demo_len s \<and> (\<forall>s'. \<not> go_step s s') \<and>
     (\<forall>fs\<in>set (stacks s). fs \<noteq> [])"
proof -
  have "\<exists>s. run_schedule [0, 0, 0, 0, 0, 0, 0, 1] (launch 2 demo_len) = Some s \<and>
      rw_writer (mu s) \<and> rw_readers (mu s) = 1 \<and>
      (\<exists>f. stacks s = [[Begin GLen, f, RUnlocking], [Waiting GClear]])"
    by (simp add: cache_eval demo_len_def)
  then obtain s f where s: "go_reach 2 demo_len s" "rw_writer (mu s)" "rw_readers (mu s) = 1"
    "stacks s = [[Begin GLen, f, RUnlocking], [Waiting GClear]]"
    by (blast intro: run_schedule_reach)
  have "\<not> go_step s s'" for s'
  proof
    assume "go_step s s'"
    then show False
    proof cases
      case (go i g gs new m c evs)
      with s(4) have "i = 0 \<or> i = 1" by auto
      with go(3,4) s(2-4) show False by (auto simp: rw_defs)
    qed
  qed
  with s show ?thesis by auto
qed

end
