(* ===== verification/Cache_Linear.thy ===== *)
theory Cache_Linear
  imports Cache_Locks_Props
begin

text \<open>
  Linearizability: the history of any number of goroutines is explained by the entry-list
  specification, call by call, and the part of each goroutine in it is what a run of its program
  answers, calls made by the consumers of iterators included.
\<close>

subsection \<open>The specification explains the history\<close>

text \<open>
  The events of the goroutines in the order of the history, run on the specification: every answer
  has to be the one that the specification gives there, and an iteration that its consumer stopped
  has to have yielded the beginning of what the specification iterates over. Get and GetEntry read
  outside the lock, their answers are not compared. \<open>None\<close> is a mismatch.
\<close>

fun spec_history ::
  "int \<Rightarrow> ('k, 'v, 't::linorder) event list \<Rightarrow> ('k, 'v, 't) ent list \<Rightarrow>
   ('k, 'v, 't) ent list option" where
  "spec_history cap [] xs = Some xs"
| "spec_history cap (Ret x r # es) xs =
     (let (r', xs') = spec_call cap x xs in if r = r' then spec_history cap es xs' else None)"
| "spec_history cap (RetStopped fwd ys # es) xs =
     (if ys \<noteq> [] \<and> take (length ys) (if fwd then pairs xs else rev (pairs xs)) = ys
      then spec_history cap es xs else None)"
| "spec_history cap (RetGet k now rd r # es) xs = spec_history cap es xs"
| "spec_history cap (RetEntry k now rd r # es) xs = spec_history cap es xs"

lemma spec_history_append:
  "spec_history cap es xs = Some ys \<Longrightarrow> spec_history cap (es @ es') xs = spec_history cap es' ys"
  by (induction cap es xs rule: spec_history.induct) (auto simp: Let_def split: prod.splits if_splits)

lemma stopped_prefix:
  assumes "frame_ok c (Advance fwd yield ys a go_on)" and "represents c cap xs"
  shows "take (length ys) (if fwd then pairs xs else rev (pairs xs)) = ys"
proof -
  let ?zs = "if fwd then pairs xs else rev (pairs xs)"
  have "heap c a \<bind> (\<lambda>n. iter_from fwd (if fwd then next_p n else prev_p n) c ys) = Some ?zs"
    using assms(1) iter_result_represents [OF assms(2), of fwd] by simp
  then obtain p where "iter_from fwd p c ys = Some ?zs" by (cases "heap c a") auto
  from iter_from_extends [OF this] show ?thesis by auto
qed

text \<open>The consumer of an iterator that goes on has been given a pair.\<close>

fun given :: "('k, 'v, 't) frame \<Rightarrow> bool" where
  "given (Advance fwd yield ys a go_on) \<longleftrightarrow> ys \<noteq> []"
| "given f \<longleftrightarrow> True"

lemma frame_step_given:
  assumes "run_frame f m c = Moves new m' c' evs" and "g \<in> set new"
  shows "given g"
proof (cases f)
  case (Begin x)
  with assms show ?thesis by (cases x) (auto split: option.splits if_splits prod.splits bool.splits)
next
  case (Body x)
  with assms show ?thesis by (cases x) (auto simp: Let_def split: option.splits)
qed (use assms in \<open>auto simp: Let_def split: option.splits if_splits prod.splits\<close>)

lemma frame_step_spec:
  assumes "run_frame f m c = Moves new m' c' evs" and "frame_ok c f" and "given f"
    and "represents c cap xs"
  shows "\<exists>xs'. spec_history cap evs xs = Some xs' \<and> represents c' cap xs'"
proof (cases f)
  case (Begin x)
  with assms show ?thesis
    by (cases x) (auto simp: Capacity_represents split: option.splits if_splits prod.splits bool.splits)
next
  case (Body x)
  show ?thesis
  proof (cases x)
    case (GSetFromHead k v now e)
    with Body assms SetFromHead_represents [OF assms(4), of k v now e] show ?thesis
      by (auto split: option.splits)
  next
    case (GSetFromTail k v now e)
    with Body assms SetFromTail_represents [OF assms(4), of k v now e] show ?thesis
      by (auto split: option.splits)
  next
    case (GRemove k)
    with Body assms Remove_represents [OF assms(4), of k] show ?thesis
      by (auto split: option.splits)
  next
    case GClear
    with Body assms show ?thesis by (auto intro: Clear_represents)
  qed (use Body assms in \<open>auto simp: cache_refinement Let_def\<close>)
next
  case (Visit fwd yield ys p)
  with assms show ?thesis
    by (auto simp: Let_def iter_result_represents split: option.splits if_splits prod.splits)
next
  case (Advance fwd yield ys a go_on)
  with assms stopped_prefix [of c fwd yield ys a go_on cap xs] show ?thesis
    by (auto simp: Let_def simp del: frame_ok.simps split: option.splits if_splits)
qed (use assms in \<open>auto simp: Let_def split: option.splits if_splits prod.splits\<close>)

definition explained :: "int \<Rightarrow> ('k, 'v, 't::linorder) system \<Rightarrow> bool" where
  "explained cap s \<longleftrightarrow> (\<forall>fs\<in>set (stacks s). \<forall>f\<in>set fs. given f) \<and>
     (\<exists>xs. spec_history cap (map snd (history s)) [] = Some xs \<and> represents (shared s) cap xs)"

lemma go_step_explained:
  assumes "go_step s s'" and "sys_inv cap s" and "explained cap s"
  shows "explained cap s'"
  using assms
proof (induction rule: go_step.induct)
  case (go i s f fs new m c evs)
  from go.prems(2) obtain xs where xs: "spec_history cap (map snd (history s)) [] = Some xs"
    "represents (shared s) cap xs" by (auto simp: explained_def)
  have mem: "f # fs \<in> set (stacks s)" using go.hyps(1,2) by (metis nth_mem)
  with go.prems(2) have given: "given f" "\<forall>g\<in>set fs. given g" by (auto simp: explained_def)
  from frame_step_spec [OF go.hyps(3) sys_inv_frame(1) [OF go.prems(1) go.hyps(1,2)] given(1) xs(2)]
  obtain xs' where "spec_history cap evs xs = Some xs'" "represents c cap xs'" by blast
  with xs(1) have "spec_history cap (map snd (history s @ map (Pair i) evs)) [] = Some xs'"
    by (simp add: spec_history_append comp_def)
  moreover have "\<forall>gs\<in>set ((stacks s)[i := new @ fs]). \<forall>g\<in>set gs. given g"
    using go.prems(2) given(2) frame_step_given [OF go.hyps(3)]
    by (auto simp: explained_def dest!: set_update_subset_insert [THEN subsetD])
  ultimately show ?case using \<open>represents c cap xs'\<close> by (auto simp: explained_def)
qed

lemma go_reach_explained:
  assumes "go_reach cap progs s"
  shows "explained (if cap \<le> 0 then MaxInt else cap) s"
  using assms
proof (induction rule: go_reach.induct)
  case started
  then show ?case using New_represents [of cap] by (auto simp: explained_def launch_def)
next
  case (stepped s s')
  then show ?case by (blast intro: go_step_explained go_reach_inv)
qed

subsection \<open>The runs of a program\<close>

fun call_shape :: "('k, 'v, 't) gcall \<Rightarrow> ('k, 'v, 't) call" where
  "call_shape GLen = CallLen"
| "call_shape GCapacity = CallCapacity"
| "call_shape (GContains k) = CallContains k"
| "call_shape (GTryContains k) = CallTryContains True k"
| "call_shape (GGet k now rd) = CallGet k now"
| "call_shape (GGetEntry k now rd) = CallGetEntry k now"
| "call_shape (GSetFromHead k v now e) = CallSetFromHead k v now e"
| "call_shape (GSetFromTail k v now e) = CallSetFromTail k v now e"
| "call_shape (GRemove k) = CallRemove k"
| "call_shape GClear = CallClear"
| "call_shape (GIterate fwd yield) = (if fwd then CallAll else CallBackward)"

fun event_shape :: "('k, 'v, 't) event \<Rightarrow> ('k, 'v, 't) call" where
  "event_shape (Ret x r) = (case x of CallTryContains b k \<Rightarrow> CallTryContains True k | _ \<Rightarrow> x)"
| "event_shape (RetGet k now rd r) = CallGet k now"
| "event_shape (RetEntry k now rd r) = CallGetEntry k now"
| "event_shape (RetStopped fwd ys) = (if fwd then CallAll else CallBackward)"

text \<open>
  What a goroutine can answer: a call makes one event, the calls of a program one after the other.
  An iteration first has the events of the calls that its consumer makes on the pairs it is given,
  pair by pair, then its own: that it is through, or that the consumer stopped it.
\<close>

inductive call_events :: "('k, 'v, 't) gcall \<Rightarrow> ('k, 'v, 't) event list \<Rightarrow> bool"
  and calls_events :: "('k, 'v, 't) gcall list \<Rightarrow> ('k, 'v, 't) event list \<Rightarrow> bool"
  and visit_events :: "bool \<Rightarrow> (('k \<times> 'v) list \<Rightarrow> ('k, 'v, 't) gcall list \<times> bool) \<Rightarrow>
    ('k \<times> 'v) list \<Rightarrow> ('k, 'v, 't) event list \<Rightarrow> bool" where
  plain: "\<forall>fwd yield. x \<noteq> GIterate fwd yield \<Longrightarrow> event_shape e = call_shape x \<Longrightarrow> call_events x [e]"
| iterate: "visit_events fwd yield [] es \<Longrightarrow> call_events (GIterate fwd yield) es"
| no_calls: "calls_events [] []"
| more_calls: "call_events x es \<Longrightarrow> calls_events xs es' \<Longrightarrow> calls_events (x # xs) (es @ es')"
| through: "visit_events fwd yield ys [Ret (if fwd then CallAll else CallBackward) (ASeq ys)]"
| continue: "yield (ys @ [kv]) = (calls, True) \<Longrightarrow> calls_events calls es \<Longrightarrow>
    visit_events fwd yield (ys @ [kv]) es' \<Longrightarrow> visit_events fwd yield ys (es @ es')"
| stop: "yield (ys @ [kv]) = (calls, False) \<Longrightarrow> calls_events calls es \<Longrightarrow>
    visit_events fwd yield ys (es @ [RetStopped fwd (ys @ [kv])])"

text \<open>What the frames of a goroutine have still to answer.\<close>

fun frame_events :: "('k, 'v, 't) frame \<Rightarrow> ('k, 'v, 't) event list \<Rightarrow> bool" where
  "frame_events (Begin x) es \<longleftrightarrow> call_events x es"
| "frame_events (Waiting x) es \<longleftrightarrow> call_events x es"
| "frame_events (Body x) es \<longleftrightarrow> call_events x es"
| "frame_events Unlocking es \<longleftrightarrow> es = []"
| "frame_events RUnlocking es \<longleftrightarrow> es = []"
| "frame_events (Check ent k now rd p seen) es \<longleftrightarrow>
     (\<exists>e. es = [e] \<and> event_shape e = (if ent then CallGetEntry k now else CallGet k now))"
| "frame_events (ReadValue k now rd a seen) es \<longleftrightarrow> (\<exists>e. es = [e] \<and> event_shape e = CallGet k now)"
| "frame_events (Visit fwd yield ys p) es \<longleftrightarrow> visit_events fwd yield ys es"
| "frame_events (Advance fwd yield ys a go_on) es \<longleftrightarrow>
     (if go_on then visit_events fwd yield ys es else es = [RetStopped fwd ys])"

fun stack_events :: "('k, 'v, 't) frame list \<Rightarrow> ('k, 'v, 't) event list \<Rightarrow> bool" where
  "stack_events [] es \<longleftrightarrow> es = []"
| "stack_events (f # fs) es \<longleftrightarrow> (\<exists>es1 es2. es = es1 @ es2 \<and> frame_events f es1 \<and> stack_events fs es2)"

lemma stack_events_append:
  "stack_events (fs @ gs) es \<longleftrightarrow> (\<exists>es1 es2. es = es1 @ es2 \<and> stack_events fs es1 \<and> stack_events gs es2)"
proof (induction fs arbitrary: es)
  case (Cons f fs)
  then show ?case by simp (metis append.assoc)
qed simp

inductive_cases calls_eventsE: "calls_events [] es" "calls_events (x # xs) es"

lemma stack_events_Begins: "stack_events (map Begin xs) es \<longleftrightarrow> calls_events xs es"
proof (induction xs arbitrary: es)
  case Nil
  then show ?case by (auto intro: no_calls elim: calls_eventsE)
next
  case (Cons x xs)
  then show ?case by (auto intro: more_calls elim!: calls_eventsE)
qed

lemma call_events_ex: "\<exists>es. call_events x es"
proof (cases x)
  case (GIterate fwd yield)
  then show ?thesis by (blast intro: iterate through)
qed (rule exI, rule plain [where e = "Ret (call_shape x) r" for r]; simp)+

lemma stack_events_ex: "\<exists>es. stack_events fs es"
proof (induction fs)
  case (Cons f fs)
  have "\<exists>es. frame_events f es"
  proof (cases f)
    case (Check ent k now rd p seen)
    then show ?thesis
      by (auto intro!: exI [of _ "if ent then RetEntry k now rd None else RetGet k now rd None"])
  next
    case (ReadValue k now rd a seen)
    then show ?thesis by (auto intro!: exI [of _ "RetGet k now rd None"])
  qed (auto intro: call_events_ex through)
  with Cons show ?case by auto
qed simp

inductive_cases call_eventsE: "call_events (GIterate fwd yield) es"

lemma call_events_iterate [simp]:
  "call_events (GIterate fwd yield) es \<longleftrightarrow> visit_events fwd yield [] es"
  by (auto intro: iterate elim: call_eventsE)

lemma frame_step_events:
  assumes "run_frame f m c = Moves new m' c' evs" and "stack_events new es"
  shows "frame_events f (evs @ es)"
proof (cases f)
  case (Begin x)
  with assms show ?thesis
    by (cases x) (auto intro!: plain split: option.splits if_splits prod.splits bool.splits)
next
  case (Waiting x)
  with assms show ?thesis by (auto split: option.splits)
next
  case (Body x)
  with assms show ?thesis
    by (cases x) (auto intro!: plain simp: Let_def split: option.splits)
next
  case (Check ent k now rd p seen)
  with assms show ?thesis by (auto simp: Let_def split: option.splits if_splits)
next
  case (ReadValue k now rd a seen)
  with assms show ?thesis by (auto simp: Let_def split: option.splits if_splits)
next
  case (Visit fwd yield ys p)
  show ?thesis
  proof (cases p)
    case None
    with Visit assms show ?thesis by (auto intro: through)
  next
    case (Some a)
    with Visit assms(1) obtain n calls go_on where n: "heap c a = Some n"
      "yield (ys @ [(Key (entry n), Value (entry n))]) = (calls, go_on)" "evs = []"
      "new = map Begin calls @ [Advance fwd yield (ys @ [(Key (entry n), Value (entry n))]) a go_on]"
      by (auto simp: Let_def split: option.splits prod.splits)
    with assms(2) obtain es1 es2 where "es = es1 @ es2" "calls_events calls es1"
      "frame_events (Advance fwd yield (ys @ [(Key (entry n), Value (entry n))]) a go_on) es2"
      by (auto simp: stack_events_append stack_events_Begins)
    with n Visit show ?thesis by (cases go_on) (auto intro: continue stop)
  qed
next
  case (Advance fwd yield ys a go_on)
  with assms show ?thesis by (auto split: option.splits if_splits)
qed (use assms in \<open>auto split: option.splits\<close>)

definition answers_of :: "nat \<Rightarrow> (nat \<times> ('k, 'v, 't) event) list \<Rightarrow> ('k, 'v, 't) event list" where
  "answers_of i es = map snd (filter (\<lambda>e. fst e = i) es)"

lemma answers_of_append [simp]:
  "answers_of i (es @ es') = answers_of i es @ answers_of i es'"
  "answers_of i (map (Pair j) evs) = (if i = j then evs else [])"
  by (simp_all add: answers_of_def comp_def filter_map)

definition in_order :: "('k, 'v, 't) gcall list list \<Rightarrow> ('k, 'v, 't) system \<Rightarrow> bool" where
  "in_order progs s \<longleftrightarrow> length (stacks s) = length progs \<and>
     (\<forall>i<length progs. \<forall>es. stack_events (stacks s ! i) es \<longrightarrow>
        calls_events (progs ! i) (answers_of i (history s) @ es))"

lemma go_step_in_order:
  assumes "go_step s s'" and "in_order progs s"
  shows "in_order progs s'"
  using assms
proof (induction rule: go_step.induct)
  case (go i s f fs new m c evs)
  have "stack_events (f # fs) (evs @ es)" if "stack_events (new @ fs) es" for es
  proof -
    from that obtain es1 es2 where "es = es1 @ es2" "stack_events new es1" "stack_events fs es2"
      by (auto simp: stack_events_append)
    with frame_step_events [OF go.hyps(3)] show ?thesis by (metis append.assoc stack_events.simps(2))
  qed
  with go show ?case by (fastforce simp: in_order_def nth_list_update)
qed

lemma go_reach_in_order: "go_reach cap progs s \<Longrightarrow> in_order progs s"
proof (induction rule: go_reach.induct)
  case started
  show ?case by (auto simp: in_order_def launch_def answers_of_def stack_events_Begins)
next
  case (stepped s s')
  then show ?case by (blast intro: go_step_in_order)
qed

subsection \<open>Property\<close>

text \<open>
  C2. The methods are linearizable, Get and GetEntry excepted: made one after the other in the order
  of their locked sections, the calls of any number of goroutines get from the entry-list
  specification the answers they got, an iteration that its consumer stopped has yielded the
  beginning of what the specification iterates over at that point, and the cache holds what the
  specification then holds. The events of each goroutine are the beginning of those of a run of
  its program, in the order of the program; the calls a consumer makes come inside its iteration,
  pair by pair. A goroutine that has finished has made all the events of such a run.
\<close>

theorem linearizable:
  assumes "go_reach cap progs s"
  shows "(\<exists>xs. spec_history (if cap \<le> 0 then MaxInt else cap) (map snd (history s)) [] = Some xs \<and>
      represents (shared s) (if cap \<le> 0 then MaxInt else cap) xs) \<and>
    (\<forall>i<length progs.
      (\<exists>rest. calls_events (progs ! i) (answers_of i (history s) @ rest)) \<and>
      (stacks s ! i = [] \<longrightarrow> calls_events (progs ! i) (answers_of i (history s))))"
proof (intro conjI allI impI)
  show "\<exists>xs. spec_history (if cap \<le> 0 then MaxInt else cap) (map snd (history s)) [] = Some xs \<and>
      represents (shared s) (if cap \<le> 0 then MaxInt else cap) xs"
    using go_reach_explained [OF assms] unfolding explained_def by blast
next
  fix i assume i: "i < length progs"
  have order: "stack_events (stacks s ! i) es \<Longrightarrow> calls_events (progs ! i) (answers_of i (history s) @ es)" for es
    using go_reach_in_order [OF assms] i by (simp add: in_order_def)
  from stack_events_ex order show "\<exists>rest. calls_events (progs ! i) (answers_of i (history s) @ rest)"
    by blast
  show "calls_events (progs ! i) (answers_of i (history s))" if "stacks s ! i = []"
    using order [of "[]"] that by simp
qed

text \<open>The first goroutine iterates, its consumer asks TryContains and stops; the second clears.\<close>

definition demo_stop :: "(int, int, int) gcall list list" where
  "demo_stop = [[GSetFromHead 1 10 0 5, GIterate True (\<lambda>ys. ([GTryContains 1], False))], [GClear]]"

lemma demo_stopped:
  "\<exists>s. go_reach 2 demo_stop s \<and> stacks s = [[], []] \<and>
     history s = [(0, Ret (CallSetFromHead 1 10 0 5) Done), (0, Ret (CallTryContains True 1) (ABool True)),
       (0, RetStopped True [(1, 10)]), (1, Ret CallClear Done)]"
proof -
  have "\<exists>s. run_schedule [0, 0, 0, 0, 0, 0, 0, 0, 0, 0, 0, 0, 1, 1, 1, 1] (launch 2 demo_stop) = Some s \<and>
     stacks s = [[], []] \<and>
     history s = [(0, Ret (CallSetFromHead 1 10 0 5) Done), (0, Ret (CallTryContains True 1) (ABool True)),
       (0, RetStopped True [(1, 10)]), (1, Ret CallClear Done)]"
    by (simp add: cache_eval demo_stop_def TryContains_def Contains_def)
  then show ?thesis by (blast intro: run_schedule_reach)
qed

theorem linearizable_witness:
  "calls_events (demo_stop ! 0) [Ret (CallSetFromHead 1 10 0 5) Done,
     Ret (CallTryContains True 1) (ABool True), RetStopped True [(1, 10)]]"
proof -
  obtain s where s: "go_reach 2 demo_stop s" "stacks s = [[], []]"
    "history s = [(0, Ret (CallSetFromHead 1 10 0 5) Done), (0, Ret (CallTryContains True 1) (ABool True)),
       (0, RetStopped True [(1, 10)]), (1, Ret CallClear Done)]"
    using demo_stopped by blast
  have "0 < length demo_stop" by (simp add: demo_stop_def)
  with linearizable [OF s(1)] s(2) have "calls_events (demo_stop ! 0) (answers_of 0 (history s))" by auto
  then show ?thesis by (simp add: s(3) answers_of_def)
qed

end
