(* ===== verification/Cache_Stored.thy ===== *)
theory Cache_Stored
  imports Cache_Locks_Props
begin

text \<open>
  What the racy reads of Get and GetEntry can answer. Every value in a node was stored for the
  node's key by some set call, and so was every expiration; but the reads are not under the lock,
  so the words of one answer may come from different calls.
\<close>

subsection \<open>What nodes hold was stored\<close>

definition drawn ::
  "('k \<times> 'v) set \<Rightarrow> ('k \<times> 't) set \<Rightarrow> ('k, 'v, 't) ExpirationCache \<Rightarrow> bool" where
  "drawn V E c \<longleftrightarrow> (\<forall>a n. heap c a = Some n \<longrightarrow>
     (Key (entry n), Value (entry n)) \<in> V \<and> (Key (entry n), expiresAt n) \<in> E)"

lemma drawnD:
  "drawn V E c \<Longrightarrow> heap c a = Some n \<Longrightarrow>
   (Key (entry n), Value (entry n)) \<in> V \<and> (Key (entry n), expiresAt n) \<in> E"
  by (simp add: drawn_def)

lemma drawn_mono: "drawn V E c \<Longrightarrow> V \<subseteq> V' \<Longrightarrow> E \<subseteq> E' \<Longrightarrow> drawn V' E' c"
  by (fastforce simp: drawn_def)

lemma drawn_modify:
  assumes "modify a f c = Some c'" and "drawn V E c"
    and "\<And>n. heap c a = Some n \<Longrightarrow>
      (Key (entry (f n)), Value (entry (f n))) \<in> V \<and> (Key (entry (f n)), expiresAt (f n)) \<in> E"
  shows "drawn V E c'"
  using assms by (auto simp: modify_def drawn_def split: option.splits if_splits)

lemma drawn_links:
  assumes "modify a f c = Some c'" and "\<And>n. entry (f n) = entry n \<and> expiresAt (f n) = expiresAt n"
    and "drawn V E c"
  shows "drawn V E c'"
  using assms(3) by (auto intro!: drawn_modify [OF assms(1,3)] simp: assms(2) dest: drawnD)

interpretation drawn: link_relation "\<lambda>c c'. drawn V E c \<longrightarrow> drawn V E c'"
proof unfold_locales
  fix a p and c c' :: "('a, 'b, 'c) ExpirationCache"
  show "drawn V E c \<longrightarrow> drawn V E c'" if "modify a (\<lambda>n. n\<lparr>prev_p := p\<rparr>) c = Some c'"
    using drawn_links [OF that] by simp
  show "drawn V E c \<longrightarrow> drawn V E c'" if "modify a (\<lambda>n. n\<lparr>next_p := p\<rparr>) c = Some c'"
    using drawn_links [OF that] by simp
qed (blast | simp add: drawn_def)+

text \<open>The node found for a key has that key, after pruning too.\<close>

lemma pruned_node_key:
  assumes "represents c cap xs" and "pruneExpired now c = Some c1"
    and "gm_get (nodeByKey c1) k = Some a" and "detach a c1 = Some c2" and "heap c2 a = Some n"
  shows "Key (entry n) = k"
proof -
  from assms(1) obtain as where "linked c as xs" "indexed c (set as)" by (auto simp: represents_def)
  from pruneExpired_linked [OF this, of now] assms(2) obtain as' where
    i: "indexed c1 (set as')" "linked c1 as' (spec_prune now xs)" by auto
  from i(1) assms(3) obtain v e where a: "a \<in> set as'" "node_data (heap c1) a = Some (k, v, e)"
    by (auto simp: indexed_def)
  from a(1) obtain bs cs where "as' = bs @ a # cs" by (auto dest: split_list)
  with i(2) detach_dll [of c1 bs a cs] assms(4) have "frame c1 c2" by (auto simp: linked_def)
  with a(2) have "node_data (heap c2) a = Some (k, v, e)" by (simp add: frame_def)
  with assms(5) show ?thesis by (simp add: node_data_def)
qed

lemma getOrCreateNode_drawn:
  assumes "getOrCreateNode k v now e c = Some (a, c')" and "represents c cap xs"
    and "(k, v) \<in> V" and "(k, e) \<in> E" and "drawn V E c"
  shows "drawn V E c'"
proof -
  have "drawn V E c \<longrightarrow> drawn V E c'"
  proof (rule drawn.getOrCreateNode_R [OF assms(1)])
    show "drawn V E c \<longrightarrow> drawn V E (c\<lparr>heap := (heap c)(fresh c \<mapsto> n), fresh := Suc (fresh c)\<rparr>)"
      if "n = \<lparr>prev_p = None, next_p = None, expiresAt = e, entry = \<lparr>Key = k, Value = v\<rparr>\<rparr>" for c n
      using that assms(3,4) by (auto simp: drawn_def)
    show "drawn V E c2 \<longrightarrow> drawn V E c4"
      if s: "pruneExpired now c = Some c1" "gm_get (nodeByKey c1) k = Some a" "detach a c1 = Some c2"
        "modify a (\<lambda>n. n\<lparr>expiresAt := e\<rparr>) c2 = Some c3"
        "modify a (\<lambda>n. n\<lparr>entry := (entry n)\<lparr>Value := v\<rparr>\<rparr>) c3 = Some c4" for c1 a c2 c3 c4
    proof
      assume d: "drawn V E c2"
      note key = pruned_node_key [OF assms(2) s(1-3)]
      have d3: "drawn V E c3"
        by (rule drawn_modify [OF s(4) d]) (use key assms(4) drawnD [OF d] in auto)
      have "Key (entry n) = k" if "heap c3 a = Some n" for n
        using s(4) that key by (auto simp: modify_def split: option.splits)
      then show "drawn V E c4"
        by (intro drawn_modify [OF s(5) d3]) (use assms(3) drawnD [OF d3] in auto)
    qed
  qed
  with assms(5) show ?thesis by simp
qed

lemma SetFromHead_drawn:
  assumes "SetFromHead k v now e c = Some c'" and "represents c cap xs"
    and "(k, v) \<in> V" and "(k, e) \<in> E" and "drawn V E c"
  shows "drawn V E c'"
proof -
  from assms(1) obtain a c1 where "getOrCreateNode k v now e c = Some (a, c1)"
    "placeFromHead e a c1 = Some c'" by (auto simp: SetFromHead_def bind_eq_Some_conv)
  with getOrCreateNode_drawn [OF _ assms(2-5)] drawn.placeFromHead_R show ?thesis by blast
qed

lemma SetFromTail_drawn:
  assumes "SetFromTail k v now e c = Some c'" and "represents c cap xs"
    and "(k, v) \<in> V" and "(k, e) \<in> E" and "drawn V E c"
  shows "drawn V E c'"
proof -
  from assms(1) obtain a c1 where "getOrCreateNode k v now e c = Some (a, c1)"
    "placeFromTail e a c1 = Some c'" by (auto simp: SetFromTail_def bind_eq_Some_conv)
  with getOrCreateNode_drawn [OF _ assms(2-5)] drawn.placeFromTail_R show ?thesis by blast
qed

subsection \<open>In every reachable state\<close>

text \<open>What the set calls so far have stored.\<close>

fun stored_by :: "('k, 'v, 't) event \<Rightarrow> ('k \<times> 'v \<times> 't) set" where
  "stored_by (Ret (CallSetFromHead k v now e) r) = {(k, v, e)}"
| "stored_by (Ret (CallSetFromTail k v now e) r) = {(k, v, e)}"
| "stored_by _ = {}"

definition stored :: "(nat \<times> ('k, 'v, 't) event) list \<Rightarrow> ('k \<times> 'v \<times> 't) set" where
  "stored h = (\<Union>(i, e)\<in>set h. stored_by e)"

definition stored_values :: "(nat \<times> ('k, 'v, 't) event) list \<Rightarrow> ('k \<times> 'v) set" where
  "stored_values h = (\<lambda>(k, v, e). (k, v)) ` stored h"

definition stored_expirations :: "(nat \<times> ('k, 'v, 't) event) list \<Rightarrow> ('k \<times> 't) set" where
  "stored_expirations h = (\<lambda>(k, v, e). (k, e)) ` stored h"

lemma stored_append [simp]:
  "stored (h @ h') = stored h \<union> stored h'"
  "stored_values (h @ h') = stored_values h \<union> stored_values h'"
  "stored_expirations (h @ h') = stored_expirations h \<union> stored_expirations h'"
proof -
  show u: "stored (h @ h') = stored h \<union> stored h'" by (simp add: stored_def)
  show "stored_values (h @ h') = stored_values h \<union> stored_values h'"
    "stored_expirations (h @ h') = stored_expirations h \<union> stored_expirations h'"
    by (simp_all add: stored_values_def stored_expirations_def u image_Un)
qed

text \<open>Everything that a reader of a key has seen was stored for the key.\<close>

definition seen_drawn ::
  "('k \<times> 'v) set \<Rightarrow> ('k \<times> 't) set \<Rightarrow> 'k \<Rightarrow> ('t \<times> 'v) list \<Rightarrow> bool" where
  "seen_drawn V E k seen \<longleftrightarrow> (\<forall>(e, v)\<in>set seen. (k, e) \<in> E \<and> (k, v) \<in> V)"

definition future_seen :: "('k \<times> 't::linorder) set \<Rightarrow> 'k \<Rightarrow> 't \<Rightarrow> ('v, 't) racy_read \<Rightarrow> bool" where
  "future_seen E k now rd \<longleftrightarrow>
     (\<exists>es. es \<noteq> [] \<and> (\<forall>e\<in>set es. (k, e) \<in> E) \<and> now < read_expiry rd es)"

fun frame_drawn :: "('k \<times> 'v) set \<Rightarrow> ('k \<times> 't::linorder) set \<Rightarrow> ('k, 'v, 't) frame \<Rightarrow> bool" where
  "frame_drawn V E (Check ent k now rd p seen) \<longleftrightarrow> seen_drawn V E k seen"
| "frame_drawn V E (ReadValue k now rd a seen) \<longleftrightarrow> seen_drawn V E k seen \<and> future_seen E k now rd"
| "frame_drawn V E _ \<longleftrightarrow> True"

fun event_drawn :: "('k \<times> 'v) set \<Rightarrow> ('k \<times> 't::linorder) set \<Rightarrow> ('k, 'v, 't) event \<Rightarrow> bool" where
  "event_drawn V E (RetGet k now rd (Some v)) \<longleftrightarrow> future_seen E k now rd \<and>
     (\<exists>vs. vs \<noteq> [] \<and> (\<forall>v\<in>set vs. (k, v) \<in> V) \<and> v = read_value rd vs)"
| "event_drawn V E (RetEntry k now rd (Some a)) \<longleftrightarrow> future_seen E k now rd"
| "event_drawn V E _ \<longleftrightarrow> True"

definition sys_drawn :: "('k, 'v, 't::linorder) system \<Rightarrow> bool" where
  "sys_drawn s \<longleftrightarrow> drawn (stored_values (history s)) (stored_expirations (history s)) (shared s) \<and>
     (\<forall>fs\<in>set (stacks s). \<forall>f\<in>set fs. frame_drawn (stored_values (history s)) (stored_expirations (history s)) f) \<and>
     (\<forall>(i, e)\<in>set (history s).
        event_drawn (stored_values (history s)) (stored_expirations (history s)) e)"

lemma seen_drawn_mono: "seen_drawn V E k seen \<Longrightarrow> V \<subseteq> V' \<Longrightarrow> E \<subseteq> E' \<Longrightarrow> seen_drawn V' E' k seen"
  by (auto simp: seen_drawn_def)

lemma future_seen_mono: "future_seen E k now rd \<Longrightarrow> E \<subseteq> E' \<Longrightarrow> future_seen E' k now rd"
  unfolding future_seen_def by blast

lemma frame_drawn_mono: "frame_drawn V E f \<Longrightarrow> V \<subseteq> V' \<Longrightarrow> E \<subseteq> E' \<Longrightarrow> frame_drawn V' E' f"
  by (cases f) (auto intro: seen_drawn_mono future_seen_mono)

lemma event_drawn_mono: "event_drawn V E e \<Longrightarrow> V \<subseteq> V' \<Longrightarrow> E \<subseteq> E' \<Longrightarrow> event_drawn V' E' e"
  by (induction V E e rule: event_drawn.induct) (auto intro: future_seen_mono)

text \<open>A look sees what was stored.\<close>

lemma look_drawn:
  assumes "drawn V E c" and "seen_drawn V E k seen" and "case p of None \<Rightarrow> True | Some a \<Rightarrow> points_to c a k"
  shows "seen_drawn V E k (seen @ look c p)"
  using assms by (auto simp: seen_drawn_def look_def points_to_def split: option.splits dest: drawnD)

lemma look_some: "points_to c a k \<Longrightarrow> look c (Some a) \<noteq> []"
  by (auto simp: look_def points_to_def)

lemma seen_future:
  assumes "seen_drawn V E k seen" and "seen \<noteq> []" and "now < read_expiry rd (map fst seen)"
  shows "future_seen E k now rd"
  unfolding future_seen_def by (rule exI [of _ "map fst seen"]) (use assms in \<open>auto simp: seen_drawn_def\<close>)

lemma stored_single [simp]:
  "stored [(i, Ret (CallSetFromHead k v now e) r)] = {(k, v, e)}"
  "stored [(i, Ret (CallSetFromTail k v now e) r)] = {(k, v, e)}"
  by (simp_all add: stored_def)

lemma frame_step_drawn:
  assumes "run_frame f m c = Moves new m' c' evs" and "represents c cap xs" and "frame_ok c f"
    and "drawn V E c" and "frame_drawn V E f"
    and V: "V' = V \<union> stored_values (map (Pair i) evs)"
    and E: "E' = E \<union> stored_expirations (map (Pair i) evs)"
  shows "drawn V' E' c' \<and> (\<forall>g\<in>set new. frame_drawn V' E' g) \<and> (\<forall>e\<in>set evs. event_drawn V' E' e)"
proof -
  have d: "drawn V' E' c" using assms(4) by (rule drawn_mono) (simp_all add: V E)
  have fd: "frame_drawn V' E' f" using assms(5) by (rule frame_drawn_mono) (simp_all add: V E)
  show ?thesis
  proof (cases f)
    case (Begin x)
    with assms d show ?thesis by (cases x) (auto split: option.splits if_splits prod.splits bool.splits)
  next
    case (Body x)
    have "case gm_get (nodeByKey c) k of None \<Rightarrow> True | Some a \<Rightarrow> points_to c a k" for k
      using represents_points_to [OF assms(2)] by (simp split: option.split)
    then have found: "seen_drawn V' E' k (look c (gm_get (nodeByKey c) k))" for k
      using look_drawn [OF d, of k "[]" "gm_get (nodeByKey c) k"] by (simp add: seen_drawn_def [of _ _ _ "[]"])
    show ?thesis
    proof (cases x)
      case (GSetFromHead k v now e)
      with Body assms(1) have s: "SetFromHead k v now e c = Some c'" "new = [Unlocking]"
        "evs = [Ret (CallSetFromHead k v now e) Done]" by (auto split: option.splits)
      with V E have "(k, v) \<in> V'" "(k, e) \<in> E'"
        by (auto simp: stored_values_def stored_expirations_def)
      with SetFromHead_drawn [OF s(1) assms(2) _ _ d] s show ?thesis by simp
    next
      case (GSetFromTail k v now e)
      with Body assms(1) have s: "SetFromTail k v now e c = Some c'" "new = [Unlocking]"
        "evs = [Ret (CallSetFromTail k v now e) Done]" by (auto split: option.splits)
      with V E have "(k, v) \<in> V'" "(k, e) \<in> E'"
        by (auto simp: stored_values_def stored_expirations_def)
      with SetFromTail_drawn [OF s(1) assms(2) _ _ d] s show ?thesis by simp
    next
      case (GRemove k)
      with Body assms(1) obtain b where "Remove k c = Some (b, c')" "new = [Unlocking]"
        "evs = [Ret (CallRemove k) (ABool b)]" by (auto split: option.splits)
      with drawn.Remove_R d show ?thesis by fastforce
    next
      case GClear
      with Body assms d drawn.Clear_R show ?thesis by auto
    next
      case (GGet k now rd)
      with Body assms(1) d found show ?thesis by (auto simp: Let_def)
    next
      case (GGetEntry k now rd)
      with Body assms(1) d found show ?thesis by (auto simp: Let_def)
    qed (use Body assms d in auto)
  next
    case (Check ent k now rd p seen)
    note new = look_drawn [OF d fd [unfolded Check frame_drawn.simps] assms(3) [unfolded Check frame_ok.simps]]
    show ?thesis
    proof (cases p)
      case None
      with Check assms(1) d show ?thesis by (cases ent) auto
    next
      case (Some a)
      then have "points_to c a k" using Check assms(3) by simp
      then have ne: "seen @ look c (Some a) \<noteq> []" using look_some [OF \<open>points_to c a k\<close>] by simp
      obtain n where n: "heap c a = Some n" using \<open>points_to c a k\<close> by (auto simp: points_to_def)
      from Some Check n assms(1) d new seen_future [OF new [unfolded Some] ne] show ?thesis
        by (auto simp: Let_def split: if_splits)
    qed
  next
    case (ReadValue k now rd a seen)
    from ReadValue assms(3) have a: "points_to c a k" by simp
    then have ne: "map snd (seen @ look c (Some a)) \<noteq> []" using look_some [OF a] by simp
    have sd: "seen_drawn V' E' k (seen @ look c (Some a))"
      using fd a ReadValue by (intro look_drawn [OF d]) auto
    obtain n where n: "heap c a = Some n" using a by (auto simp: points_to_def)
    have "\<forall>v\<in>set (map snd (seen @ look c (Some a))). (k, v) \<in> V'"
      using sd by (auto simp: seen_drawn_def)
    with ne have "\<exists>vs. vs \<noteq> [] \<and> (\<forall>v\<in>set vs. (k, v) \<in> V') \<and>
        read_value rd (map snd (seen @ look c (Some a))) = read_value rd vs" by blast
    with ReadValue n assms(1) d fd sd show ?thesis
      by (auto simp: Let_def split: if_splits simp del: map_append)
  next
    case (Visit fwd yield ys p)
    with assms(1) d show ?thesis by (auto simp: Let_def case_prod_beta split: option.splits)
  next
    case (Advance fwd yield ys a go_on)
    with assms(1) d show ?thesis by (auto split: option.splits if_splits)
  qed (use assms d in \<open>auto split: option.splits if_splits\<close>)
qed

lemma go_step_drawn:
  assumes "go_step s s'" and "sys_inv cap s" and "sys_drawn s"
  shows "sys_drawn s'"
  using assms
proof (induction rule: go_step.induct)
  case (go i s f fs new m c evs)
  let ?V = "stored_values (history s)" and ?E = "stored_expirations (history s)"
  let ?V' = "?V \<union> stored_values (map (Pair i) evs)"
  let ?E' = "?E \<union> stored_expirations (map (Pair i) evs)"
  from go.prems(1) obtain xs where xs: "represents (shared s) cap xs" by (auto simp: sys_inv_def)
  have mem: "f # fs \<in> set (stacks s)" using go.hyps(1,2) by (metis nth_mem)
  with go.prems(2) have old: "drawn ?V ?E (shared s)" "frame_drawn ?V ?E f" "\<forall>g\<in>set fs. frame_drawn ?V ?E g"
    by (auto simp: sys_drawn_def)
  note stp = frame_step_drawn [OF go.hyps(3) xs sys_inv_frame(1) [OF go.prems(1) go.hyps(1,2)] old(1,2) refl refl, of i]
  have "\<forall>g\<in>set gs. frame_drawn ?V' ?E' g" if "gs \<in> set ((stacks s)[i := new @ fs])" for gs
  proof -
    from that have "gs \<in> set (stacks s) \<or> gs = new @ fs"
      by (metis insert_iff set_update_subset_insert subsetD)
    with go.prems(2) old(3) stp show ?thesis
      by (auto simp: sys_drawn_def intro: frame_drawn_mono)
  qed
  moreover have "\<forall>(j, e)\<in>set (history s @ map (Pair i) evs). event_drawn ?V' ?E' e"
    using go.prems(2) stp by (fastforce simp: sys_drawn_def intro: event_drawn_mono)
  ultimately show ?case using stp by (simp add: sys_drawn_def)
qed

lemma go_reach_drawn: "go_reach cap progs s \<Longrightarrow> sys_drawn s"
proof (induction rule: go_reach.induct)
  case started
  show ?case
    by (auto simp: sys_drawn_def launch_def drawn_def NewExpirationCache_def)
next
  case (stepped s s')
  then show ?case by (blast intro: go_step_drawn go_reach_inv)
qed

subsection \<open>Property\<close>

text \<open>
  A read that takes every word from one of the values it has seen; \<open>w j\<close> is the word number \<open>j\<close>.
  If the type fits in one machine word, \<open>w j x = x\<close>: the read gives one of the values seen.
\<close>

definition word_wise :: "('a list \<Rightarrow> 'a) \<Rightarrow> (nat \<Rightarrow> 'a \<Rightarrow> 'w) \<Rightarrow> bool" where
  "word_wise f w \<longleftrightarrow> (\<forall>xs. xs \<noteq> [] \<longrightarrow> (\<forall>j. \<exists>x\<in>set xs. w j (f xs) = w j x))"

text \<open>
  C15. Whatever runs beside it, and although its reads race with the writers: every word of the
  value that a Get answers is the word of a value that a set call stored for that very key, and it
  saw an expiration after its time every word of which is the word of an expiration that a set
  call gave to that key; so a key never set is never found. The same holds of the expiration that
  GetEntry saw when it returned a pointer. The words of one answer may be from different calls:
  only what fits in one machine word is always a value that was stored.
\<close>

theorem get_answers_stored:
  assumes "go_reach cap progs s"
    and "word_wise (read_value rd) value_word" and "word_wise (read_expiry rd) expiry_word"
    and "(i, RetGet k now rd (Some v)) \<in> set (history s) \<or>
      (i, RetEntry k now rd (Some a)) \<in> set (history s)"
  shows "((i, RetGet k now rd (Some v)) \<in> set (history s) \<longrightarrow>
      (\<forall>j. \<exists>v' e. (k, v', e) \<in> stored (history s) \<and> value_word j v = value_word j v')) \<and>
    (\<exists>t. now < t \<and>
      (\<forall>j. \<exists>v' e. (k, v', e) \<in> stored (history s) \<and> expiry_word j t = expiry_word j e))"
proof -
  let ?V = "stored_values (history s)" and ?E = "stored_expirations (history s)"
  have events: "\<forall>(j, e)\<in>set (history s). event_drawn ?V ?E e"
    using go_reach_drawn [OF assms(1)] by (simp add: sys_drawn_def)
  have V: "(k, v) \<in> ?V \<Longrightarrow> \<exists>e. (k, v, e) \<in> stored (history s)" for v
    by (auto simp: stored_values_def)
  have E: "(k, e) \<in> ?E \<Longrightarrow> \<exists>v. (k, v, e) \<in> stored (history s)" for e
    by (auto simp: stored_expirations_def)
  have val: "\<exists>v' e. (k, v', e) \<in> stored (history s) \<and> value_word j v = value_word j v'"
    if "(i, RetGet k now rd (Some v)) \<in> set (history s)" for j
  proof -
    from that events obtain vs where "vs \<noteq> []" "\<forall>v\<in>set vs. (k, v) \<in> ?V" "v = read_value rd vs"
      by fastforce
    with assms(2) V show ?thesis unfolding word_wise_def by metis
  qed
  from events assms(4) have "future_seen ?E k now rd" by fastforce
  then obtain es where es: "es \<noteq> []" "\<forall>e\<in>set es. (k, e) \<in> ?E" "now < read_expiry rd es"
    by (auto simp: future_seen_def)
  with assms(3) E have
    "\<forall>j. \<exists>v' e. (k, v', e) \<in> stored (history s) \<and> expiry_word j (read_expiry rd es) = expiry_word j e"
    unfolding word_wise_def by metis
  with es(3) val show ?thesis by blast
qed

text \<open>
  A value of two words. The reader looks the node up, the entry is set again, the reader reads its
  first word from before and its second from after: it answers a value that was never stored.
\<close>

definition halves :: "(int \<times> int, int) racy_read" where
  "halves = \<lparr>expiry_looks = 1, read_expiry = last, value_looks = 1,
     read_value = (\<lambda>vs. (fst (hd vs), snd (last vs)))\<rparr>"

definition half :: "nat \<Rightarrow> int \<times> int \<Rightarrow> int" where
  "half j p = (if j = 0 then fst p else snd p)"

definition demo_torn :: "(int, int \<times> int, int) gcall list list" where
  "demo_torn = [[GSetFromHead 1 (10, 20) 0 5, GSetFromHead 1 (11, 21) 0 5], [GGet 1 2 halves]]"

theorem get_can_tear:
  "\<exists>s. go_reach 2 demo_torn s \<and> (1, RetGet 1 2 halves (Some (10, 21))) \<in> set (history s) \<and>
     stored (history s) = {(1, (10, 20), 5), (1, (11, 21), 5)}"
proof -
  have "\<exists>s. run_schedule [0, 0, 0, 0, 1, 1, 1, 0, 0, 0, 0, 1, 1] (launch 2 demo_torn) = Some s \<and>
      (1, RetGet 1 2 halves (Some (10, 21))) \<in> set (history s) \<and>
      stored (history s) = {(1, (10, 20), 5), (1, (11, 21), 5)}"
    by (simp add: cache_eval demo_torn_def halves_def stored_def insert_commute)
  then show ?thesis by (blast intro: run_schedule_reach)
qed

theorem get_answers_stored_witness:
  "\<exists>s. go_reach 2 demo_torn s \<and> (1, RetGet 1 2 halves (Some (10, 21))) \<in> set (history s) \<and>
     (\<exists>v e. (1, v, e) \<in> stored (history s) \<and> half 1 (10, 21) = half 1 v)"
proof -
  obtain s where s: "go_reach 2 demo_torn s" "(1, RetGet 1 2 halves (Some (10, 21))) \<in> set (history s)"
    using get_can_tear by blast
  have v: "word_wise (read_value halves) half"
    unfolding word_wise_def half_def halves_def
    by (auto intro: bexI [OF refl hd_in_set] bexI [OF refl last_in_set])
  have e: "word_wise (read_expiry halves) (\<lambda>j t. t)"
    unfolding word_wise_def halves_def by auto
  have "\<forall>j. \<exists>v e. (1, v, e) \<in> stored (history s) \<and> half j (10, 21) = half j v"
    by (rule mp [OF conjunct1 [OF get_answers_stored [OF s(1) v e disjI1 [OF s(2)]]] s(2)])
  with s show ?thesis by blast
qed

end
