(* ===== verification/Netip.thy ===== *)
theory Netip
  imports Prelude "HOL-Library.Word"
begin

text \<open>
  What the program uses of the standard package net/netip: addresses, address-port pairs and
  prefixes with their constructors, tests, conversions and text forms. An address is the 128
  bits in two words and the detail z, which tells the zero value, IPv4 and IPv6 with its zone
  apart; an IPv4 address keeps its bits in the IPv4-mapped place.
\<close>

unbundle bit_operations_syntax

type_synonym byte = "8 word"

datatype addr_detail = Z0 | Z4 | Z6 string

record Addr =
  hi :: "64 word"
  lo :: "64 word"
  z :: addr_detail

record AddrPort =
  ap_ip :: Addr
  ap_port :: "16 word"

definition zero_addr :: Addr where
  "zero_addr = \<lparr>hi = 0, lo = 0, z = Z0\<rparr>"

definition zero_addrport :: AddrPort where
  "zero_addrport = \<lparr>ap_ip = zero_addr, ap_port = 0\<rparr>"

subsection \<open>Bytes\<close>

definition be64 :: "64 word \<Rightarrow> byte list" where
  "be64 w = map (\<lambda>i. ucast (drop_bit (56 - 8 * i) w)) [0..<8]"

definition of_be :: "byte list \<Rightarrow> 64 word" where
  "of_be bs = foldl (\<lambda>acc b. push_bit 8 acc OR ucast b) 0 bs"

lemma of_be_snoc: "of_be (bs @ [b]) = push_bit 8 (of_be bs) OR ucast b"
  by (simp add: of_be_def)

lemma bit_of_be:
  "bit (of_be bs) n \<longleftrightarrow> n < 64 \<and> n < 8 * length bs \<and> bit (rev bs ! (n div 8)) (n mod 8)"
proof (induction bs arbitrary: n rule: rev_induct)
  case Nil
  then show ?case by (simp add: of_be_def)
next
  case (snoc b bs)
  show ?case
  proof (cases "n < 8")
    case True
    then show ?thesis by (simp add: of_be_snoc bit_simps)
  next
    case False
    then obtain m where m: "n = m + 8" by (metis le_add_diff_inverse2 not_less)
    have "\<not> bit b n" using False bit_imp_le_length [of b n] by auto
    moreover have "(m + 8) div 8 = Suc (m div 8)" by simp
    ultimately show ?thesis using m by (auto simp: of_be_snoc bit_simps snoc.IH)
  qed
qed

lemma length_be64 [simp]: "length (be64 w) = 8"
  by (simp add: be64_def)

lemma of_be_be64 [simp]: "of_be (be64 w) = w"
proof (rule bit_word_eqI)
  fix n assume n: "n < LENGTH(64)"
  then have d: "n div 8 < 8" by simp
  then have "[0..<8] ! (7 - n div 8) = 7 - n div 8" and "56 - 8 * (7 - n div 8) = 8 * (n div 8)"
    by simp_all
  with d have "rev (be64 w) ! (n div 8) = ucast (drop_bit (8 * (n div 8)) w)"
    by (simp add: be64_def rev_nth)
  moreover have "8 * (n div 8) + n mod 8 = n" by simp
  ultimately show "bit (of_be (be64 w)) n = bit w n"
    using n by (simp add: bit_of_be bit_simps)
qed

lemma drop_bit_of_be: "length bs \<le> 4 \<Longrightarrow> drop_bit 32 (of_be bs) = 0"
  by (rule bit_word_eqI) (auto simp: bit_simps bit_of_be)

subsection \<open>Construction and tests\<close>

definition IPv6Unspecified :: Addr where
  "IPv6Unspecified = \<lparr>hi = 0, lo = 0, z = Z6 []\<rparr>"

definition AddrFrom4 :: "byte list \<Rightarrow> Addr" where
  "AddrFrom4 a = \<lparr>hi = 0, lo = 0xffff00000000 OR of_be (take 4 a), z = Z4\<rparr>"

definition AddrFrom16 :: "byte list \<Rightarrow> Addr" where
  "AddrFrom16 a = \<lparr>hi = of_be (take 8 a), lo = of_be (drop 8 a), z = Z6 []\<rparr>"

definition As16 :: "Addr \<Rightarrow> byte list" where
  "As16 ip = be64 (hi ip) @ be64 (lo ip)"

definition IsValid :: "Addr \<Rightarrow> bool" where
  "IsValid ip \<longleftrightarrow> z ip \<noteq> Z0"

definition Is4 :: "Addr \<Rightarrow> bool" where
  "Is4 ip \<longleftrightarrow> z ip = Z4"

definition Is6 :: "Addr \<Rightarrow> bool" where
  "Is6 ip \<longleftrightarrow> z ip \<noteq> Z0 \<and> z ip \<noteq> Z4"

definition mapped_bits :: "Addr \<Rightarrow> bool" where
  "mapped_bits ip \<longleftrightarrow> hi ip = 0 \<and> drop_bit 32 (lo ip) = 0xffff"

definition Is4In6 :: "Addr \<Rightarrow> bool" where
  "Is4In6 ip \<longleftrightarrow> Is6 ip \<and> mapped_bits ip"

definition Unmap :: "Addr \<Rightarrow> Addr" where
  "Unmap ip = (if Is4In6 ip then ip\<lparr>z := Z4\<rparr> else ip)"

definition WithZone :: "Addr \<Rightarrow> string \<Rightarrow> Addr" where
  "WithZone ip zone = (if \<not> Is6 ip then ip else ip\<lparr>z := Z6 zone\<rparr>)"

definition Zone :: "Addr \<Rightarrow> string" where
  "Zone ip = (case z ip of Z6 zn \<Rightarrow> zn | _ \<Rightarrow> [])"

definition IsUnspecified :: "Addr \<Rightarrow> bool" where
  "IsUnspecified ip \<longleftrightarrow> ip = AddrFrom4 [0, 0, 0, 0] \<or> ip = IPv6Unspecified"

definition BitLen :: "Addr \<Rightarrow> int" where
  "BitLen ip = (case z ip of Z0 \<Rightarrow> 0 | Z4 \<Rightarrow> 32 | Z6 _ \<Rightarrow> 128)"

text \<open>The addresses the package can build.\<close>

definition wf_addr :: "Addr \<Rightarrow> bool" where
  "wf_addr ip \<longleftrightarrow> (case z ip of Z0 \<Rightarrow> hi ip = 0 \<and> lo ip = 0 | Z4 \<Rightarrow> mapped_bits ip | Z6 _ \<Rightarrow> True)"

lemma wf_addr_simps [simp]:
  "wf_addr zero_addr" "wf_addr IPv6Unspecified" "wf_addr (AddrFrom4 a)" "wf_addr (AddrFrom16 b)"
  by (simp_all add: wf_addr_def zero_addr_def IPv6Unspecified_def AddrFrom4_def AddrFrom16_def
      mapped_bits_def drop_bit_of_be)

lemma wf_addr_Unmap: "wf_addr ip \<Longrightarrow> wf_addr (Unmap ip)"
  by (auto simp: wf_addr_def Unmap_def Is4In6_def mapped_bits_def split: addr_detail.splits)

lemma wf_addr_WithZone: "wf_addr ip \<Longrightarrow> wf_addr (WithZone ip zn)"
  by (auto simp: wf_addr_def WithZone_def Is6_def)

lemma As16_AddrFrom16: "AddrFrom16 (As16 ip) = ip\<lparr>z := Z6 []\<rparr>"
  by (simp add: AddrFrom16_def As16_def)

end
