(* ===== verification/Ip_Mapped.thy ===== *)
theory Ip_Mapped
  imports Netip
begin

text \<open>
  ip/ip.go: comparing address-port pairs up to IPv4 mapping, and mapping IPv4 to IPv6, each
  once through the interface of net/netip and once by looking at the memory of the value.
  The memory view of a value is its header: sixteen bytes of address in the byte order of the
  machine, the pointer to the detail, and the port. Detail pointers are canonical (one per
  value), so the pointer is the detail itself.
\<close>

subsection \<open>Through the interface\<close>

definition AddrPortMappedEqual :: "AddrPort \<Rightarrow> AddrPort \<Rightarrow> bool" where
  "AddrPortMappedEqual l r =
     (if l = r then True
      else ap_port l = ap_port r \<and> Unmap (ap_ip l) = Unmap (ap_ip r))"

definition AddrPortv4Mappedv6 :: "AddrPort \<Rightarrow> AddrPort" where
  "AddrPortv4Mappedv6 addrPort =
     (if Is4 (ap_ip addrPort) then
        (let addr6 = As16 (ap_ip addrPort); ip = AddrFrom16 addr6; port = ap_port addrPort
         in \<lparr>ap_ip = ip, ap_port = port\<rparr>)
      else addrPort)"

subsection \<open>Through memory\<close>

record addrHeader =
  h_ip :: "byte list"
  h_z :: addr_detail

record addrPortHeader =
  h_addr :: addrHeader
  h_port :: "16 word"

text \<open>Sixteen bytes of memory: two words, each in the byte order of the machine.\<close>

definition mem16 :: "bool \<Rightarrow> Addr \<Rightarrow> byte list" where
  "mem16 big_endian ip =
     (if big_endian then be64 (hi ip) @ be64 (lo ip)
      else rev (be64 (hi ip)) @ rev (be64 (lo ip)))"

definition header :: "bool \<Rightarrow> AddrPort \<Rightarrow> addrPortHeader" where
  "header big_endian ap =
     \<lparr>h_addr = \<lparr>h_ip = mem16 big_endian (ap_ip ap), h_z = z (ap_ip ap)\<rparr>, h_port = ap_port ap\<rparr>"

definition AddrPortMappedEqualUnsafe :: "bool \<Rightarrow> AddrPort \<Rightarrow> AddrPort \<Rightarrow> bool" where
  "AddrPortMappedEqualUnsafe big_endian l r =
     (let lp = header big_endian l; rp = header big_endian r
      in h_ip (h_addr lp) = h_ip (h_addr rp) \<and> h_port lp = h_port rp)"

text \<open>The pointer that init takes from the unspecified IPv6 address.\<close>

definition z6noz :: addr_detail where
  "z6noz = (let addr6 = IPv6Unspecified in h_z (h_addr (header False \<lparr>ap_ip = addr6, ap_port = 0\<rparr>)))"

definition AddrPortv4Mappedv6Unsafe :: "AddrPort \<Rightarrow> AddrPort" where
  "AddrPortv4Mappedv6Unsafe addrPort =
     (if Is4 (ap_ip addrPort) then addrPort\<lparr>ap_ip := (ap_ip addrPort)\<lparr>z := z6noz\<rparr>\<rparr>
      else addrPort)"

subsection \<open>Facts\<close>

lemma be64_inject [simp]: "be64 v = be64 w \<longleftrightarrow> v = w"
  by (metis of_be_be64)

lemma mem16_eq: "mem16 be a = mem16 be b \<longleftrightarrow> hi a = hi b \<and> lo a = lo b"
  by (auto simp: mem16_def)

lemma unsafe_equal_iff:
  "AddrPortMappedEqualUnsafe be l r \<longleftrightarrow>
     hi (ap_ip l) = hi (ap_ip r) \<and> lo (ap_ip l) = lo (ap_ip r) \<and> ap_port l = ap_port r"
  by (simp add: AddrPortMappedEqualUnsafe_def header_def Let_def mem16_eq)

lemma z6noz_eq: "z6noz = Z6 []"
  by (simp add: z6noz_def IPv6Unspecified_def header_def)

lemma mapped_equal_iff:
  "AddrPortMappedEqual l r \<longleftrightarrow> ap_port l = ap_port r \<and> Unmap (ap_ip l) = Unmap (ap_ip r)"
  by (auto simp: AddrPortMappedEqual_def)

lemma Unmap_eq_iff:
  assumes "wf_addr a" and "wf_addr b"
  shows "Unmap a = Unmap b \<longleftrightarrow> hi a = hi b \<and> lo a = lo b \<and>
    (z a = z b \<or> IsValid a \<and> IsValid b \<and> mapped_bits a)"
  using assms
  by (cases a; cases b)
    (auto simp: Unmap_def Is4In6_def Is6_def IsValid_def wf_addr_def mapped_bits_def
      split: addr_detail.splits)

lemma v4_mapped_v6_form:
  "AddrPortv4Mappedv6 ap =
     (if z (ap_ip ap) = Z4 then ap\<lparr>ap_ip := (ap_ip ap)\<lparr>z := Z6 []\<rparr>\<rparr> else ap)"
  by (simp add: AddrPortv4Mappedv6_def Is4_def Let_def As16_AddrFrom16)

subsection \<open>Properties\<close>

text \<open>
  C38. For the addresses the package can build, AddrPortMappedEqual holds exactly when the ports
  and the 128 bits agree and either the details (family and zone) agree too or both are valid
  and lie in the IPv4-mapped range; in particular it is an equivalence.
\<close>

theorem mapped_equal_characterised:
  assumes "wf_addr (ap_ip l)" and "wf_addr (ap_ip r)"
  shows "AddrPortMappedEqual l r \<longleftrightarrow>
    ap_port l = ap_port r \<and> hi (ap_ip l) = hi (ap_ip r) \<and> lo (ap_ip l) = lo (ap_ip r) \<and>
    (z (ap_ip l) = z (ap_ip r) \<or>
     IsValid (ap_ip l) \<and> IsValid (ap_ip r) \<and> mapped_bits (ap_ip l))"
  using Unmap_eq_iff [OF assms] by (auto simp: mapped_equal_iff)

theorem mapped_equal_characterised_witness:
  "AddrPortMappedEqual \<lparr>ap_ip = AddrFrom4 [1, 1, 1, 1], ap_port = 53\<rparr>
     \<lparr>ap_ip = WithZone (AddrFrom16 [0, 0, 0, 0, 0, 0, 0, 0, 0, 0, 0xff, 0xff, 1, 1, 1, 1]) ''eth0'',
      ap_port = 53\<rparr>"
  by (subst mapped_equal_characterised)
    (simp_all add: wf_addr_WithZone IsValid_def AddrFrom4_def AddrFrom16_def WithZone_def Is6_def
      mapped_bits_def of_be_def wf_addr_def)

text \<open>
  C39. The comparison through memory is the comparison through the interface on valid addresses
  without zones, whatever the byte order of the machine.
\<close>

theorem unsafe_equal_agrees:
  assumes "wf_addr (ap_ip l)" and "wf_addr (ap_ip r)"
    and "IsValid (ap_ip l)" and "IsValid (ap_ip r)"
    and "Zone (ap_ip l) = []" and "Zone (ap_ip r) = []"
  shows "AddrPortMappedEqualUnsafe big_endian l r = AddrPortMappedEqual l r"
proof -
  have "z a = z b \<or> mapped_bits a" if "wf_addr a" "wf_addr b" "IsValid a" "IsValid b"
      "Zone a = []" "Zone b = []" "hi a = hi b" "lo a = lo b" for a b :: Addr
    using that by (auto simp: wf_addr_def IsValid_def Zone_def mapped_bits_def
        split: addr_detail.splits)
  with assms show ?thesis
    by (auto simp: unsafe_equal_iff mapped_equal_iff Unmap_eq_iff)
qed

theorem unsafe_equal_agrees_witness:
  "AddrPortMappedEqualUnsafe False \<lparr>ap_ip = AddrFrom4 [127, 0, 0, 1], ap_port = 1080\<rparr>
     \<lparr>ap_ip = AddrFrom16 [0, 0, 0, 0, 0, 0, 0, 0, 0, 0, 0xff, 0xff, 127, 0, 0, 1], ap_port = 1080\<rparr> =
   AddrPortMappedEqual \<lparr>ap_ip = AddrFrom4 [127, 0, 0, 1], ap_port = 1080\<rparr>
     \<lparr>ap_ip = AddrFrom16 [0, 0, 0, 0, 0, 0, 0, 0, 0, 0, 0xff, 0xff, 127, 0, 0, 1], ap_port = 1080\<rparr>"
  by (rule unsafe_equal_agrees)
    (simp_all, simp_all add: IsValid_def Zone_def AddrFrom4_def AddrFrom16_def)

text \<open>
  The comparison through memory ignores the zone and cannot tell the zero value from the
  unspecified IPv6 address, so it equates endpoints that the other comparison keeps apart.
\<close>

theorem unsafe_equal_ignores_zone:
  "AddrPortMappedEqualUnsafe big_endian
      \<lparr>ap_ip = WithZone (AddrFrom16 a) ''eth0'', ap_port = p\<rparr>
      \<lparr>ap_ip = WithZone (AddrFrom16 a) ''eth1'', ap_port = p\<rparr> \<and>
   AddrPortMappedEqual
      \<lparr>ap_ip = WithZone (AddrFrom16 a) ''eth0'', ap_port = p\<rparr>
      \<lparr>ap_ip = WithZone (AddrFrom16 a) ''eth1'', ap_port = p\<rparr> = mapped_bits (AddrFrom16 a) \<and>
   AddrPortMappedEqualUnsafe big_endian zero_addrport \<lparr>ap_ip = IPv6Unspecified, ap_port = 0\<rparr> \<and>
   AddrPortMappedEqual zero_addrport \<lparr>ap_ip = IPv6Unspecified, ap_port = 0\<rparr> = False"
  by (auto simp: unsafe_equal_iff mapped_equal_iff Unmap_def Is4In6_def Is6_def WithZone_def
      AddrFrom16_def IPv6Unspecified_def zero_addrport_def zero_addr_def mapped_bits_def)

text \<open>
  Mapping to IPv6: both versions agree on every value, the result is never IPv4, denotes
  the same endpoint, keeps the port, is left alone by a second mapping, and IPv6 and invalid
  values are returned unchanged.
\<close>

theorem v4_mapped_v6_correct:
  "AddrPortv4Mappedv6Unsafe ap = AddrPortv4Mappedv6 ap \<and>
   \<not> Is4 (ap_ip (AddrPortv4Mappedv6 ap)) \<and>
   ap_port (AddrPortv4Mappedv6 ap) = ap_port ap \<and>
   AddrPortv4Mappedv6 (AddrPortv4Mappedv6 ap) = AddrPortv4Mappedv6 ap \<and>
   As16 (ap_ip (AddrPortv4Mappedv6 ap)) = As16 (ap_ip ap) \<and>
   (if wf_addr (ap_ip ap) then AddrPortMappedEqual (AddrPortv4Mappedv6 ap) ap else True) \<and>
   (if Is4 (ap_ip ap) then Is6 (ap_ip (AddrPortv4Mappedv6 ap))
    else AddrPortv4Mappedv6 ap = ap)"
  by (cases "z (ap_ip ap)")
    (simp_all add: v4_mapped_v6_form AddrPortv4Mappedv6Unsafe_def z6noz_eq Is4_def Is6_def
      As16_def mapped_equal_iff Unmap_def Is4In6_def mapped_bits_def wf_addr_def)

end
