(* ===== verification/Bsd_Names.thy ===== *)
theory Bsd_Names
  imports Netip
begin

text \<open>
  route/bsdroute/names_*.go: the names of message types and flags on the five BSD systems, one
  set of tables per file. The constants of golang.org/x/sys/unix are not part of the program: a
  table names the constant, and its value is looked up in the argument \<open>u\<close>. The values
  that the files document in their comments are the tables \<open>*_documented_*\<close>; the
  constants IN6_IFF are declared by the files themselves.
\<close>

subsection \<open>Darwin\<close>

definition rtm_documented_darwin :: "(string \<times> int) list" where
  "rtm_documented_darwin =
  [(''RTM_ADD'', 0x1), (''RTM_DELETE'', 0x2), (''RTM_CHANGE'', 0x3), (''RTM_GET'', 0x4),
   (''RTM_LOSING'', 0x5), (''RTM_REDIRECT'', 0x6), (''RTM_MISS'', 0x7), (''RTM_LOCK'', 0x8),
   (''RTM_OLDADD'', 0x9), (''RTM_OLDDEL'', 0xa), (''RTM_RESOLVE'', 0xb), (''RTM_NEWADDR'', 0xc),
   (''RTM_DELADDR'', 0xd), (''RTM_IFINFO'', 0xe), (''RTM_NEWMADDR'', 0xf),
   (''RTM_DELMADDR'', 0x10), (''RTM_IFINFO2'', 0x12), (''RTM_NEWMADDR2'', 0x13),
   (''RTM_GET2'', 0x14)]"

definition msgTypeNames_darwin :: "(string \<times> string) list" where
  "msgTypeNames_darwin =
  [(''RTM_ADD'', ''RTM_ADD''), (''RTM_DELETE'', ''RTM_DELETE''),
   (''RTM_CHANGE'', ''RTM_CHANGE''), (''RTM_GET'', ''RTM_GET''),
   (''RTM_LOSING'', ''RTM_LOSING''), (''RTM_REDIRECT'', ''RTM_REDIRECT''),
   (''RTM_MISS'', ''RTM_MISS''), (''RTM_LOCK'', ''RTM_LOCK''), (''RTM_OLDADD'', ''RTM_OLDADD''),
   (''RTM_OLDDEL'', ''RTM_OLDDEL''), (''RTM_RESOLVE'', ''RTM_RESOLVE''),
   (''RTM_NEWADDR'', ''RTM_NEWADDR''), (''RTM_DELADDR'', ''RTM_DELADDR''),
   (''RTM_IFINFO'', ''RTM_IFINFO''), (''RTM_NEWMADDR'', ''RTM_NEWMADDR''),
   (''RTM_DELMADDR'', ''RTM_DELMADDR''), (''RTM_IFINFO2'', ''RTM_IFINFO2''),
   (''RTM_NEWMADDR2'', ''RTM_NEWMADDR2''), (''RTM_GET2'', ''RTM_GET2'')]"

definition routeFlagNames_darwin :: "(string \<times> char) list" where
  "routeFlagNames_darwin =
  [(''RTF_UP'', CHR ''U''), (''RTF_GATEWAY'', CHR ''G''), (''RTF_HOST'', CHR ''H''),
   (''RTF_REJECT'', CHR ''R''), (''RTF_DYNAMIC'', CHR ''D''), (''RTF_MODIFIED'', CHR ''M''),
   (''RTF_MULTICAST'', CHR ''m''), (''RTF_DONE'', CHR ''d''), (''RTF_CLONING'', CHR ''C''),
   (''RTF_XRESOLVE'', CHR ''X''), (''RTF_LLINFO'', CHR ''L''), (''RTF_STATIC'', CHR ''S''),
   (''RTF_PROTO1'', CHR ''1''), (''RTF_PROTO2'', CHR ''2''), (''RTF_WASCLONED'', CHR ''W''),
   (''RTF_PRCLONING'', CHR ''c''), (''RTF_PROTO3'', CHR ''3''), (''RTF_BLACKHOLE'', CHR ''B''),
   (''RTF_BROADCAST'', CHR ''b''), (''RTF_IFSCOPE'', CHR ''I''), (''RTF_IFREF'', CHR ''i''),
   (''RTF_PROXY'', CHR ''Y''), (''RTF_ROUTER'', CHR ''r''), (''RTF_GLOBAL'', CHR ''g'')]"

definition iff_documented_darwin :: "(string \<times> int) list" where
  "iff_documented_darwin =
  [(''IFF_UP'', 0x1), (''IFF_BROADCAST'', 0x2), (''IFF_DEBUG'', 0x4), (''IFF_LOOPBACK'', 0x8),
   (''IFF_POINTOPOINT'', 0x10), (''IFF_NOTRAILERS'', 0x20), (''IFF_RUNNING'', 0x40),
   (''IFF_NOARP'', 0x80), (''IFF_PROMISC'', 0x100), (''IFF_ALLMULTI'', 0x200),
   (''IFF_OACTIVE'', 0x400), (''IFF_SIMPLEX'', 0x800), (''IFF_LINK0'', 0x1000),
   (''IFF_LINK1'', 0x2000), (''IFF_LINK2'', 0x4000), (''IFF_ALTPHYS'', 0x4000),
   (''IFF_MULTICAST'', 0x8000)]"

definition ifaceFlagNames_darwin :: "(string \<times> string) list" where
  "ifaceFlagNames_darwin =
  [(''IFF_UP'', ''UP''), (''IFF_BROADCAST'', ''BROADCAST''), (''IFF_DEBUG'', ''DEBUG''),
   (''IFF_LOOPBACK'', ''LOOPBACK''), (''IFF_POINTOPOINT'', ''POINTOPOINT''),
   (''IFF_NOTRAILERS'', ''NOTRAILERS''), (''IFF_RUNNING'', ''RUNNING''),
   (''IFF_NOARP'', ''NOARP''), (''IFF_PROMISC'', ''PROMISC''), (''IFF_ALLMULTI'', ''ALLMULTI''),
   (''IFF_OACTIVE'', ''OACTIVE''), (''IFF_SIMPLEX'', ''SIMPLEX''), (''IFF_LINK0'', ''LINK0''),
   (''IFF_LINK1'', ''LINK1''), (''IFF_LINK2'', ''LINK2''), (''IFF_MULTICAST'', ''MULTICAST'')]"

definition in6_iff_darwin :: "(string \<times> int) list" where
  "in6_iff_darwin =
  [(''IN6_IFF_ANYCAST'', 0x0001), (''IN6_IFF_TENTATIVE'', 0x0002),
   (''IN6_IFF_DUPLICATED'', 0x0004), (''IN6_IFF_DETACHED'', 0x0008),
   (''IN6_IFF_DEPRECATED'', 0x0010), (''IN6_IFF_NODAD'', 0x0020), (''IN6_IFF_AUTOCONF'', 0x0040),
   (''IN6_IFF_TEMPORARY'', 0x0080), (''IN6_IFF_DYNAMIC'', 0x0100),
   (''IN6_IFF_OPTIMISTIC'', 0x0200), (''IN6_IFF_SECURED'', 0x0400), (''IN6_IFF_CLAT46'', 0x1000),
   (''IN6_IFF_NOPFX'', 0x8000)]"

definition ifaFlags6Names_darwin :: "(string \<times> string) list" where
  "ifaFlags6Names_darwin =
  [(''IN6_IFF_ANYCAST'', ''anycast''), (''IN6_IFF_TENTATIVE'', ''tentative''),
   (''IN6_IFF_DUPLICATED'', ''duplicated''), (''IN6_IFF_DETACHED'', ''detached''),
   (''IN6_IFF_DEPRECATED'', ''deprecated''), (''IN6_IFF_NODAD'', ''nodad''),
   (''IN6_IFF_AUTOCONF'', ''autoconf''), (''IN6_IFF_TEMPORARY'', ''temporary''),
   (''IN6_IFF_DYNAMIC'', ''dynamic''), (''IN6_IFF_OPTIMISTIC'', ''optimistic''),
   (''IN6_IFF_SECURED'', ''secured''), (''IN6_IFF_CLAT46'', ''clat46''),
   (''IN6_IFF_NOPFX'', ''nopfx'')]"

subsection \<open>Dragonfly\<close>

definition rtm_documented_dragonfly :: "(string \<times> int) list" where
  "rtm_documented_dragonfly =
  [(''RTM_ADD'', 0x1), (''RTM_DELETE'', 0x2), (''RTM_CHANGE'', 0x3), (''RTM_GET'', 0x4),
   (''RTM_LOSING'', 0x5), (''RTM_REDIRECT'', 0x6), (''RTM_MISS'', 0x7), (''RTM_LOCK'', 0x8),
   (''RTM_RESOLVE'', 0xb), (''RTM_NEWADDR'', 0xc), (''RTM_DELADDR'', 0xd), (''RTM_IFINFO'', 0xe),
   (''RTM_NEWMADDR'', 0xf), (''RTM_DELMADDR'', 0x10), (''RTM_IFANNOUNCE'', 0x11),
   (''RTM_IEEE80211'', 0x12)]"

definition msgTypeNames_dragonfly :: "(string \<times> string) list" where
  "msgTypeNames_dragonfly =
  [(''RTM_ADD'', ''RTM_ADD''), (''RTM_DELETE'', ''RTM_DELETE''),
   (''RTM_CHANGE'', ''RTM_CHANGE''), (''RTM_GET'', ''RTM_GET''),
   (''RTM_LOSING'', ''RTM_LOSING''), (''RTM_REDIRECT'', ''RTM_REDIRECT''),
   (''RTM_MISS'', ''RTM_MISS''), (''RTM_LOCK'', ''RTM_LOCK''),
   (''RTM_RESOLVE'', ''RTM_RESOLVE''), (''RTM_NEWADDR'', ''RTM_NEWADDR''),
   (''RTM_DELADDR'', ''RTM_DELADDR''), (''RTM_IFINFO'', ''RTM_IFINFO''),
   (''RTM_NEWMADDR'', ''RTM_NEWMADDR''), (''RTM_DELMADDR'', ''RTM_DELMADDR''),
   (''RTM_IFANNOUNCE'', ''RTM_IFANNOUNCE''), (''RTM_IEEE80211'', ''RTM_IEEE80211'')]"

definition routeFlagNames_dragonfly :: "(string \<times> char) list" where
  "routeFlagNames_dragonfly =
  [(''RTF_UP'', CHR ''U''), (''RTF_GATEWAY'', CHR ''G''), (''RTF_HOST'', CHR ''H''),
   (''RTF_REJECT'', CHR ''R''), (''RTF_BLACKHOLE'', CHR ''B''), (''RTF_DYNAMIC'', CHR ''D''),
   (''RTF_MODIFIED'', CHR ''M''), (''RTF_DONE'', CHR ''d''), (''RTF_CLONING'', CHR ''C''),
   (''RTF_XRESOLVE'', CHR ''X''), (''RTF_LLINFO'', CHR ''L''), (''RTF_STATIC'', CHR ''S''),
   (''RTF_PROTO1'', CHR ''1''), (''RTF_PROTO2'', CHR ''2''), (''RTF_PROTO3'', CHR ''3'')]"

definition iff_documented_dragonfly :: "(string \<times> int) list" where
  "iff_documented_dragonfly =
  [(''IFF_UP'', 0x1), (''IFF_BROADCAST'', 0x2), (''IFF_DEBUG'', 0x4), (''IFF_LOOPBACK'', 0x8),
   (''IFF_POINTOPOINT'', 0x10), (''IFF_SMART'', 0x20), (''IFF_RUNNING'', 0x40),
   (''IFF_NOARP'', 0x80), (''IFF_PROMISC'', 0x100), (''IFF_ALLMULTI'', 0x200),
   (''IFF_OACTIVE'', 0x400), (''IFF_OACTIVE_COMPAT'', 0x400), (''IFF_SIMPLEX'', 0x800),
   (''IFF_LINK0'', 0x1000), (''IFF_LINK1'', 0x2000), (''IFF_LINK2'', 0x4000),
   (''IFF_ALTPHYS'', 0x4000), (''IFF_MULTICAST'', 0x8000), (''IFF_POLLING'', 0x10000),
   (''IFF_POLLING_COMPAT'', 0x10000), (''IFF_PPROMISC'', 0x20000), (''IFF_MONITOR'', 0x40000),
   (''IFF_STATICARP'', 0x80000), (''IFF_NPOLLING'', 0x100000), (''IFF_IDIRECT'', 0x200000),
   (''IFF_CANTCHANGE'', 0x318e72)]"

definition ifaceFlagNames_dragonfly :: "(string \<times> string) list" where
  "ifaceFlagNames_dragonfly =
  [(''IFF_UP'', ''UP''), (''IFF_BROADCAST'', ''BROADCAST''), (''IFF_DEBUG'', ''DEBUG''),
   (''IFF_LOOPBACK'', ''LOOPBACK''), (''IFF_POINTOPOINT'', ''POINTOPOINT''),
   (''IFF_SMART'', ''SMART''), (''IFF_RUNNING'', ''RUNNING''), (''IFF_NOARP'', ''NOARP''),
   (''IFF_PROMISC'', ''PROMISC''), (''IFF_ALLMULTI'', ''ALLMULTI''),
   (''IFF_OACTIVE'', ''OACTIVE''), (''IFF_SIMPLEX'', ''SIMPLEX''), (''IFF_LINK0'', ''LINK0''),
   (''IFF_LINK1'', ''LINK1''), (''IFF_LINK2'', ''LINK2''), (''IFF_MULTICAST'', ''MULTICAST''),
   (''IFF_POLLING'', ''POLLING''), (''IFF_PPROMISC'', ''PPROMISC''),
   (''IFF_MONITOR'', ''MONITOR''), (''IFF_STATICARP'', ''STATICARP''),
   (''IFF_NPOLLING'', ''NPOLLING''), (''IFF_IDIRECT'', ''IDIRECT'')]"

definition in6_iff_dragonfly :: "(string \<times> int) list" where
  "in6_iff_dragonfly =
  [(''IN6_IFF_ANYCAST'', 0x0001), (''IN6_IFF_TENTATIVE'', 0x0002),
   (''IN6_IFF_DUPLICATED'', 0x0004), (''IN6_IFF_DETACHED'', 0x0008),
   (''IN6_IFF_DEPRECATED'', 0x0010), (''IN6_IFF_NODAD'', 0x0020), (''IN6_IFF_AUTOCONF'', 0x0040),
   (''IN6_IFF_TEMPORARY'', 0x0080), (''IN6_IFF_NOPFX'', 0x8000)]"

definition ifaFlags6Names_dragonfly :: "(string \<times> string) list" where
  "ifaFlags6Names_dragonfly =
  [(''IN6_IFF_ANYCAST'', ''anycast''), (''IN6_IFF_TENTATIVE'', ''tentative''),
   (''IN6_IFF_DUPLICATED'', ''duplicated''), (''IN6_IFF_DETACHED'', ''detached''),
   (''IN6_IFF_DEPRECATED'', ''deprecated''), (''IN6_IFF_NODAD'', ''nodad''),
   (''IN6_IFF_AUTOCONF'', ''autoconf''), (''IN6_IFF_TEMPORARY'', ''temporary''),
   (''IN6_IFF_NOPFX'', ''nopfx'')]"

subsection \<open>Freebsd\<close>

definition rtm_documented_freebsd :: "(string \<times> int) list" where
  "rtm_documented_freebsd =
  [(''RTM_ADD'', 0x1), (''RTM_DELETE'', 0x2), (''RTM_CHANGE'', 0x3), (''RTM_GET'', 0x4),
   (''RTM_LOSING'', 0x5), (''RTM_REDIRECT'', 0x6), (''RTM_MISS'', 0x7), (''RTM_LOCK'', 0x8),
   (''RTM_RESOLVE'', 0xb), (''RTM_NEWADDR'', 0xc), (''RTM_DELADDR'', 0xd), (''RTM_IFINFO'', 0xe),
   (''RTM_NEWMADDR'', 0xf), (''RTM_DELMADDR'', 0x10), (''RTM_IFANNOUNCE'', 0x11),
   (''RTM_IEEE80211'', 0x12)]"

definition msgTypeNames_freebsd :: "(string \<times> string) list" where
  "msgTypeNames_freebsd =
  [(''RTM_ADD'', ''RTM_ADD''), (''RTM_DELETE'', ''RTM_DELETE''),
   (''RTM_CHANGE'', ''RTM_CHANGE''), (''RTM_GET'', ''RTM_GET''),
   (''RTM_LOSING'', ''RTM_LOSING''), (''RTM_REDIRECT'', ''RTM_REDIRECT''),
   (''RTM_MISS'', ''RTM_MISS''), (''RTM_LOCK'', ''RTM_LOCK''),
   (''RTM_RESOLVE'', ''RTM_RESOLVE''), (''RTM_NEWADDR'', ''RTM_NEWADDR''),
   (''RTM_DELADDR'', ''RTM_DELADDR''), (''RTM_IFINFO'', ''RTM_IFINFO''),
   (''RTM_NEWMADDR'', ''RTM_NEWMADDR''), (''RTM_DELMADDR'', ''RTM_DELMADDR''),
   (''RTM_IFANNOUNCE'', ''RTM_IFANNOUNCE''), (''RTM_IEEE80211'', ''RTM_IEEE80211'')]"

definition routeFlagNames_freebsd :: "(string \<times> char) list" where
  "routeFlagNames_freebsd =
  [(''RTF_UP'', CHR ''U''), (''RTF_GATEWAY'', CHR ''G''), (''RTF_HOST'', CHR ''H''),
   (''RTF_REJECT'', CHR ''R''), (''RTF_DYNAMIC'', CHR ''D''), (''RTF_MODIFIED'', CHR ''M''),
   (''RTF_DONE'', CHR ''d''), (''RTF_XRESOLVE'', CHR ''X''), (''RTF_STATIC'', CHR ''S''),
   (''RTF_PROTO1'', CHR ''1''), (''RTF_PROTO2'', CHR ''2''), (''RTF_PROTO3'', CHR ''3''),
   (''RTF_BLACKHOLE'', CHR ''B''), (''RTF_BROADCAST'', CHR ''b''), (''RTF_LLINFO'', CHR ''L'')]"

definition iff_documented_freebsd :: "(string \<times> int) list" where
  "iff_documented_freebsd =
  [(''IFF_UP'', 0x1), (''IFF_BROADCAST'', 0x2), (''IFF_DEBUG'', 0x4), (''IFF_LOOPBACK'', 0x8),
   (''IFF_POINTOPOINT'', 0x10), (''IFF_RUNNING'', 0x40), (''IFF_DRV_RUNNING'', 0x40),
   (''IFF_NOARP'', 0x80), (''IFF_PROMISC'', 0x100), (''IFF_ALLMULTI'', 0x200),
   (''IFF_OACTIVE'', 0x400), (''IFF_DRV_OACTIVE'', 0x400), (''IFF_SIMPLEX'', 0x800),
   (''IFF_LINK0'', 0x1000), (''IFF_LINK1'', 0x2000), (''IFF_LINK2'', 0x4000),
   (''IFF_ALTPHYS'', 0x4000), (''IFF_MULTICAST'', 0x8000), (''IFF_CANTCONFIG'', 0x10000),
   (''IFF_PPROMISC'', 0x20000), (''IFF_MONITOR'', 0x40000), (''IFF_STATICARP'', 0x80000),
   (''IFF_DYING'', 0x200000), (''IFF_CANTCHANGE'', 0x218f52), (''IFF_RENAMING'', 0x400000),
   (''IFF_NOGROUP'', 0x800000)]"

definition ifaceFlagNames_freebsd :: "(string \<times> string) list" where
  "ifaceFlagNames_freebsd =
  [(''IFF_UP'', ''UP''), (''IFF_BROADCAST'', ''BROADCAST''), (''IFF_DEBUG'', ''DEBUG''),
   (''IFF_LOOPBACK'', ''LOOPBACK''), (''IFF_POINTOPOINT'', ''POINTOPOINT''),
   (''IFF_RUNNING'', ''RUNNING''), (''IFF_NOARP'', ''NOARP''), (''IFF_PROMISC'', ''PROMISC''),
   (''IFF_ALLMULTI'', ''ALLMULTI''), (''IFF_OACTIVE'', ''OACTIVE''),
   (''IFF_SIMPLEX'', ''SIMPLEX''), (''IFF_LINK0'', ''LINK0''), (''IFF_LINK1'', ''LINK1''),
   (''IFF_LINK2'', ''LINK2''), (''IFF_MULTICAST'', ''MULTICAST''),
   (''IFF_CANTCONFIG'', ''CANTCONFIG''), (''IFF_PPROMISC'', ''PPROMISC''),
   (''IFF_MONITOR'', ''MONITOR''), (''IFF_STATICARP'', ''STATICARP''),
   (''IFF_DYING'', ''DYING''), (''IFF_RENAMING'', ''RENAMING''), (''IFF_NOGROUP'', ''NOGROUP'')]"

definition in6_iff_freebsd :: "(string \<times> int) list" where
  "in6_iff_freebsd =
  [(''IN6_IFF_ANYCAST'', 0x0001), (''IN6_IFF_TENTATIVE'', 0x0002),
   (''IN6_IFF_DUPLICATED'', 0x0004), (''IN6_IFF_DETACHED'', 0x0008),
   (''IN6_IFF_DEPRECATED'', 0x0010), (''IN6_IFF_NODAD'', 0x0020), (''IN6_IFF_AUTOCONF'', 0x0040),
   (''IN6_IFF_TEMPORARY'', 0x0080), (''IN6_IFF_PREFER_SOURCE'', 0x0100)]"

definition ifaFlags6Names_freebsd :: "(string \<times> string) list" where
  "ifaFlags6Names_freebsd =
  [(''IN6_IFF_ANYCAST'', ''anycast''), (''IN6_IFF_TENTATIVE'', ''tentative''),
   (''IN6_IFF_DUPLICATED'', ''duplicated''), (''IN6_IFF_DETACHED'', ''detached''),
   (''IN6_IFF_DEPRECATED'', ''deprecated''), (''IN6_IFF_NODAD'', ''nodad''),
   (''IN6_IFF_AUTOCONF'', ''autoconf''), (''IN6_IFF_TEMPORARY'', ''temporary''),
   (''IN6_IFF_PREFER_SOURCE'', ''prefer_source'')]"

subsection \<open>Netbsd\<close>

definition rtm_documented_netbsd :: "(string \<times> int) list" where
  "rtm_documented_netbsd =
  [(''RTM_ADD'', 0x1), (''RTM_DELETE'', 0x2), (''RTM_CHANGE'', 0x3), (''RTM_GET'', 0x4),
   (''RTM_LOSING'', 0x5), (''RTM_REDIRECT'', 0x6), (''RTM_MISS'', 0x7), (''RTM_LOCK'', 0x8),
   (''RTM_OLDADD'', 0x9), (''RTM_OLDDEL'', 0xa), (''RTM_RESOLVE'', 0xb), (''RTM_NEWADDR'', 0xc),
   (''RTM_DELADDR'', 0xd), (''RTM_OOIFINFO'', 0xe), (''RTM_OIFINFO'', 0xf),
   (''RTM_IFANNOUNCE'', 0x10), (''RTM_IEEE80211'', 0x11), (''RTM_SETGATE'', 0x12),
   (''RTM_LLINFO_UPD'', 0x13), (''RTM_IFINFO'', 0x14), (''RTM_CHGADDR'', 0x15)]"

definition msgTypeNames_netbsd :: "(string \<times> string) list" where
  "msgTypeNames_netbsd =
  [(''RTM_ADD'', ''RTM_ADD''), (''RTM_DELETE'', ''RTM_DELETE''),
   (''RTM_CHANGE'', ''RTM_CHANGE''), (''RTM_GET'', ''RTM_GET''),
   (''RTM_LOSING'', ''RTM_LOSING''), (''RTM_REDIRECT'', ''RTM_REDIRECT''),
   (''RTM_MISS'', ''RTM_MISS''), (''RTM_LOCK'', ''RTM_LOCK''), (''RTM_OLDADD'', ''RTM_OLDADD''),
   (''RTM_OLDDEL'', ''RTM_OLDDEL''), (''RTM_RESOLVE'', ''RTM_RESOLVE''),
   (''RTM_NEWADDR'', ''RTM_NEWADDR''), (''RTM_DELADDR'', ''RTM_DELADDR''),
   (''RTM_OOIFINFO'', ''RTM_OOIFINFO''), (''RTM_OIFINFO'', ''RTM_OIFINFO''),
   (''RTM_IFANNOUNCE'', ''RTM_IFANNOUNCE''), (''RTM_IEEE80211'', ''RTM_IEEE80211''),
   (''RTM_SETGATE'', ''RTM_SETGATE''), (''RTM_LLINFO_UPD'', ''RTM_LLINFO_UPD''),
   (''RTM_IFINFO'', ''RTM_IFINFO''), (''RTM_CHGADDR'', ''RTM_CHGADDR'')]"

definition routeFlagNames_netbsd :: "(string \<times> char) list" where
  "routeFlagNames_netbsd =
  [(''RTF_UP'', CHR ''U''), (''RTF_GATEWAY'', CHR ''G''), (''RTF_HOST'', CHR ''H''),
   (''RTF_REJECT'', CHR ''R''), (''RTF_BLACKHOLE'', CHR ''B''), (''RTF_DYNAMIC'', CHR ''D''),
   (''RTF_MODIFIED'', CHR ''M''), (''RTF_DONE'', CHR ''d''), (''RTF_MASK'', CHR ''m''),
   (''RTF_STATIC'', CHR ''S''), (''RTF_PROTO1'', CHR ''1''), (''RTF_PROTO2'', CHR ''2''),
   (''RTF_ANNOUNCE'', CHR ''p'')]"

definition iff_documented_netbsd :: "(string \<times> int) list" where
  "iff_documented_netbsd =
  [(''IFF_UP'', 0x1), (''IFF_BROADCAST'', 0x2), (''IFF_DEBUG'', 0x4), (''IFF_LOOPBACK'', 0x8),
   (''IFF_POINTOPOINT'', 0x10), (''IFF_NOTRAILERS'', 0x20), (''IFF_RUNNING'', 0x40),
   (''IFF_NOARP'', 0x80), (''IFF_PROMISC'', 0x100), (''IFF_ALLMULTI'', 0x200),
   (''IFF_OACTIVE'', 0x400), (''IFF_SIMPLEX'', 0x800), (''IFF_LINK0'', 0x1000),
   (''IFF_LINK1'', 0x2000), (''IFF_LINK2'', 0x4000), (''IFF_MULTICAST'', 0x8000),
   (''IFF_CANTCHANGE'', 0x8f52)]"

definition ifaceFlagNames_netbsd :: "(string \<times> string) list" where
  "ifaceFlagNames_netbsd =
  [(''IFF_UP'', ''UP''), (''IFF_BROADCAST'', ''BROADCAST''), (''IFF_DEBUG'', ''DEBUG''),
   (''IFF_LOOPBACK'', ''LOOPBACK''), (''IFF_POINTOPOINT'', ''POINTOPOINT''),
   (''IFF_NOTRAILERS'', ''NOTRAILERS''), (''IFF_RUNNING'', ''RUNNING''),
   (''IFF_NOARP'', ''NOARP''), (''IFF_PROMISC'', ''PROMISC''), (''IFF_ALLMULTI'', ''ALLMULTI''),
   (''IFF_OACTIVE'', ''OACTIVE''), (''IFF_SIMPLEX'', ''SIMPLEX''), (''IFF_LINK0'', ''LINK0''),
   (''IFF_LINK1'', ''LINK1''), (''IFF_LINK2'', ''LINK2''), (''IFF_MULTICAST'', ''MULTICAST'')]"

definition in6_iff_netbsd :: "(string \<times> int) list" where
  "in6_iff_netbsd =
  [(''IN6_IFF_ANYCAST'', 0x0001), (''IN6_IFF_TENTATIVE'', 0x0002),
   (''IN6_IFF_DUPLICATED'', 0x0004), (''IN6_IFF_DETACHED'', 0x0008),
   (''IN6_IFF_DEPRECATED'', 0x0010), (''IN6_IFF_NODAD'', 0x0020), (''IN6_IFF_AUTOCONF'', 0x0040),
   (''IN6_IFF_TEMPORARY'', 0x0080)]"

definition ifaFlags6Names_netbsd :: "(string \<times> string) list" where
  "ifaFlags6Names_netbsd =
  [(''IN6_IFF_ANYCAST'', ''anycast''), (''IN6_IFF_TENTATIVE'', ''tentative''),
   (''IN6_IFF_DUPLICATED'', ''duplicated''), (''IN6_IFF_DETACHED'', ''detached''),
   (''IN6_IFF_DEPRECATED'', ''deprecated''), (''IN6_IFF_NODAD'', ''nodad''),
   (''IN6_IFF_AUTOCONF'', ''autoconf''), (''IN6_IFF_TEMPORARY'', ''temporary'')]"

subsection \<open>Openbsd\<close>

definition rtm_documented_openbsd :: "(string \<times> int) list" where
  "rtm_documented_openbsd =
  [(''RTM_ADD'', 0x1), (''RTM_DELETE'', 0x2), (''RTM_CHANGE'', 0x3), (''RTM_GET'', 0x4),
   (''RTM_LOSING'', 0x5), (''RTM_REDIRECT'', 0x6), (''RTM_MISS'', 0x7), (''RTM_RESOLVE'', 0xb),
   (''RTM_NEWADDR'', 0xc), (''RTM_DELADDR'', 0xd), (''RTM_IFINFO'', 0xe),
   (''RTM_IFANNOUNCE'', 0xf), (''RTM_DESYNC'', 0x10), (''RTM_INVALIDATE'', 0x11),
   (''RTM_BFD'', 0x12), (''RTM_PROPOSAL'', 0x13), (''RTM_CHGADDRATTR'', 0x14),
   (''RTM_80211INFO'', 0x15), (''RTM_SOURCE'', 0x16)]"

definition msgTypeNames_openbsd :: "(string \<times> string) list" where
  "msgTypeNames_openbsd =
  [(''RTM_ADD'', ''RTM_ADD''), (''RTM_DELETE'', ''RTM_DELETE''),
   (''RTM_CHANGE'', ''RTM_CHANGE''), (''RTM_GET'', ''RTM_GET''),
   (''RTM_LOSING'', ''RTM_LOSING''), (''RTM_REDIRECT'', ''RTM_REDIRECT''),
   (''RTM_MISS'', ''RTM_MISS''), (''RTM_RESOLVE'', ''RTM_RESOLVE''),
   (''RTM_NEWADDR'', ''RTM_NEWADDR''), (''RTM_DELADDR'', ''RTM_DELADDR''),
   (''RTM_IFINFO'', ''RTM_IFINFO''), (''RTM_IFANNOUNCE'', ''RTM_IFANNOUNCE''),
   (''RTM_DESYNC'', ''RTM_DESYNC''), (''RTM_INVALIDATE'', ''RTM_INVALIDATE''),
   (''RTM_BFD'', ''RTM_BFD''), (''RTM_PROPOSAL'', ''RTM_PROPOSAL''),
   (''RTM_CHGADDRATTR'', ''RTM_CHGADDRATTR''), (''RTM_80211INFO'', ''RTM_80211INFO''),
   (''RTM_SOURCE'', ''RTM_SOURCE'')]"

definition routeFlagNames_openbsd :: "(string \<times> char) list" where
  "routeFlagNames_openbsd =
  [(''RTF_UP'', CHR ''U''), (''RTF_GATEWAY'', CHR ''G''), (''RTF_HOST'', CHR ''H''),
   (''RTF_REJECT'', CHR ''R''), (''RTF_DYNAMIC'', CHR ''D''), (''RTF_MODIFIED'', CHR ''M''),
   (''RTF_CLONING'', CHR ''C''), (''RTF_MULTICAST'', CHR ''m''), (''RTF_LLINFO'', CHR ''L''),
   (''RTF_STATIC'', CHR ''S''), (''RTF_BLACKHOLE'', CHR ''B''), (''RTF_PROTO3'', CHR ''3''),
   (''RTF_PROTO2'', CHR ''2''), (''RTF_PROTO1'', CHR ''1''), (''RTF_CLONED'', CHR ''c''),
   (''RTF_CACHED'', CHR ''h''), (''RTF_MPATH'', CHR ''P''), (''RTF_MPLS'', CHR ''T''),
   (''RTF_LOCAL'', CHR ''l''), (''RTF_BFD'', CHR ''F''), (''RTF_BROADCAST'', CHR ''b''),
   (''RTF_CONNECTED'', CHR ''n'')]"

definition iff_documented_openbsd :: "(string \<times> int) list" where
  "iff_documented_openbsd =
  [(''IFF_UP'', 0x1), (''IFF_BROADCAST'', 0x2), (''IFF_DEBUG'', 0x4), (''IFF_LOOPBACK'', 0x8),
   (''IFF_POINTOPOINT'', 0x10), (''IFF_STATICARP'', 0x20), (''IFF_RUNNING'', 0x40),
   (''IFF_NOARP'', 0x80), (''IFF_PROMISC'', 0x100), (''IFF_ALLMULTI'', 0x200),
   (''IFF_OACTIVE'', 0x400), (''IFF_SIMPLEX'', 0x800), (''IFF_LINK0'', 0x1000),
   (''IFF_LINK1'', 0x2000), (''IFF_LINK2'', 0x4000), (''IFF_MULTICAST'', 0x8000),
   (''IFF_CANTCHANGE'', 0x8e52)]"

definition ifaceFlagNames_openbsd :: "(string \<times> string) list" where
  "ifaceFlagNames_openbsd =
  [(''IFF_UP'', ''UP''), (''IFF_BROADCAST'', ''BROADCAST''), (''IFF_DEBUG'', ''DEBUG''),
   (''IFF_LOOPBACK'', ''LOOPBACK''), (''IFF_POINTOPOINT'', ''POINTOPOINT''),
   (''IFF_STATICARP'', ''STATICARP''), (''IFF_RUNNING'', ''RUNNING''),
   (''IFF_NOARP'', ''NOARP''), (''IFF_PROMISC'', ''PROMISC''), (''IFF_ALLMULTI'', ''ALLMULTI''),
   (''IFF_OACTIVE'', ''OACTIVE''), (''IFF_SIMPLEX'', ''SIMPLEX''), (''IFF_LINK0'', ''LINK0''),
   (''IFF_LINK1'', ''LINK1''), (''IFF_LINK2'', ''LINK2''), (''IFF_MULTICAST'', ''MULTICAST''),
   (''IFF_CANTCHANGE'', ''CANTCHANGE'')]"

definition in6_iff_openbsd :: "(string \<times> int) list" where
  "in6_iff_openbsd =
  [(''IN6_IFF_ANYCAST'', 0x0001), (''IN6_IFF_TENTATIVE'', 0x0002),
   (''IN6_IFF_DUPLICATED'', 0x0004), (''IN6_IFF_DETACHED'', 0x0008),
   (''IN6_IFF_DEPRECATED'', 0x0010), (''IN6_IFF_AUTOCONF'', 0x0040),
   (''IN6_IFF_TEMPORARY'', 0x0080)]"

definition ifaFlags6Names_openbsd :: "(string \<times> string) list" where
  "ifaFlags6Names_openbsd =
  [(''IN6_IFF_ANYCAST'', ''anycast''), (''IN6_IFF_TENTATIVE'', ''tentative''),
   (''IN6_IFF_DUPLICATED'', ''duplicated''), (''IN6_IFF_DETACHED'', ''detached''),
   (''IN6_IFF_DEPRECATED'', ''deprecated''), (''IN6_IFF_AUTOCONF'', ''autoconf''),
   (''IN6_IFF_TEMPORARY'', ''temporary'')]"

subsection \<open>The tables of a system\<close>

datatype bsd = Darwin | Dragonfly | Freebsd | Netbsd | Openbsd

text \<open>
  What the program takes from x/sys/unix: constants by name, the offsets of struct fields by
  name, and the byte order of the machine.
\<close>

record unix_env =
  num :: "string \<Rightarrow> int"
  off :: "string \<Rightarrow> nat"
  big_endian :: bool

fun rtm_documented :: "bsd \<Rightarrow> (string \<times> int) list" where
  "rtm_documented Darwin = rtm_documented_darwin"
| "rtm_documented Dragonfly = rtm_documented_dragonfly"
| "rtm_documented Freebsd = rtm_documented_freebsd"
| "rtm_documented Netbsd = rtm_documented_netbsd"
| "rtm_documented Openbsd = rtm_documented_openbsd"

fun iff_documented :: "bsd \<Rightarrow> (string \<times> int) list" where
  "iff_documented Darwin = iff_documented_darwin"
| "iff_documented Dragonfly = iff_documented_dragonfly"
| "iff_documented Freebsd = iff_documented_freebsd"
| "iff_documented Netbsd = iff_documented_netbsd"
| "iff_documented Openbsd = iff_documented_openbsd"

fun msgTypeNames :: "bsd \<Rightarrow> (string \<times> string) list" where
  "msgTypeNames Darwin = msgTypeNames_darwin"
| "msgTypeNames Dragonfly = msgTypeNames_dragonfly"
| "msgTypeNames Freebsd = msgTypeNames_freebsd"
| "msgTypeNames Netbsd = msgTypeNames_netbsd"
| "msgTypeNames Openbsd = msgTypeNames_openbsd"

fun routeFlagNames :: "bsd \<Rightarrow> (string \<times> char) list" where
  "routeFlagNames Darwin = routeFlagNames_darwin"
| "routeFlagNames Dragonfly = routeFlagNames_dragonfly"
| "routeFlagNames Freebsd = routeFlagNames_freebsd"
| "routeFlagNames Netbsd = routeFlagNames_netbsd"
| "routeFlagNames Openbsd = routeFlagNames_openbsd"

fun ifaceFlagNames :: "bsd \<Rightarrow> (string \<times> string) list" where
  "ifaceFlagNames Darwin = ifaceFlagNames_darwin"
| "ifaceFlagNames Dragonfly = ifaceFlagNames_dragonfly"
| "ifaceFlagNames Freebsd = ifaceFlagNames_freebsd"
| "ifaceFlagNames Netbsd = ifaceFlagNames_netbsd"
| "ifaceFlagNames Openbsd = ifaceFlagNames_openbsd"

fun in6_iff :: "bsd \<Rightarrow> (string \<times> int) list" where
  "in6_iff Darwin = in6_iff_darwin"
| "in6_iff Dragonfly = in6_iff_dragonfly"
| "in6_iff Freebsd = in6_iff_freebsd"
| "in6_iff Netbsd = in6_iff_netbsd"
| "in6_iff Openbsd = in6_iff_openbsd"

fun ifaFlags6Names :: "bsd \<Rightarrow> (string \<times> string) list" where
  "ifaFlags6Names Darwin = ifaFlags6Names_darwin"
| "ifaFlags6Names Dragonfly = ifaFlags6Names_dragonfly"
| "ifaFlags6Names Freebsd = ifaFlags6Names_freebsd"
| "ifaFlags6Names Netbsd = ifaFlags6Names_netbsd"
| "ifaFlags6Names Openbsd = ifaFlags6Names_openbsd"

lemmas names_tables =
  rtm_documented_darwin_def rtm_documented_dragonfly_def rtm_documented_freebsd_def
  rtm_documented_netbsd_def rtm_documented_openbsd_def
  iff_documented_darwin_def iff_documented_dragonfly_def iff_documented_freebsd_def
  iff_documented_netbsd_def iff_documented_openbsd_def
  msgTypeNames_darwin_def msgTypeNames_dragonfly_def msgTypeNames_freebsd_def
  msgTypeNames_netbsd_def msgTypeNames_openbsd_def
  routeFlagNames_darwin_def routeFlagNames_dragonfly_def routeFlagNames_freebsd_def
  routeFlagNames_netbsd_def routeFlagNames_openbsd_def
  ifaceFlagNames_darwin_def ifaceFlagNames_dragonfly_def ifaceFlagNames_freebsd_def
  ifaceFlagNames_netbsd_def ifaceFlagNames_openbsd_def
  in6_iff_darwin_def in6_iff_dragonfly_def in6_iff_freebsd_def in6_iff_netbsd_def
  in6_iff_openbsd_def
  ifaFlags6Names_darwin_def ifaFlags6Names_dragonfly_def ifaFlags6Names_freebsd_def
  ifaFlags6Names_netbsd_def ifaFlags6Names_openbsd_def

text \<open>The constants of x/sys/unix have the values that the comments of the files give.\<close>

definition documented :: "bsd \<Rightarrow> unix_env \<Rightarrow> bool" where
  "documented os u \<longleftrightarrow> (\<forall>(n, v) \<in> set (rtm_documented os @ iff_documented os). num u n = v)"

definition documented_env :: "bsd \<Rightarrow> unix_env" where
  "documented_env os =
     \<lparr>num = (\<lambda>n. case map_of (rtm_documented os @ iff_documented os) n of Some v \<Rightarrow> v | None \<Rightarrow> 0),
      off = (\<lambda>_. 0), big_endian = False\<rparr>"

end
