(* ===== verification/Bsd_Flags.thy ===== *)
theory Bsd_Flags
  imports Bsd_Names
begin

text \<open>
  The text of message types and of route, interface and IPv6 address flags: MsgType.String of
  names_*.go and the AppendText and MarshalText methods of route/bsdroute/bsdroute_bsd.go. A
  flag word is 32 bits; an append method returns the extended text and its error.
\<close>

subsection \<open>Definitions\<close>

text \<open>The switch of MsgType.string: the first case whose constant is the value.\<close>

definition MsgType_string :: "unix_env \<Rightarrow> bsd \<Rightarrow> byte \<Rightarrow> string" where
  "MsgType_string u os m =
     (case find (\<lambda>(c, s). num u c = uint m) (msgTypeNames os) of
        Some (c, s) \<Rightarrow> s
      | None \<Rightarrow> itoa (unat m))"

definition flag_mask :: "unix_env \<Rightarrow> string \<Rightarrow> 32 word" where
  "flag_mask u c = word_of_int (num u c)"

fun route_loop :: "unix_env \<Rightarrow> 32 word \<Rightarrow> (string \<times> char) list \<Rightarrow> string \<Rightarrow> string" where
  "route_loop u f [] b = b"
| "route_loop u f ((c, n) # flags) b =
     route_loop u f flags (if f AND flag_mask u c \<noteq> 0 then b @ [n] else b)"

definition RouteFlags_AppendText ::
  "unix_env \<Rightarrow> bsd \<Rightarrow> 32 word \<Rightarrow> string \<Rightarrow> string \<times> string option" where
  "RouteFlags_AppendText u os f b = (route_loop u f (routeFlagNames os) b, None)"

definition RouteFlags_MarshalText :: "unix_env \<Rightarrow> bsd \<Rightarrow> 32 word \<Rightarrow> string \<times> string option" where
  "RouteFlags_MarshalText u os f = RouteFlags_AppendText u os f []"

fun names_loop ::
  "char \<Rightarrow> 32 word \<Rightarrow> (32 word \<times> string) list \<Rightarrow> string \<Rightarrow> string" where
  "names_loop sep f [] b = b"
| "names_loop sep f ((m, n) # flags) b =
     names_loop sep f flags (if f AND m \<noteq> 0 then b @ n @ [sep] else b)"

definition iface_table :: "unix_env \<Rightarrow> bsd \<Rightarrow> (32 word \<times> string) list" where
  "iface_table u os = map (\<lambda>(c, n). (flag_mask u c, n)) (ifaceFlagNames os)"

definition IfaceFlags_AppendText ::
  "unix_env \<Rightarrow> bsd \<Rightarrow> 32 word \<Rightarrow> string \<Rightarrow> string \<times> string option" where
  "IfaceFlags_AppendText u os f b =
     (let bLen = length b;
          b = names_loop (CHR '','') f (iface_table u os) b;
          b = (if length b > bLen then take (length b - 1) b else b)
      in (b, None))"

definition IfaceFlags_MarshalText :: "unix_env \<Rightarrow> bsd \<Rightarrow> 32 word \<Rightarrow> string \<times> string option" where
  "IfaceFlags_MarshalText u os f = IfaceFlags_AppendText u os f []"

text \<open>The masks of the IPv6 address flags are constants of the same file.\<close>

definition ifa6_table :: "bsd \<Rightarrow> (32 word \<times> string) list" where
  "ifa6_table os = map (\<lambda>(c, n). (word_of_int (the (map_of (in6_iff os) c)), n)) (ifaFlags6Names os)"

definition IfaFlags6_AppendText :: "bsd \<Rightarrow> 32 word \<Rightarrow> string \<Rightarrow> string \<times> string option" where
  "IfaFlags6_AppendText os f b =
     (let bLen = length b;
          b = names_loop (CHR '' '') f (ifa6_table os) b;
          b = (if length b > bLen then take (length b - 1) b else b)
      in (b, None))"

definition IfaFlags6_MarshalText :: "bsd \<Rightarrow> 32 word \<Rightarrow> string \<times> string option" where
  "IfaFlags6_MarshalText os f = IfaFlags6_AppendText os f []"

subsection \<open>Splitting text at a separator\<close>

fun fields :: "'a \<Rightarrow> 'a list \<Rightarrow> 'a list list" where
  "fields sep [] = [[]]"
| "fields sep (c # cs) =
     (if c = sep then [] # fields sep cs
      else case fields sep cs of [] \<Rightarrow> [[c]] | w # ws \<Rightarrow> (c # w) # ws)"

lemma fields_nonempty [simp]: "fields sep s \<noteq> []"
  by (cases s) (auto split: list.splits)

lemma fields_word: "sep \<notin> set w \<Longrightarrow> fields sep w = [w]"
  by (induction w) auto

lemma fields_append: "sep \<notin> set w \<Longrightarrow> fields sep (w @ sep # s) = w # fields sep s"
  by (induction w) auto

lemma fields_join:
  assumes "ws \<noteq> []" and "\<forall>w \<in> set ws. sep \<notin> set w"
  shows "fields sep (join [sep] ws) = ws"
  using assms by (induction "[sep]" ws rule: join.induct) (simp_all add: fields_word fields_append)

subsection \<open>Flag names\<close>

definition set_names :: "32 word \<Rightarrow> (32 word \<times> 'n) list \<Rightarrow> 'n list" where
  "set_names f tbl = map snd (filter (\<lambda>(m, n). f AND m \<noteq> 0) tbl)"

lemma set_names_simps [simp]:
  "set_names f [] = []"
  "set_names f ((m, n) # tbl) = (if f AND m \<noteq> 0 then [n] else []) @ set_names f tbl"
  by (simp_all add: set_names_def)

lemma names_loop_eq: "names_loop sep f tbl b = b @ concat (map (\<lambda>n. n @ [sep]) (set_names f tbl))"
  by (induction sep f tbl b rule: names_loop.induct) simp_all

lemma concat_sep: "concat (map (\<lambda>n. n @ [sep]) ns) = (if ns = [] then [] else join [sep] ns @ [sep])"
  by (induction "[sep]" ns rule: join.induct) simp_all

lemma names_loop_trim:
  "(let b' = names_loop sep f tbl b
    in if length b' > length b then take (length b' - 1) b' else b') =
   b @ join [sep] (set_names f tbl)"
  by (simp add: names_loop_eq concat_sep Let_def)

lemma IfaceFlags_AppendText_eq:
  "IfaceFlags_AppendText u os f b = (b @ join '','' (set_names f (iface_table u os)), None)"
  using names_loop_trim [of "CHR '',''" f "iface_table u os" b]
  by (simp add: IfaceFlags_AppendText_def Let_def)

lemma IfaFlags6_AppendText_eq:
  "IfaFlags6_AppendText os f b = (b @ join '' '' (set_names f (ifa6_table os)), None)"
  using names_loop_trim [of "CHR '' ''" f "ifa6_table os" b]
  by (simp add: IfaFlags6_AppendText_def Let_def)

lemma route_loop_eq:
  "route_loop u f tbl b = b @ set_names f (map (\<lambda>(c, n). (flag_mask u c, n)) tbl)"
  by (induction u f tbl b rule: route_loop.induct) (simp_all add: set_names_def)

text \<open>A name is among the names of the set flags exactly when its flag is set.\<close>

lemma set_names_mem:
  assumes "distinct (map snd tbl)" and "(m, n) \<in> set tbl"
  shows "n \<in> set (set_names f tbl) \<longleftrightarrow> f AND m \<noteq> 0"
proof
  assume "n \<in> set (set_names f tbl)"
  then obtain m' where m': "(m', n) \<in> set tbl" "f AND m' \<noteq> 0"
    by (auto simp: set_names_def)
  with assms have "m' = m"
    using inj_on_eq_iff [of snd "set tbl" "(m', n)" "(m, n)"] by (simp add: distinct_map)
  with m' show "f AND m \<noteq> 0" by simp
next
  assume "f AND m \<noteq> 0"
  with assms(2) have "(m, n) \<in> set (filter (\<lambda>(m, n). f AND m \<noteq> 0) tbl)" by simp
  then show "n \<in> set (set_names f tbl)" unfolding set_names_def by (force simp del: set_filter)
qed

lemma set_names_eq_iff:
  assumes "distinct (map snd tbl)"
  shows "set_names f tbl = set_names g tbl \<longleftrightarrow>
    (\<forall>(m, n) \<in> set tbl. (f AND m \<noteq> 0) = (g AND m \<noteq> 0))"
proof
  assume eq: "set_names f tbl = set_names g tbl"
  show "\<forall>(m, n) \<in> set tbl. (f AND m \<noteq> 0) = (g AND m \<noteq> 0)"
  proof (intro ballI, clarify)
    fix m n assume "(m, n) \<in> set tbl"
    from set_names_mem [OF assms this, of f] set_names_mem [OF assms this, of g] eq
    show "(f AND m \<noteq> 0) = (g AND m \<noteq> 0)" by simp
  qed
next
  assume "\<forall>(m, n) \<in> set tbl. (f AND m \<noteq> 0) = (g AND m \<noteq> 0)"
  then have "filter (\<lambda>(m, n). f AND m \<noteq> 0) tbl = filter (\<lambda>(m, n). g AND m \<noteq> 0) tbl"
    by (intro filter_cong) auto
  then show "set_names f tbl = set_names g tbl" by (simp only: set_names_def)
qed

lemma join_names_inject:
  assumes "\<forall>w \<in> set ws. sep \<notin> set w \<and> w \<noteq> []" and "\<forall>w \<in> set vs. sep \<notin> set w \<and> w \<noteq> []"
  shows "join [sep] ws = join [sep] vs \<longleftrightarrow> ws = vs"
proof -
  have inv: "(if join [sep] xs = [] then [] else fields sep (join [sep] xs)) = xs"
    if "\<forall>w \<in> set xs. sep \<notin> set w \<and> w \<noteq> []" for xs
  proof (cases xs)
    case (Cons x xs')
    with that have "fields sep (join [sep] xs) = xs" by (intro fields_join) auto
    moreover have "join [sep] xs \<noteq> []" using that Cons by (cases xs') auto
    ultimately show ?thesis by simp
  qed simp
  from inv [OF assms(1)] inv [OF assms(2)] show ?thesis by metis
qed

subsection \<open>Checks of the tables\<close>

text \<open>The masks of one bit that fit in 32 bits.\<close>

definition single_bits :: "int list" where
  "single_bits =
   [0x1, 0x2, 0x4, 0x8, 0x10, 0x20, 0x40, 0x80, 0x100, 0x200, 0x400, 0x800, 0x1000, 0x2000, 0x4000,
    0x8000, 0x10000, 0x20000, 0x40000, 0x80000, 0x100000, 0x200000, 0x400000, 0x800000, 0x1000000,
    0x2000000, 0x4000000, 0x8000000, 0x10000000, 0x20000000, 0x40000000, 0x80000000]"

lemma single_bits_power: "v \<in> set single_bits \<Longrightarrow> \<exists>k. v = 2 ^ k"
proof -
  have e: "single_bits = map (\<lambda>k. 2 ^ k) [0..<32]" by (simp add: single_bits_def upt_rec)
  show "\<exists>k. v = 2 ^ k" if "v \<in> set single_bits" using that unfolding e by auto
qed

text \<open>The names of a table are distinct, not empty, and free of separators.\<close>

definition good_names :: "char \<Rightarrow> ('a \<times> string) list \<Rightarrow> bool" where
  "good_names sep tbl \<longleftrightarrow> distinct (map snd tbl) \<and>
     list_all (\<lambda>n. n \<noteq> [] \<and> sep \<notin> set n) (map snd tbl)"

lemma good_iface: "good_names (CHR '','') (ifaceFlagNames os)"
  by (cases os) (simp_all add: good_names_def names_tables)

lemma good_ifa6: "good_names (CHR '' '') (ifaFlags6Names os)"
  by (cases os) (simp_all add: good_names_def names_tables)

lemma distinct_route: "distinct (map snd (routeFlagNames os))"
  by (cases os) (simp_all add: names_tables)

lemma msgTypeNames_own: "(c, s) \<in> set (msgTypeNames os) \<Longrightarrow> s = c \<and> hd s = CHR ''R'' \<and> s \<noteq> []"
  by (cases os) (auto simp: names_tables)

lemma rtm_documented_distinct:
  "distinct (map fst (rtm_documented os)) \<and> distinct (map snd (rtm_documented os)) \<and>
   map fst (msgTypeNames os) = map fst (rtm_documented os) \<and>
   list_all (\<lambda>(n, v). 0 \<le> v \<and> v < 256) (rtm_documented os)"
  by (cases os) (simp_all add: names_tables)

lemma documentedD:
  assumes "documented os u" and "(n, v) \<in> set (rtm_documented os @ iff_documented os)"
  shows "num u n = v"
  using bspec [OF assms(1) [unfolded documented_def] assms(2)] by simp

text \<open>Every mask is a single bit, or the union of single-bit masks of the table.\<close>

definition bits_named :: "int list \<Rightarrow> bool" where
  "bits_named vs \<longleftrightarrow> list_all (\<lambda>v. v \<in> set single_bits \<or>
     v = foldr (OR) (filter (\<lambda>w. w \<in> set single_bits \<and> w AND v = w) vs) 0) vs"

lemma bits_namedD:
  assumes "bits_named vs" and "v \<in> set vs" and "bit v k"
  shows "2 ^ k \<in> set vs"
proof -
  have union: "\<exists>w \<in> set ws. bit w k" if "bit (foldr (OR) ws (0 :: int)) k" for ws
    using that by (induction ws) (auto simp: bit_simps)
  have power: "w = 2 ^ k" if "w \<in> set single_bits" "bit w k" for w :: int
    using single_bits_power [OF that(1)] that(2) by (auto simp: bit_simps)
  from assms(1,2) consider "v \<in> set single_bits"
    | "v = foldr (OR) (filter (\<lambda>w. w \<in> set single_bits \<and> w AND v = w) vs) 0"
    by (auto simp: bits_named_def list_all_iff)
  then show ?thesis
  proof cases
    case 1
    with power assms(2,3) show ?thesis by metis
  next
    case 2
    with assms(3) have "bit (foldr (OR) (filter (\<lambda>w. w \<in> set single_bits \<and> w AND v = w) vs) 0) k"
      by metis
    from union [OF this] obtain w where "w \<in> set vs" "w \<in> set single_bits" "bit w k" by auto
    with power show ?thesis by metis
  qed
qed

text \<open>The values of the masks of the two tables, in their order.\<close>

fun iface_masks :: "bsd \<Rightarrow> int list" where
  "iface_masks Darwin = [0x1, 0x2, 0x4, 0x8, 0x10, 0x20, 0x40, 0x80, 0x100, 0x200, 0x400,
     0x800, 0x1000, 0x2000, 0x4000, 0x8000]"
| "iface_masks Dragonfly = [0x1, 0x2, 0x4, 0x8, 0x10, 0x20, 0x40, 0x80, 0x100, 0x200, 0x400,
     0x800, 0x1000, 0x2000, 0x4000, 0x8000, 0x10000, 0x20000, 0x40000, 0x80000, 0x100000,
     0x200000]"
| "iface_masks Freebsd = [0x1, 0x2, 0x4, 0x8, 0x10, 0x40, 0x80, 0x100, 0x200, 0x400, 0x800,
     0x1000, 0x2000, 0x4000, 0x8000, 0x10000, 0x20000, 0x40000, 0x80000, 0x200000,
     0x400000, 0x800000]"
| "iface_masks Netbsd = [0x1, 0x2, 0x4, 0x8, 0x10, 0x20, 0x40, 0x80, 0x100, 0x200, 0x400,
     0x800, 0x1000, 0x2000, 0x4000, 0x8000]"
| "iface_masks Openbsd = [0x1, 0x2, 0x4, 0x8, 0x10, 0x20, 0x40, 0x80, 0x100, 0x200, 0x400,
     0x800, 0x1000, 0x2000, 0x4000, 0x8000, 0x8e52]"

fun ifa6_masks :: "bsd \<Rightarrow> int list" where
  "ifa6_masks Darwin = [0x1, 0x2, 0x4, 0x8, 0x10, 0x20, 0x40, 0x80, 0x100, 0x200, 0x400,
     0x1000, 0x8000]"
| "ifa6_masks Dragonfly = [0x1, 0x2, 0x4, 0x8, 0x10, 0x20, 0x40, 0x80, 0x8000]"
| "ifa6_masks Freebsd = [0x1, 0x2, 0x4, 0x8, 0x10, 0x20, 0x40, 0x80, 0x100]"
| "ifa6_masks Netbsd = [0x1, 0x2, 0x4, 0x8, 0x10, 0x20, 0x40, 0x80]"
| "ifa6_masks Openbsd = [0x1, 0x2, 0x4, 0x8, 0x10, 0x40, 0x80]"

lemma iface_masks:
  "map (\<lambda>(c, n). map_of (iff_documented os) c) (ifaceFlagNames os) = map Some (iface_masks os)"
  by (rule bsd.induct) code_simp+

lemma ifa6_masks: "map (\<lambda>(c, n). the (map_of (in6_iff os) c)) (ifaFlags6Names os) = ifa6_masks os"
  by (rule bsd.induct) code_simp+

lemma bits_named_masks: "bits_named (iface_masks os)" "bits_named (ifa6_masks os)"
  by (rule bsd.induct; code_simp)+

lemma iface_table_masks:
  assumes "documented os u"
  shows "map fst (iface_table u os) = map word_of_int (iface_masks os)"
proof -
  have mask: "word_of_int (the (map_of (iff_documented os) c)) = flag_mask u c"
    if "map_of (iff_documented os) c = Some v" for c v
    using documentedD [OF assms, of c v] map_of_SomeD [OF that] that by (simp add: flag_mask_def)
  have "\<exists>v. map_of (iff_documented os) c = Some v" if "(c, n) \<in> set (ifaceFlagNames os)" for c n
  proof -
    from that have "map_of (iff_documented os) c
        \<in> set (map (\<lambda>(c, n). map_of (iff_documented os) c) (ifaceFlagNames os))"
      by force
    then show ?thesis unfolding iface_masks by auto
  qed
  with mask have "map fst (iface_table u os) =
      map (\<lambda>c. word_of_int (the c)) (map (\<lambda>(c, n). map_of (iff_documented os) c) (ifaceFlagNames os))"
    by (auto simp: iface_table_def)
  then show ?thesis unfolding iface_masks by simp
qed

lemma iface_table_eq:
  assumes "documented os u"
  shows "iface_table u os = zip (map word_of_int (iface_masks os)) (map snd (ifaceFlagNames os))"
proof -
  have "map snd (iface_table u os) = map snd (ifaceFlagNames os)"
    by (auto simp: iface_table_def)
  then show ?thesis
    using iface_table_masks [OF assms] zip_map_fst_snd [of "iface_table u os"] by metis
qed

lemma documented_env: "documented os (documented_env os)"
proof -
  have "distinct (map fst (rtm_documented os @ iff_documented os))"
    by (rule bsd.induct) code_simp+
  then show ?thesis
    by (auto simp: documented_def documented_env_def simp del: map_of_append
        dest!: map_of_is_SomeI simp flip: map_append)
qed

lemma ifa6_table_masks: "map fst (ifa6_table os) = map word_of_int (ifa6_masks os)"
  unfolding ifa6_masks [symmetric] by (auto simp: ifa6_table_def)

lemma same_names_iff:
  fixes tbl :: "(32 word \<times> string) list"
  assumes d: "distinct (map snd tbl)" and vs: "map fst tbl = map word_of_int vs" "bits_named vs"
  shows "set_names f tbl = set_names g tbl \<longleftrightarrow> (\<forall>(m, n) \<in> set tbl. f AND m = g AND m)"
proof
  assume eq: "set_names f tbl = set_names g tbl"
  have bits: "bit f k = bit g k" if k: "bit m k" and m: "m \<in> set (map fst tbl)" for m k
  proof -
    from m vs obtain v where v: "v \<in> set vs" "m = word_of_int v" by auto
    from k v have "k < 32" "bit v k" by (auto simp: bit_word_of_int_iff)
    with vs v have "2 ^ k \<in> set vs" by (blast intro: bits_namedD)
    then have "(word_of_int (2 ^ k) :: 32 word) \<in> set (map fst tbl)"
      unfolding vs(1) set_map by (rule imageI)
    then have "2 ^ k \<in> set (map fst tbl)" by simp
    then obtain n where "(2 ^ k, n) \<in> set tbl" by auto
    with eq d have "(f AND 2 ^ k \<noteq> 0) = (g AND 2 ^ k \<noteq> 0)"
      by (auto simp: set_names_eq_iff)
    moreover have "(h AND 2 ^ k \<noteq> 0) = bit h k" for h :: "32 word"
      using \<open>k < 32\<close> by (simp add: and_exp_eq_0_iff_not_bit)
    ultimately show ?thesis by simp
  qed
  show "\<forall>(m, n) \<in> set tbl. f AND m = g AND m"
  proof (intro ballI, clarify)
    fix m n assume "(m, n) \<in> set tbl"
    then have "m \<in> set (map fst tbl)" by force
    with bits show "f AND m = g AND m" by (intro bit_eqI) (auto simp: bit_simps)
  qed
next
  assume "\<forall>(m, n) \<in> set tbl. f AND m = g AND m"
  then show "set_names f tbl = set_names g tbl" by (auto simp: set_names_eq_iff [OF d])
qed

subsection \<open>Properties\<close>

lemma iface_names_good:
  "distinct (map snd (iface_table u os))"
  "\<forall>w \<in> set (set_names f (iface_table u os)). CHR '','' \<notin> set w \<and> w \<noteq> []"
  using good_iface [of os]
  by (auto simp: good_names_def iface_table_def set_names_def list_all_iff o_def
      case_prod_beta)

lemma ifa6_names_good:
  "distinct (map snd (ifa6_table os))"
  "\<forall>w \<in> set (set_names f (ifa6_table os)). CHR '' '' \<notin> set w \<and> w \<noteq> []"
  using good_ifa6 [of os]
  by (auto simp: good_names_def ifa6_table_def set_names_def list_all_iff o_def
      case_prod_beta)

lemma itoa_head: "hd (itoa n) \<noteq> CHR ''R''"
proof (induction n rule: itoa.induct)
  case (1 n)
  show ?case
  proof (cases "n < 10")
    case True
    then have "n \<in> {0, 1, 2, 3, 4, 5, 6, 7, 8, 9}" by auto
    then show ?thesis by (auto simp: itoa.simps [of n] digit_def)
  next
    case False
    with 1 show ?thesis by (simp add: itoa.simps [of n])
  qed
qed

lemma MsgType_string_cases:
  obtains (named) c where "MsgType_string u os m = c" "num u c = uint m" "hd c = CHR ''R''"
  | (number) "MsgType_string u os m = itoa (unat m)"
      "\<forall>(c, s) \<in> set (msgTypeNames os). num u c \<noteq> uint m"
proof (cases "find (\<lambda>(c, s). num u c = uint m) (msgTypeNames os)")
  case None
  then have "MsgType_string u os m = itoa (unat m)" by (simp add: MsgType_string_def)
  with None show ?thesis by (intro number) (auto simp: find_None_iff)
next
  case (Some r)
  obtain c s where r: "r = (c, s)" by (cases r)
  with Some have "num u c = uint m" "(c, s) \<in> set (msgTypeNames os)"
    by (auto simp: find_Some_iff) (metis nth_mem)
  with Some r msgTypeNames_own [of c s os] show ?thesis
    by (intro named [of c]) (auto simp: MsgType_string_def)
qed

text \<open>
  Different message types have different strings, on every system and whatever the values of
  the constants.
\<close>

theorem msgtype_string_injective:
  "MsgType_string u os m = MsgType_string u os m' \<longleftrightarrow> m = m'"
proof
  assume eq: "MsgType_string u os m = MsgType_string u os m'"
  show "m = m'"
    by (rule MsgType_string_cases [of u os m]; rule MsgType_string_cases [of u os m'])
      (use eq in \<open>auto simp: itoa_head intro: word_uint_eqI dest: arg_cong [of _ _ hd]
          unsigned_word_eqI\<close>)
qed simp

text \<open>
  With the documented values of the constants, a documented message type is printed as the
  name of its constant and every other type as its number.
\<close>

theorem msgtype_string_documented:
  assumes "documented os u"
  shows "MsgType_string u os m =
    (case find (\<lambda>(n, v). v = uint m) (rtm_documented os) of
       Some (n, v) \<Rightarrow> n | None \<Rightarrow> itoa (unat m))"
proof -
  have "find (\<lambda>(c, s). num u c = uint m) (map (\<lambda>(n, v). (n, n)) tbl) =
      map_option (\<lambda>(n, v). (n, n)) (find (\<lambda>(n, v). v = uint m) tbl)"
    if "\<forall>(n, v) \<in> set tbl. num u n = v" for tbl
    using that by (induction tbl) auto
  moreover have "msgTypeNames os = map (\<lambda>(n, v). (n, n)) (rtm_documented os)"
    by (cases os) (simp_all add: names_tables)
  moreover have "\<forall>(n, v) \<in> set (rtm_documented os). num u n = v"
    using assms by (auto simp: documented_def)
  ultimately show ?thesis
    by (simp add: MsgType_string_def option.case_eq_if case_prod_beta split_beta option.map_sel)
qed

theorem msgtype_string_documented_witness:
  "MsgType_string (documented_env Netbsd) Netbsd 0x14 = ''RTM_IFINFO'' \<and>
   MsgType_string (documented_env Netbsd) Netbsd 200 = ''200''"
proof -
  show ?thesis
    using msgtype_string_documented [OF documented_env, where os = Netbsd]
    by (simp add: rtm_documented_netbsd_def itoa.simps digit_def)
qed

text \<open>
  C31. The text of interface flags is the names of the set flags in the order of the table, joined
  by commas and appended to the buffer, and splitting it at commas gives the names back; the same
  for IPv6 address flags with spaces; the text of route flags is the letters of the set flags.
  No method reports an error.
\<close>

theorem flags_text:
  "IfaceFlags_AppendText u os f b =
     (b @ join '','' [n. (c, n) \<leftarrow> ifaceFlagNames os, f AND flag_mask u c \<noteq> 0], None) \<and>
   (let ns = [n. (c, n) \<leftarrow> ifaceFlagNames os, f AND flag_mask u c \<noteq> 0]
    in fields (CHR '','') (fst (IfaceFlags_MarshalText u os f)) = (if ns = [] then [[]] else ns)) \<and>
   IfaFlags6_AppendText os f b =
     (b @ join '' '' [n. (m, n) \<leftarrow> ifa6_table os, f AND m \<noteq> 0], None) \<and>
   (let ns = [n. (m, n) \<leftarrow> ifa6_table os, f AND m \<noteq> 0]
    in fields (CHR '' '') (fst (IfaFlags6_MarshalText os f)) = (if ns = [] then [[]] else ns)) \<and>
   RouteFlags_AppendText u os f b =
     (b @ [n. (c, n) \<leftarrow> routeFlagNames os, f AND flag_mask u c \<noteq> 0], None)"
proof -
  have conc: "set_names f (map (\<lambda>(c, n). (flag_mask u c, n)) t) =
      [n. (c, n) \<leftarrow> t, f AND flag_mask u c \<noteq> 0]" for t :: "(string \<times> 'n) list"
    by (induction t) auto
  have conc6: "set_names f t = [n. (m, n) \<leftarrow> t, f AND m \<noteq> 0]" for t :: "(32 word \<times> string) list"
    by (induction t) auto
  have split_back: "fields sep (join [sep] ns) = (if ns = [] then [[]] else ns)"
    if "\<forall>w \<in> set ns. sep \<notin> set w \<and> w \<noteq> []" for sep :: char and ns
    using that fields_join [of ns sep] by simp
  have i: "IfaceFlags_AppendText u os f b' =
      (b' @ join '','' [n. (c, n) \<leftarrow> ifaceFlagNames os, f AND flag_mask u c \<noteq> 0], None)" for b'
    by (simp add: IfaceFlags_AppendText_eq iface_table_def conc)
  have i6: "IfaFlags6_AppendText os f b' =
      (b' @ join '' '' [n. (m, n) \<leftarrow> ifa6_table os, f AND m \<noteq> 0], None)" for b'
    by (simp only: IfaFlags6_AppendText_eq conc6)
  have r: "RouteFlags_AppendText u os f b =
     (b @ [n. (c, n) \<leftarrow> routeFlagNames os, f AND flag_mask u c \<noteq> 0], None)"
    by (simp add: RouteFlags_AppendText_def route_loop_eq conc)
  note names = split_back [OF iface_names_good(2) [of f u os, unfolded iface_table_def conc]]
    split_back [OF ifa6_names_good(2) [of f os, unfolded conc6]]
  show ?thesis
    unfolding IfaceFlags_MarshalText_def IfaFlags6_MarshalText_def i i6 r Let_def
    using names by simp
qed

text \<open>
  With the documented values of the constants, two interface flag words have the same text
  exactly when they agree on every flag of the table, all bits of composite masks included; the
  same for IPv6 address flags, whose values the program declares itself.
\<close>

theorem flags_text_injective:
  assumes "documented os u"
  shows "(IfaceFlags_MarshalText u os f = IfaceFlags_MarshalText u os g \<longleftrightarrow>
      (\<forall>(m, n) \<in> set (iface_table u os). f AND m = g AND m)) \<and>
    (IfaFlags6_MarshalText os f = IfaFlags6_MarshalText os g \<longleftrightarrow>
      (\<forall>(m, n) \<in> set (ifa6_table os). f AND m = g AND m))"
proof (intro conjI)
  show "IfaceFlags_MarshalText u os f = IfaceFlags_MarshalText u os g \<longleftrightarrow>
      (\<forall>(m, n) \<in> set (iface_table u os). f AND m = g AND m)"
    using join_names_inject [OF iface_names_good(2) [of f u os] iface_names_good(2) [of g u os]]
      same_names_iff [OF iface_names_good(1) iface_table_masks [OF assms] bits_named_masks(1)]
    by (simp add: IfaceFlags_MarshalText_def IfaceFlags_AppendText_eq)
  show "IfaFlags6_MarshalText os f = IfaFlags6_MarshalText os g \<longleftrightarrow>
      (\<forall>(m, n) \<in> set (ifa6_table os). f AND m = g AND m)"
    using join_names_inject [OF ifa6_names_good(2) [of f os] ifa6_names_good(2) [of g os]]
      same_names_iff [OF ifa6_names_good(1) ifa6_table_masks bits_named_masks(2)]
    by (simp add: IfaFlags6_MarshalText_def IfaFlags6_AppendText_eq)
qed

theorem flags_text_injective_witness:
  "IfaFlags6_MarshalText Freebsd 0x40 \<noteq> IfaFlags6_MarshalText Freebsd 0x80 \<and>
   IfaFlags6_MarshalText Freebsd 0x200 = IfaFlags6_MarshalText Freebsd 0"
proof -
  note doc = documented_env [of Freebsd]
  show ?thesis
    using flags_text_injective [OF doc, where f = "0x40" and g = "0x80"]
      flags_text_injective [OF doc, where f = "0x200" and g = 0]
    by (simp add: ifa6_table_def in6_iff_freebsd_def ifaFlags6Names_freebsd_def)
qed

text \<open>
  On OpenBSD the table has the composite constant IFF_CANTCHANGE, and the test against it
  holds as soon as one of its bits is set: with the documented values, an interface with nothing
  but IFF_RUNNING set is printed as able to change nothing.
\<close>

theorem openbsd_cantchange_spurious:
  assumes "documented Openbsd u"
  shows "IfaceFlags_MarshalText u Openbsd 0x40 = (''RUNNING,CANTCHANGE'', None) \<and>
    (IfaceFlags_MarshalText u Openbsd f = ([], None) \<or>
     (''CANTCHANGE'' \<in> set (fields (CHR '','') (fst (IfaceFlags_MarshalText u Openbsd f)))
        \<longleftrightarrow> f AND 0x8e52 \<noteq> 0))"
proof -
  note m = iface_table_eq [OF assms]
  have c: "(0x8e52, ''CANTCHANGE'') \<in> set (iface_table u Openbsd)"
    unfolding m by (simp add: ifaceFlagNames_openbsd_def)
  have r: "set_names 0x40 (iface_table u Openbsd) = [''RUNNING'', ''CANTCHANGE'']"
    unfolding m by (simp add: ifaceFlagNames_openbsd_def)
  let ?ns = "set_names f (iface_table u Openbsd)"
  have "''CANTCHANGE'' \<in> set ?ns \<longleftrightarrow> f AND 0x8e52 \<noteq> 0"
    using set_names_mem [OF iface_names_good(1) c] .
  moreover have "?ns = [] \<or> fields (CHR '','') (join '','' ?ns) = ?ns"
    using fields_join [of ?ns "CHR '',''"] iface_names_good(2) [of f u Openbsd] by auto
  ultimately show ?thesis
    by (auto simp: IfaceFlags_MarshalText_def IfaceFlags_AppendText_eq r)
qed

theorem openbsd_cantchange_spurious_witness:
  "IfaceFlags_MarshalText (documented_env Openbsd) Openbsd 0x40 = (''RUNNING,CANTCHANGE'', None)"
  using openbsd_cantchange_spurious [OF documented_env] by simp

end
