(* ===== verification/Bsd_Route.thy ===== *)
theory Bsd_Route
  imports Bsd_Flags
begin

text \<open>
  route/bsdroute: reading sockaddr structures out of a routing message (ParseAddrs, RtaAlign,
  AddrsBuf), the sysctl retry loop, the sockets and the ioctl for IPv6 address flags.

  Memory that the code reads through pointers is the byte list \<open>mem\<close>, a pointer is an
  offset into it and a slice an offset with a length; reading outside \<open>mem\<close> is
  \<open>None\<close>. The kernel is a parameter: its calls take and return a state \<open>'k\<close>.
\<close>

subsection \<open>Memory\<close>

definition rd :: "byte list \<Rightarrow> nat \<Rightarrow> nat \<Rightarrow> byte list option" where
  "rd mem i n = (if i + n \<le> length mem then Some (take n (drop i mem)) else None)"

definition native :: "unix_env \<Rightarrow> byte list \<Rightarrow> 64 word" where
  "native u bs = of_be (if big_endian u then bs else rev bs)"

definition rd8 :: "byte list \<Rightarrow> nat \<Rightarrow> byte option" where
  "rd8 mem i = (if i < length mem then Some (mem ! i) else None)"

definition rd16 :: "unix_env \<Rightarrow> byte list \<Rightarrow> nat \<Rightarrow> 16 word option" where
  "rd16 u mem i = map_option (\<lambda>bs. ucast (native u bs)) (rd mem i 2)"

definition rd32 :: "unix_env \<Rightarrow> byte list \<Rightarrow> nat \<Rightarrow> 32 word option" where
  "rd32 u mem i = map_option (\<lambda>bs. ucast (native u bs)) (rd mem i 4)"

definition bytes_of :: "string \<Rightarrow> byte list" where
  "bytes_of s = map (\<lambda>c. of_nat (of_char c)) s"

definition string_of :: "byte list \<Rightarrow> string" where
  "string_of bs = map (\<lambda>b. char_of (unat b)) bs"

definition usize :: "unix_env \<Rightarrow> string \<Rightarrow> nat" where
  "usize u c = nat (num u c)"

subsection \<open>Message headers\<close>

text \<open>rta\_align\_4.go, rta\_align\_8.go and rta\_align\_ptr.go.\<close>

fun rtaAlignTo :: "unix_env \<Rightarrow> bsd \<Rightarrow> byte" where
  "rtaAlignTo u Darwin = 4"
| "rtaAlignTo u Netbsd = 8"
| "rtaAlignTo u _ = word_of_int (num u ''SizeofPtr'')"

text \<open>The two variants of msghdr: only OpenBSD has a header length in the header.\<close>

fun SizeofMsghdr :: "bsd \<Rightarrow> nat" where
  "SizeofMsghdr Openbsd = 6"
| "SizeofMsghdr _ = 4"

record Msghdr =
  Msglen :: "16 word"
  Version :: byte
  mType :: byte
  Hdrlen :: "16 word option"

definition msghdr_at :: "unix_env \<Rightarrow> bsd \<Rightarrow> byte list \<Rightarrow> nat \<Rightarrow> Msghdr option" where
  "msghdr_at u os mem i = do {
     l \<leftarrow> rd16 u mem i;
     v \<leftarrow> rd8 mem (i + 2);
     t \<leftarrow> rd8 mem (i + 3);
     h \<leftarrow> (if os = Openbsd then map_option Some (rd16 u mem (i + 4)) else Some None);
     Some \<lparr>Msglen = l, Version = v, mType = t, Hdrlen = h\<rparr> }"

text \<open>Without the field, HeaderLen panics.\<close>

definition HeaderLen :: "Msghdr \<Rightarrow> 16 word option" where
  "HeaderLen m = Hdrlen m"

text \<open>The result is the slice from the end of the header, or not ok (\<open>Some None\<close>).\<close>

definition AddrsBuf :: "Msghdr \<Rightarrow> nat \<times> nat \<Rightarrow> nat \<Rightarrow> (nat \<times> nat) option option" where
  "AddrsBuf m msgBuf hdrlen = (case Hdrlen m of
     Some h \<Rightarrow>
       if unat h > snd msgBuf then Some None
       else Some (Some (fst msgBuf + unat h, snd msgBuf - unat h))
   | None \<Rightarrow>
       if hdrlen > snd msgBuf then None
       else Some (Some (fst msgBuf + hdrlen, snd msgBuf - hdrlen)))"

subsection \<open>Addresses\<close>

definition RtaAlign :: "byte \<Rightarrow> byte \<Rightarrow> byte" where
  "RtaAlign rta n = (if n = 0 then rta else (n + rta - 1) AND NOT (rta - 1))"

fun ParseAddrs_loop ::
  "unix_env \<Rightarrow> bsd \<Rightarrow> byte list \<Rightarrow> 32 word \<Rightarrow> nat list \<Rightarrow> nat option list \<Rightarrow> nat \<times> nat \<Rightarrow>
   nat option list option" where
  "ParseAddrs_loop u os mem addrs [] dst b = Some dst"
| "ParseAddrs_loop u os mem addrs (i # is) dst (p, n) =
     (if addrs AND push_bit i 1 = 0 then ParseAddrs_loop u os mem addrs is dst (p, n)
      else
        let dst = (if n \<ge> usize u ''SizeofSockaddrInet4'' then dst[i := Some p] else dst)
        in if n = 0 then Some dst
           else do {
             b0 \<leftarrow> rd8 mem p;
             let alignedLen = unat (RtaAlign (rtaAlignTo u os) b0);
             if n < alignedLen then Some dst
             else ParseAddrs_loop u os mem addrs is dst (p + alignedLen, n - alignedLen) })"

definition ParseAddrs ::
  "unix_env \<Rightarrow> bsd \<Rightarrow> byte list \<Rightarrow> nat option list \<Rightarrow> nat \<times> nat \<Rightarrow> 32 word \<Rightarrow> nat option list option" where
  "ParseAddrs u os mem dst b addrs =
     ParseAddrs_loop u os mem addrs [0..<usize u ''RTAX_MAX''] dst b"

subsection \<open>Kernel calls\<close>

datatype errno = ENOMEM | Errno int

text \<open>An error of os.NewSyscallError.\<close>

type_synonym syscall_error = "string \<times> errno"

text \<open>
  The two uses of sysctl: with no buffer it answers the size, with a buffer of a given capacity
  it answers the bytes it wrote.
\<close>

record 'k sysctl_ops =
  sysctl_size :: "int list \<Rightarrow> 'k \<Rightarrow> (errno + nat) \<times> 'k"
  sysctl_data :: "int list \<Rightarrow> nat \<Rightarrow> 'k \<Rightarrow> (errno + byte list) \<times> 'k"
  grown_cap :: "nat \<Rightarrow> nat \<Rightarrow> nat"

text \<open>slices.Grow on a slice of length zero, as the capacity of the result.\<close>

definition Grow :: "'k sysctl_ops \<Rightarrow> nat \<Rightarrow> nat \<Rightarrow> nat" where
  "Grow ops c n = (if n \<le> c then c else grown_cap ops c n)"

text \<open>
  One pass of the loop from capacity \<open>c\<close>: \<open>Inl\<close> the capacity of the next pass,
  \<open>Inr\<close> the result. With no capacity the pointer is nil, so the second call only asks
  for the size again, and slicing to a size that is not zero panics.
\<close>

definition sysctl_pass ::
  "'k sysctl_ops \<Rightarrow> int list \<Rightarrow> nat \<Rightarrow> 'k \<Rightarrow>
   (nat + (syscall_error + byte list)) option \<times> 'k" where
  "sysctl_pass ops mib c k =
     (case sysctl_size ops mib k of
        (Inl err, k) \<Rightarrow> (Some (Inr (Inl (''sysctl'', err))), k)
      | (Inr n, k) \<Rightarrow>
          let c = Grow ops c n in
          if c = 0 then
            (case sysctl_size ops mib k of
               (Inl err, k) \<Rightarrow>
                 if err = ENOMEM then (Some (Inl c), k)
                 else (Some (Inr (Inl (''sysctl'', err))), k)
             | (Inr n, k) \<Rightarrow> if n = 0 then (Some (Inr (Inr [])), k) else (None, k))
          else
            (case sysctl_data ops mib c k of
               (Inl err, k) \<Rightarrow>
                 if err = ENOMEM then (Some (Inl c), k)
                 else (Some (Inr (Inl (''sysctl'', err))), k)
             | (Inr bs, k) \<Rightarrow> if length bs > c then (None, k) else (Some (Inr (Inr bs)), k)))"

partial_function (option) sysctl_loop ::
  "'k sysctl_ops \<Rightarrow> int list \<Rightarrow> nat \<Rightarrow> 'k \<Rightarrow> ((syscall_error + byte list) \<times> 'k) option" where
  "sysctl_loop ops mib c k =
     (case sysctl_pass ops mib c k of
        (None, k) \<Rightarrow> None
      | (Some r, k) \<Rightarrow> (case r of Inl c \<Rightarrow> sysctl_loop ops mib c k | Inr res \<Rightarrow> Some (res, k)))"

definition SysctlGetBytes ::
  "'k sysctl_ops \<Rightarrow> int list \<Rightarrow> 'k \<Rightarrow> ((syscall_error + byte list) \<times> 'k) option" where
  "SysctlGetBytes ops mib k = sysctl_loop ops mib 0 k"

record 'k sock_ops =
  sys_socket :: "int \<Rightarrow> int \<Rightarrow> int \<Rightarrow> 'k \<Rightarrow> (errno + int) \<times> 'k"
  sys_CloseOnExec :: "int \<Rightarrow> 'k \<Rightarrow> 'k"
  sys_SetNonblock :: "int \<Rightarrow> bool \<Rightarrow> 'k \<Rightarrow> errno option \<times> 'k"
  sys_Close :: "int \<Rightarrow> 'k \<Rightarrow> 'k"
  ForkLock_RLock :: "'k \<Rightarrow> 'k"
  ForkLock_RUnlock :: "'k \<Rightarrow> 'k"

text \<open>sock\_cloexec.go.\<close>

definition Socket_cloexec ::
  "unix_env \<Rightarrow> 'k sock_ops \<Rightarrow> int \<Rightarrow> int \<Rightarrow> int \<Rightarrow> 'k \<Rightarrow> (syscall_error + int) \<times> 'k" where
  "Socket_cloexec u ops domain typ proto k =
     (case sys_socket ops domain (typ OR num u ''SOCK_NONBLOCK'' OR num u ''SOCK_CLOEXEC'') proto k of
        (Inl err, k) \<Rightarrow> (Inl (''socket'', err), k)
      | (Inr fd, k) \<Rightarrow> (Inr fd, k))"

text \<open>sys\_cloexec.go.\<close>

definition Socket_darwin ::
  "'k sock_ops \<Rightarrow> int \<Rightarrow> int \<Rightarrow> int \<Rightarrow> 'k \<Rightarrow> (syscall_error + int) \<times> 'k" where
  "Socket_darwin ops domain typ proto k =
     (let (r, k) = sys_socket ops domain typ proto (ForkLock_RLock ops k);
          k = (case r of Inr fd \<Rightarrow> sys_CloseOnExec ops fd k | Inl err \<Rightarrow> k);
          k = ForkLock_RUnlock ops k
      in case r of
           Inl err \<Rightarrow> (Inl (''socket'', err), k)
         | Inr fd \<Rightarrow>
             (case sys_SetNonblock ops fd True k of
                (Some err, k) \<Rightarrow> (Inl (''setnonblock'', err), sys_Close ops fd k)
              | (None, k) \<Rightarrow> (Inr fd, k)))"

fun Socket ::
  "unix_env \<Rightarrow> bsd \<Rightarrow> 'k sock_ops \<Rightarrow> int \<Rightarrow> int \<Rightarrow> int \<Rightarrow> 'k \<Rightarrow> (syscall_error + int) \<times> 'k" where
  "Socket u Darwin ops domain typ proto k = Socket_darwin ops domain typ proto k"
| "Socket u _ ops domain typ proto k = Socket_cloexec u ops domain typ proto k"

text \<open>The file is the descriptor with its name.\<close>

definition OpenRoutingSocket ::
  "unix_env \<Rightarrow> bsd \<Rightarrow> 'k sock_ops \<Rightarrow> 'k \<Rightarrow> (syscall_error + (int \<times> string)) \<times> 'k" where
  "OpenRoutingSocket u os ops k =
     (case Socket u os ops (num u ''AF_ROUTE'') (num u ''SOCK_RAW'') (num u ''AF_UNSPEC'') k of
        (Inl err, k) \<Rightarrow> (Inl err, k)
      | (Inr fd, k) \<Rightarrow> (Inr (fd, ''route''), k))"

definition SIOCGIFAFLAG_IN6 :: int where
  "SIOCGIFAFLAG_IN6 = 0xc1206949"

text \<open>copy into a slice: the bytes that fit, the rest of the slice kept.\<close>

definition copy_into :: "'a list \<Rightarrow> 'a list \<Rightarrow> 'a list" where
  "copy_into dst src = take (length dst) src @ drop (length src) dst"

text \<open>inet6Ifreq as its bytes: the name and then the union.\<close>

definition inet6Ifreq :: "unix_env \<Rightarrow> string \<Rightarrow> byte list \<Rightarrow> byte list" where
  "inet6Ifreq u name sa =
     copy_into (replicate (usize u ''IFNAMSIZ'') 0) (bytes_of name) @ copy_into (replicate 272 0) sa"

text \<open>
  \<open>sa\<close> is the sockaddr that the pointer points to; ioctlPtr answers an error or the
  structure it leaves behind, and the flags are its first four bytes after the name.
\<close>

definition IoctlGetIfaFlagInet6 ::
  "unix_env \<Rightarrow> (int \<Rightarrow> int \<Rightarrow> byte list \<Rightarrow> errno + byte list) \<Rightarrow> int \<Rightarrow> string \<Rightarrow> byte list \<Rightarrow>
   syscall_error + 32 word" where
  "IoctlGetIfaFlagInet6 u ioctlPtr fd name sa =
     (let ifr = inet6Ifreq u name sa
      in case ioctlPtr fd SIOCGIFAFLAG_IN6 ifr of
           Inl err \<Rightarrow> Inl (''ioctl'', err)
         | Inr ifr' \<Rightarrow> Inr (ucast (native u (take 4 (drop (usize u ''IFNAMSIZ'') ifr')))))"

end
