(* ===== verification/Netip_Text.thy ===== *)
theory Netip_Text
  imports Netip
begin

text \<open>
  The text forms of net/netip: String, AppendTo and MarshalText of addresses, address-port pairs
  and prefixes. Text is a list of bytes written as characters.
\<close>

subsection \<open>Addresses\<close>

definition addr4_bytes :: "Addr \<Rightarrow> nat list" where
  "addr4_bytes ip = map (\<lambda>i. unat (drop_bit (24 - 8 * i) (lo ip) AND 0xff)) [0..<4]"

definition addr4_text :: "Addr \<Rightarrow> string" where
  "addr4_text ip = join ''.'' (map itoa (addr4_bytes ip))"

definition v6u16 :: "Addr \<Rightarrow> nat \<Rightarrow> nat" where
  "v6u16 ip i = unat (drop_bit (16 * (3 - i mod 4)) (if i < 4 then hi ip else lo ip) AND 0xffff)"

definition v6groups :: "Addr \<Rightarrow> nat list" where
  "v6groups ip = map (v6u16 ip) [0..<8]"

text \<open>The first longest run of at least two zero groups, as its start and end.\<close>

definition zero_run :: "nat list \<Rightarrow> nat \<Rightarrow> nat" where
  "zero_run gs i = length (takeWhile (\<lambda>g. g = 0) (drop i gs))"

definition best_run :: "nat list \<Rightarrow> (nat \<times> nat) option" where
  "best_run gs = foldl (\<lambda>best i.
     let l = zero_run gs i; len = (case best of None \<Rightarrow> 0 | Some (a, b) \<Rightarrow> b - a)
     in if 2 \<le> l \<and> len < l then Some (i, i + l) else best) None [0..<8]"

definition groups_text :: "nat list \<Rightarrow> string" where
  "groups_text gs = (case best_run gs of
     None \<Rightarrow> join '':'' (map hex_text gs)
   | Some (a, b) \<Rightarrow> join '':'' (map hex_text (take a gs)) @ ''::'' @
       join '':'' (map hex_text (drop b gs)))"

definition zone_text :: "Addr \<Rightarrow> string" where
  "zone_text ip = (if Zone ip = [] then [] else ''%'' @ Zone ip)"

definition addr6_text :: "Addr \<Rightarrow> string" where
  "addr6_text ip = groups_text (v6groups ip) @ zone_text ip"

definition addr4In6_text :: "Addr \<Rightarrow> string" where
  "addr4In6_text ip = ''::ffff:'' @ addr4_text (Unmap ip) @ zone_text ip"

definition Addr_String :: "Addr \<Rightarrow> string" where
  "Addr_String ip = (case z ip of
     Z0 \<Rightarrow> ''invalid IP''
   | Z4 \<Rightarrow> addr4_text ip
   | Z6 _ \<Rightarrow> if Is4In6 ip then addr4In6_text ip else addr6_text ip)"

definition Addr_AppendTo :: "string \<Rightarrow> Addr \<Rightarrow> string" where
  "Addr_AppendTo b ip = (case z ip of
     Z0 \<Rightarrow> b
   | Z4 \<Rightarrow> b @ addr4_text ip
   | Z6 _ \<Rightarrow> if Is4In6 ip then b @ addr4In6_text ip else b @ addr6_text ip)"

definition Addr_MarshalText :: "Addr \<Rightarrow> string" where
  "Addr_MarshalText ip = Addr_AppendTo [] ip"

subsection \<open>Address-port pairs\<close>

definition AddrPort_IsValid :: "AddrPort \<Rightarrow> bool" where
  "AddrPort_IsValid p = IsValid (ap_ip p)"

definition addrport_text :: "AddrPort \<Rightarrow> string" where
  "addrport_text p =
     (if Is4 (ap_ip p) then addr4_text (ap_ip p)
      else ''['' @ (if Is4In6 (ap_ip p) then addr4In6_text (ap_ip p) else addr6_text (ap_ip p)) @
        '']'') @ '':'' @ itoa (unat (ap_port p))"

definition AddrPort_String :: "AddrPort \<Rightarrow> string" where
  "AddrPort_String p = (case z (ap_ip p) of Z0 \<Rightarrow> ''invalid AddrPort'' | _ \<Rightarrow> addrport_text p)"

definition AddrPort_MarshalText :: "AddrPort \<Rightarrow> string" where
  "AddrPort_MarshalText p = (case z (ap_ip p) of Z0 \<Rightarrow> [] | _ \<Rightarrow> addrport_text p)"

subsection \<open>Prefixes\<close>

record Prefix =
  pf_ip :: Addr
  bitsPlusOne :: byte

definition zero_prefix :: Prefix where
  "zero_prefix = \<lparr>pf_ip = zero_addr, bitsPlusOne = 0\<rparr>"

definition withoutZone :: "Addr \<Rightarrow> Addr" where
  "withoutZone ip = (if \<not> Is6 ip then ip else ip\<lparr>z := Z6 []\<rparr>)"

definition PrefixFrom :: "Addr \<Rightarrow> int \<Rightarrow> Prefix" where
  "PrefixFrom ip bits =
     \<lparr>pf_ip = withoutZone ip,
      bitsPlusOne = (if z ip \<noteq> Z0 \<and> 0 \<le> bits \<and> bits \<le> BitLen ip then word_of_int bits + 1 else 0)\<rparr>"

definition Prefix_IsValid :: "Prefix \<Rightarrow> bool" where
  "Prefix_IsValid p \<longleftrightarrow> bitsPlusOne p > 0"

definition Bits :: "Prefix \<Rightarrow> int" where
  "Bits p = uint (bitsPlusOne p) - 1"

definition Prefix_String :: "Prefix \<Rightarrow> string" where
  "Prefix_String p =
     (if \<not> Prefix_IsValid p then ''invalid Prefix''
      else Addr_String (pf_ip p) @ ''/'' @ itoa (nat (Bits p)))"

definition Prefix_AppendTo :: "string \<Rightarrow> Prefix \<Rightarrow> string" where
  "Prefix_AppendTo b p =
     (if p = zero_prefix then b
      else if \<not> Prefix_IsValid p then b @ ''invalid Prefix''
      else b @ (if Is4 (pf_ip p) then addr4_text (pf_ip p)
        else if Is4In6 (pf_ip p) then ''::ffff:'' @ addr4_text (Unmap (pf_ip p))
        else addr6_text (pf_ip p)) @ ''/'' @ itoa (nat (Bits p)))"

definition Prefix_MarshalText :: "Prefix \<Rightarrow> string" where
  "Prefix_MarshalText p = Prefix_AppendTo [] p"

subsection \<open>Facts\<close>

lemma Bits_PrefixFrom:
  assumes "z ip \<noteq> Z0" and "0 \<le> bits" and "bits \<le> BitLen ip"
  shows "Bits (PrefixFrom ip bits) = bits" and "Prefix_IsValid (PrefixFrom ip bits)"
proof -
  from assms have "bits + 1 < 256" by (auto simp: BitLen_def split: addr_detail.splits)
  with assms have "uint (word_of_int bits + 1 :: byte) = bits + 1"
    by (simp add: uint_word_ariths uint_word_of_int)
  with assms show "Bits (PrefixFrom ip bits) = bits" and "Prefix_IsValid (PrefixFrom ip bits)"
    by (auto simp: Bits_def PrefixFrom_def Prefix_IsValid_def word_less_def)
qed

end
