(* ===== verification/Tslog.thy ===== *)
theory Tslog
  imports Netip_Text
begin

text \<open>
  logging/tslog/tslog.go. The handler behind a logger is the interface slog.Handler: a record of
  its three operations, a parameter of the model, because the handlers are built by packages
  that are not here. A handler writes to a world of type \<open>'w\<close>. The clock is the argument
  \<open>now\<close> of the calls that read it; \<open>None\<close> is the zero time.
\<close>

type_synonym level = int

definition LevelDebug :: level where "LevelDebug = - 4"
definition LevelInfo :: level where "LevelInfo = 0"
definition LevelWarn :: level where "LevelWarn = 4"
definition LevelError :: level where "LevelError = 8"

text \<open>Values of attributes; \<open>VAny\<close> is a value that the handler formats by its own methods.\<close>

datatype 'v attr_val =
  VInt64 "64 word"
| VUint64 "64 word"
| VString string
| VAny 'v
| VGroup "(string \<times> 'v attr_val) list"

type_synonym 'v attr = "string \<times> 'v attr_val"

record 'v log_record =
  r_time :: "int option"
  r_level :: level
  r_msg :: string
  r_attrs :: "'v attr list"

record ('h, 'v, 'w) handler_ops =
  ops_Handle :: "'h \<Rightarrow> 'v log_record \<Rightarrow> 'w \<Rightarrow> string option \<times> 'w"
  ops_WithAttrs :: "'h \<Rightarrow> 'v attr list \<Rightarrow> 'h"
  ops_WithGroup :: "'h \<Rightarrow> string \<Rightarrow> 'h"

subsection \<open>Configuration\<close>

record Config =
  cfg_Level :: level
  cfg_NoColor :: bool
  cfg_NoTime :: bool
  cfg_PrettyJSON :: bool
  cfg_UseTextHandler :: bool
  cfg_UseJSONHandler :: bool

datatype handler_kind = SlogText level | SlogJSON level | TintText level bool

definition NewHandler :: "Config \<Rightarrow> handler_kind" where
  "NewHandler c =
     (if cfg_UseTextHandler c then SlogText (cfg_Level c)
      else if cfg_UseJSONHandler c then SlogJSON (cfg_Level c)
      else TintText (cfg_Level c) (cfg_NoColor c))"

record 'h Logger =
  lg_level :: level
  lg_noTime :: bool
  lg_handler :: 'h

definition NewLoggerWithHandler :: "Config \<Rightarrow> 'h \<Rightarrow> 'h Logger" where
  "NewLoggerWithHandler c handler =
     \<lparr>lg_level = cfg_Level c, lg_noTime = cfg_NoTime c, lg_handler = handler\<rparr>"

text \<open>The writer is inside the handler that \<open>build\<close> makes of a handler kind.\<close>

definition NewLogger :: "(handler_kind \<Rightarrow> 'h) \<Rightarrow> Config \<Rightarrow> 'h Logger" where
  "NewLogger build c = NewLoggerWithHandler c (build (NewHandler c))"

subsection \<open>Logging\<close>

definition Handler :: "'h Logger \<Rightarrow> 'h" where
  "Handler l = lg_handler l"

definition WithAttrs :: "('h, 'v, 'w) handler_ops \<Rightarrow> 'h Logger \<Rightarrow> 'v attr list \<Rightarrow> 'h Logger" where
  "WithAttrs ops l attrs =
     \<lparr>lg_level = lg_level l, lg_noTime = lg_noTime l,
      lg_handler = ops_WithAttrs ops (lg_handler l) attrs\<rparr>"

definition WithGroup :: "('h, 'v, 'w) handler_ops \<Rightarrow> 'h Logger \<Rightarrow> string \<Rightarrow> 'h Logger" where
  "WithGroup ops l gname =
     \<lparr>lg_level = lg_level l, lg_noTime = lg_noTime l,
      lg_handler = ops_WithGroup ops (lg_handler l) gname\<rparr>"

definition Enabled :: "'h Logger \<Rightarrow> level \<Rightarrow> bool" where
  "Enabled l lvl \<longleftrightarrow> lg_level l \<le> lvl"

text \<open>What a call leaves behind: the text on standard error and the world of the handler.\<close>

definition log_emit ::
  "('h, 'v, 'w) handler_ops \<Rightarrow> int \<Rightarrow> 'h Logger \<Rightarrow> level \<Rightarrow> string \<Rightarrow> 'v attr list \<Rightarrow> 'w \<Rightarrow>
   string \<times> 'w" where
  "log_emit ops now l lvl msg attrs w =
     (let t = (if \<not> lg_noTime l then Some now else None);
          r = \<lparr>r_time = t, r_level = lvl, r_msg = msg, r_attrs = attrs\<rparr>
      in case ops_Handle ops (lg_handler l) r w of
           (None, w) \<Rightarrow> ([], w)
         | (Some err, w) \<Rightarrow> (''tslog: failed to write log message: '' @ err @ [CHR 0x0a], w))"

definition Log ::
  "('h, 'v, 'w) handler_ops \<Rightarrow> int \<Rightarrow> 'h Logger \<Rightarrow> level \<Rightarrow> string \<Rightarrow> 'v attr list \<Rightarrow> 'w \<Rightarrow>
   string \<times> 'w" where
  "Log ops now l lvl msg attrs w =
     (if \<not> Enabled l lvl then ([], w) else log_emit ops now l lvl msg attrs w)"

definition Debug where "Debug ops now l = Log ops now l LevelDebug"
definition Info where "Info ops now l = Log ops now l LevelInfo"
definition Warn where "Warn ops now l = Log ops now l LevelWarn"
definition Error where "Error ops now l = Log ops now l LevelError"

subsection \<open>Attributes\<close>

text \<open>A signed integer of any size as its value, an unsigned one as its value.\<close>

definition Int_attr :: "string \<Rightarrow> int \<Rightarrow> 'v attr" where
  "Int_attr key value = (key, VInt64 (word_of_int value))"

definition Uint_attr :: "string \<Rightarrow> nat \<Rightarrow> 'v attr" where
  "Uint_attr key value = (key, VUint64 (of_nat value))"

definition ByteString_attr :: "string \<Rightarrow> string \<Rightarrow> 'v attr" where
  "ByteString_attr key b = (key, VString b)"

definition Addr_attr :: "string \<Rightarrow> Addr \<Rightarrow> 'v attr" where
  "Addr_attr key addr = (key, VString (if IsValid addr then Addr_String addr else []))"

definition AddrMarshalText_attr :: "string \<Rightarrow> Addr \<Rightarrow> 'v attr" where
  "AddrMarshalText_attr key addr = (key, VString (Addr_MarshalText addr))"

definition AddrPort_attr :: "string \<Rightarrow> AddrPort \<Rightarrow> 'v attr" where
  "AddrPort_attr key ap = (key, VString (if AddrPort_IsValid ap then AddrPort_String ap else []))"

definition AddrPortMarshalText_attr :: "string \<Rightarrow> AddrPort \<Rightarrow> 'v attr" where
  "AddrPortMarshalText_attr key ap = (key, VString (AddrPort_MarshalText ap))"

definition Prefix_attr :: "string \<Rightarrow> Prefix \<Rightarrow> 'v attr" where
  "Prefix_attr key p = (key, VString (if Prefix_IsValid p then Prefix_String p else []))"

definition PrefixMarshalText_attr :: "string \<Rightarrow> Prefix \<Rightarrow> 'v attr" where
  "PrefixMarshalText_attr key p = (key, VString (Prefix_MarshalText p))"

definition Any_attr :: "string \<Rightarrow> 'v \<Rightarrow> 'v attr" where
  "Any_attr key v = (key, VAny v)"

text \<open>\<open>tint.Err\<close> makes an attribute of an error; the model keeps the text of the error.\<close>

definition Err_attr :: "string \<Rightarrow> 'v attr" where
  "Err_attr e = (''err'', VString e)"

subsection \<open>Runs of calls\<close>

text \<open>A call with the time at which it is made, and loggers derived in several steps.\<close>

type_synonym 'v timed_call = "int \<times> level \<times> string \<times> 'v attr list"

datatype 'v derivation = DAttrs "'v attr list" | DGroup string

fun derive :: "('h, 'v, 'w) handler_ops \<Rightarrow> 'v derivation list \<Rightarrow> 'h Logger \<Rightarrow> 'h Logger" where
  "derive ops [] l = l"
| "derive ops (DAttrs attrs # ds) l = derive ops ds (WithAttrs ops l attrs)"
| "derive ops (DGroup g # ds) l = derive ops ds (WithGroup ops l g)"

fun log_all :: "('h, 'v, 'w) handler_ops \<Rightarrow> 'h Logger \<Rightarrow> 'v timed_call list \<Rightarrow> 'w \<Rightarrow> string \<times> 'w" where
  "log_all ops l [] w = ([], w)"
| "log_all ops l ((now, lvl, msg, attrs) # cs) w =
     (let (t, w) = Log ops now l lvl msg attrs w; (ts, w) = log_all ops l cs w in (t @ ts, w))"

text \<open>What the handler should get, and what its failures leave on standard error.\<close>

fun derive_handler :: "('h, 'v, 'w) handler_ops \<Rightarrow> 'v derivation list \<Rightarrow> 'h \<Rightarrow> 'h" where
  "derive_handler ops [] h = h"
| "derive_handler ops (DAttrs attrs # ds) h = derive_handler ops ds (ops_WithAttrs ops h attrs)"
| "derive_handler ops (DGroup g # ds) h = derive_handler ops ds (ops_WithGroup ops h g)"

definition records :: "Config \<Rightarrow> 'v timed_call list \<Rightarrow> 'v log_record list" where
  "records c cs = map (\<lambda>(now, lvl, msg, attrs).
       \<lparr>r_time = (if cfg_NoTime c then None else Some now), r_level = lvl, r_msg = msg, r_attrs = attrs\<rparr>)
     (filter (\<lambda>(now, lvl, msg, attrs). cfg_Level c \<le> lvl) cs)"

fun handle_all :: "('h, 'v, 'w) handler_ops \<Rightarrow> 'h \<Rightarrow> 'v log_record list \<Rightarrow> 'w \<Rightarrow> string \<times> 'w" where
  "handle_all ops h [] w = ([], w)"
| "handle_all ops h (r # rs) w =
     (let (err, w) = ops_Handle ops h r w; (ts, w) = handle_all ops h rs w
      in ((case err of None \<Rightarrow> []
          | Some e \<Rightarrow> ''tslog: failed to write log message: '' @ e @ [CHR 0x0a]) @ ts, w))"

lemma derive_logger:
  "derive ops ds l = l\<lparr>lg_handler := derive_handler ops ds (lg_handler l)\<rparr>"
  by (induction ops ds l rule: derive.induct) (simp_all add: WithAttrs_def WithGroup_def)

lemma log_all_records:
  assumes "lg_level l = cfg_Level c" and "lg_noTime l = cfg_NoTime c"
  shows "log_all ops l cs w = handle_all ops (lg_handler l) (records c cs) w"
  using assms
  by (induction ops l cs w rule: log_all.induct)
    (auto simp: Log_def log_emit_def Enabled_def records_def Let_def split: prod.split option.split)

subsection \<open>Properties\<close>

text \<open>
  C30. A logger made of a configuration and derived from it in any number of steps hands its
  handler, for any sequence of calls, exactly the calls at or above the configured level, in
  order, with the time unless times are off; calls below the level leave no trace, a failure of the
  handler shows on standard error and stops nothing. The handler is the one the configuration
  selects, with the attributes and groups of the derivation added in order.
\<close>

theorem log_correct:
  "log_all ops (derive ops ds (NewLogger build c)) cs w =
    handle_all ops
      (derive_handler ops ds (build
        (if cfg_UseTextHandler c then SlogText (cfg_Level c)
         else if cfg_UseJSONHandler c then SlogJSON (cfg_Level c)
         else TintText (cfg_Level c) (cfg_NoColor c))))
      (records c cs) w"
  by (simp add: log_all_records [where c = c] derive_logger NewLogger_def NewLoggerWithHandler_def
      NewHandler_def)

text \<open>
  The attribute helpers that go through MarshalText agree with those that go through String
  on every address and address-port pair, zero value included, and on every prefix but the
  invalid ones that are not the zero value.
\<close>

theorem marshal_attrs_agree:
  "(AddrMarshalText_attr key a :: 'v attr) = Addr_attr key a \<and>
   (AddrPortMarshalText_attr key ap :: 'v attr) = AddrPort_attr key ap \<and>
   ((PrefixMarshalText_attr key (PrefixFrom a bits) :: 'v attr) = Prefix_attr key (PrefixFrom a bits)
      \<longleftrightarrow> PrefixFrom a bits = zero_prefix \<or> 0 \<le> bits \<and> bits \<le> BitLen a \<and> z a \<noteq> Z0)"
proof -
  have valid: "Prefix_IsValid (PrefixFrom a bits) \<longleftrightarrow> 0 \<le> bits \<and> bits \<le> BitLen a \<and> z a \<noteq> Z0"
    using Bits_PrefixFrom [of a bits] by (auto simp: PrefixFrom_def Prefix_IsValid_def)
  have "Prefix_AppendTo [] p = Prefix_String p" if "Prefix_IsValid p" "Zone (pf_ip p) = []"
      "z (pf_ip p) \<noteq> Z0" for p
    using that by (auto simp: Prefix_AppendTo_def Prefix_String_def zero_prefix_def
        Prefix_IsValid_def Addr_String_def Is4_def addr4In6_text_def zone_text_def Is4In6_def
        split: addr_detail.splits)
  moreover have "Zone (pf_ip (PrefixFrom a bits)) = []" and
    "z a \<noteq> Z0 \<Longrightarrow> z (pf_ip (PrefixFrom a bits)) \<noteq> Z0"
    by (auto simp: PrefixFrom_def withoutZone_def Zone_def Is6_def split: addr_detail.splits)
  ultimately have "PrefixMarshalText_attr key (PrefixFrom a bits) = Prefix_attr key (PrefixFrom a bits)
      \<longleftrightarrow> PrefixFrom a bits = zero_prefix \<or> Prefix_IsValid (PrefixFrom a bits)"
    using valid
    by (auto simp: PrefixMarshalText_attr_def Prefix_attr_def Prefix_MarshalText_def
        Prefix_AppendTo_def)
  with valid show ?thesis
    by (auto simp: AddrMarshalText_attr_def Addr_attr_def Addr_MarshalText_def Addr_AppendTo_def
        Addr_String_def IsValid_def AddrPortMarshalText_attr_def AddrPort_attr_def
        AddrPort_MarshalText_def AddrPort_String_def AddrPort_IsValid_def
        split: addr_detail.splits)
qed

end
