(* ===== verification/Route_Monitor.thy ===== *)
theory Route_Monitor
  imports Bsd_Route Tslog
begin

text \<open>
  route/cmd/route/main\_bsd.go: parsing the messages of an interface dump, a route dump or the
  routing socket, and logging them. The model computes the calls that the code makes on its
  logger, in order; a run of Tslog's logger over them gives what is written. Constants, struct
  sizes and field offsets come from x/sys/unix through the argument \<open>u\<close>, named as in
  Go.
\<close>

datatype bsd_any = MsgTypeV byte | RouteFlagsV "32 word" | IfaceFlagsV "32 word" | IfaFlags6V "32 word"

type_synonym log_call = "level \<times> string \<times> bsd_any attr list"

text \<open>netx.ZoneCache.Name and the ioctl, both outside this repository.\<close>

record net_env =
  zone_name :: "int \<Rightarrow> string"
  ioctl :: "int \<Rightarrow> int \<Rightarrow> byte list \<Rightarrow> errno + byte list"

subsection \<open>Addresses\<close>

definition appendAddrAttr ::
  "unix_env \<Rightarrow> net_env \<Rightarrow> byte list \<Rightarrow> bsd_any attr list \<Rightarrow> string \<Rightarrow> nat option \<Rightarrow> int \<Rightarrow>
   16 word \<Rightarrow> bool \<Rightarrow> bsd_any attr list option" where
  "appendAddrAttr u env mem attrs name sa ioctlFd ifindex unspecifiedOnly =
     (case sa of None \<Rightarrow> Some attrs | Some p \<Rightarrow> do {
        family \<leftarrow> rd8 mem (p + off u ''RawSockaddr.Family'');
        if uint family = num u ''AF_INET'' then do {
          len \<leftarrow> rd8 mem (p + off u ''RawSockaddr.Len'');
          if unat len < usize u ''SizeofSockaddrInet4'' then Some attrs
          else do {
            a \<leftarrow> rd mem (p + off u ''RawSockaddrInet4.Addr'') 4;
            let addr4 = AddrFrom4 a;
            if unspecifiedOnly \<and> \<not> IsUnspecified addr4 then Some attrs
            else Some (attrs @ [Addr_attr name addr4]) } }
        else if uint family = num u ''AF_INET6'' then do {
          len \<leftarrow> rd8 mem (p + off u ''RawSockaddr.Len'');
          if unat len < usize u ''SizeofSockaddrInet6'' then Some attrs
          else do {
            a \<leftarrow> rd mem (p + off u ''RawSockaddrInet6.Addr'') 16;
            scope \<leftarrow> rd32 u mem (p + off u ''RawSockaddrInet6.Scope_id'');
            let addr6 = WithZone (AddrFrom16 a) (zone_name env (uint scope));
            if unspecifiedOnly \<and> \<not> IsUnspecified addr6 then Some attrs
            else do {
              let attrs = attrs @ [Addr_attr name addr6];
              let ifname = zone_name env (uint ifindex);
              if name = ''ifa'' \<and> ifname \<noteq> [] then do {
                sa6 \<leftarrow> rd mem p (usize u ''SizeofSockaddrInet6'');
                case IoctlGetIfaFlagInet6 u (ioctl env) ioctlFd ifname sa6 of
                  Inl err \<Rightarrow> Some attrs
                | Inr ifaFlags \<Rightarrow> Some (attrs @ [Any_attr ''ifaFlags'' (IfaFlags6V ifaFlags)]) }
              else Some attrs } } }
        else if uint family = num u ''AF_LINK'' then do {
          len \<leftarrow> rd8 mem (p + off u ''RawSockaddr.Len'');
          if unat len < usize u ''SizeofSockaddrDatalink'' then Some attrs
          else do {
            nlen \<leftarrow> rd8 mem (p + off u ''RawSockaddrDatalink.Nlen'');
            if unat nlen > usize u ''len(RawSockaddrDatalink.Data)'' then Some attrs
            else do {
              ifname \<leftarrow> rd mem (p + off u ''RawSockaddrDatalink.Data'') (unat nlen);
              index \<leftarrow> rd16 u mem (p + off u ''RawSockaddrDatalink.Index'');
              Some (attrs @ [(name, VGroup
                [Uint_attr ''index'' (unat index), (''name'', VString (string_of ifname))])]) } } }
        else Some attrs })"

definition appendAddrAttrs ::
  "unix_env \<Rightarrow> net_env \<Rightarrow> byte list \<Rightarrow> bsd_any attr list \<Rightarrow> nat option list \<Rightarrow> int \<Rightarrow> 16 word \<Rightarrow>
   bool \<Rightarrow> bsd_any attr list option" where
  "appendAddrAttrs u env mem attrs addrs ioctlFd ifindex defaultRouteOnly = do {
     attrs \<leftarrow> appendAddrAttr u env mem attrs ''dst'' (addrs ! usize u ''RTAX_DST'') ioctlFd ifindex defaultRouteOnly;
     attrs \<leftarrow> appendAddrAttr u env mem attrs ''gateway'' (addrs ! usize u ''RTAX_GATEWAY'') ioctlFd ifindex False;
     attrs \<leftarrow> appendAddrAttr u env mem attrs ''netmask'' (addrs ! usize u ''RTAX_NETMASK'') ioctlFd ifindex defaultRouteOnly;
     attrs \<leftarrow> appendAddrAttr u env mem attrs ''genmask'' (addrs ! usize u ''RTAX_GENMASK'') ioctlFd ifindex False;
     attrs \<leftarrow> appendAddrAttr u env mem attrs ''ifp'' (addrs ! usize u ''RTAX_IFP'') ioctlFd ifindex False;
     appendAddrAttr u env mem attrs ''ifa'' (addrs ! usize u ''RTAX_IFA'') ioctlFd ifindex False }"

subsection \<open>Messages\<close>

text \<open>A message ends the parse, or lets it continue with an interface index.\<close>

datatype step = Return "log_call list" | Continue "16 word" "log_call list"

definition msg_attrs :: "Msghdr \<Rightarrow> bsd_any attr list" where
  "msg_attrs m =
     [Uint_attr ''msglen'' (unat (Msglen m)), Uint_attr ''version'' (unat (Version m)),
      Any_attr ''type'' (MsgTypeV (mType m))]"

definition msg_attrs_plain :: "Msghdr \<Rightarrow> bsd_any attr list" where
  "msg_attrs_plain m =
     [Uint_attr ''msglen'' (unat (Msglen m)), Uint_attr ''version'' (unat (Version m)),
      Uint_attr ''type'' (unat (mType m))]"

definition bad_hdrlen :: "Msghdr \<Rightarrow> string \<Rightarrow> step option" where
  "bad_hdrlen m msg = do {
     h \<leftarrow> HeaderLen m;
     Some (Return [(LevelError, msg, msg_attrs m @ [Uint_attr ''hdrlen'' (unat h)])]) }"

definition no_addrs :: "unix_env \<Rightarrow> nat option list" where
  "no_addrs u = replicate (usize u ''RTAX_MAX'') None"

text \<open>The messages at offset \<open>p\<close> with their length \<open>n\<close>, by their type.\<close>

definition route_msg ::
  "unix_env \<Rightarrow> bsd \<Rightarrow> net_env \<Rightarrow> int \<Rightarrow> bool \<Rightarrow> byte list \<Rightarrow> Msghdr \<Rightarrow> nat \<times> nat \<Rightarrow> 16 word \<Rightarrow> step option" where
  "route_msg u os env ioctlFd filt mem m msgBuf ifindex =
     (if snd msgBuf < usize u ''SizeofRtMsghdr'' then
        Some (Return [(LevelError, ''Invalid rt_msghdr length'', msg_attrs m)])
      else do {
        flags \<leftarrow> rd32 u mem (fst msgBuf + off u ''RtMsghdr.Flags'');
        if filt \<and> (flags AND flag_mask u ''RTF_UP'' = 0 \<or> flags AND flag_mask u ''RTF_GATEWAY'' = 0 \<or>
            flags AND flag_mask u ''RTF_HOST'' \<noteq> 0) then Some (Continue ifindex [])
        else do {
          ok \<leftarrow> AddrsBuf m msgBuf (usize u ''SizeofRtMsghdr'');
          case ok of None \<Rightarrow> bad_hdrlen m ''Invalid rtm_hdrlen''
          | Some addrsBuf \<Rightarrow> do {
              present \<leftarrow> rd32 u mem (fst msgBuf + off u ''RtMsghdr.Addrs'');
              addrs \<leftarrow> ParseAddrs u os mem (no_addrs u) addrsBuf present;
              type \<leftarrow> rd8 mem (fst msgBuf + off u ''RtMsghdr.Type'');
              index \<leftarrow> rd16 u mem (fst msgBuf + off u ''RtMsghdr.Index'');
              pid \<leftarrow> rd32 u mem (fst msgBuf + off u ''RtMsghdr.Pid'');
              seqno \<leftarrow> rd32 u mem (fst msgBuf + off u ''RtMsghdr.Seq'');
              attrs \<leftarrow> appendAddrAttrs u env mem
                [Any_attr ''type'' (MsgTypeV type), Uint_attr ''ifindex'' (unat index),
                 Any_attr ''flags'' (RouteFlagsV flags), Int_attr ''pid'' (sint pid),
                 Int_attr ''seq'' (sint seqno)] addrs ioctlFd index filt;
              Some (Continue ifindex [(LevelInfo, ''rt_msghdr'', attrs)]) } } })"

definition iface_msg ::
  "unix_env \<Rightarrow> bsd \<Rightarrow> net_env \<Rightarrow> int \<Rightarrow> bool \<Rightarrow> byte list \<Rightarrow> Msghdr \<Rightarrow> nat \<times> nat \<Rightarrow> 16 word \<Rightarrow> step option" where
  "iface_msg u os env ioctlFd filt mem m msgBuf ifindex =
     (if snd msgBuf < usize u ''SizeofIfMsghdr'' then
        Some (Return [(LevelError, ''Invalid if_msghdr length'', msg_attrs m)])
      else do {
        flags \<leftarrow> rd32 u mem (fst msgBuf + off u ''IfMsghdr.Flags'');
        if filt \<and> (flags AND flag_mask u ''IFF_UP'' = 0 \<or> flags AND flag_mask u ''IFF_LOOPBACK'' \<noteq> 0 \<or>
            flags AND flag_mask u ''IFF_POINTOPOINT'' \<noteq> 0 \<or> flags AND flag_mask u ''IFF_RUNNING'' = 0)
        then Some (Continue ifindex [])
        else do {
          index \<leftarrow> rd16 u mem (fst msgBuf + off u ''IfMsghdr.Index'');
          let ifindex = index;
          ok \<leftarrow> AddrsBuf m msgBuf (usize u ''SizeofIfMsghdr'');
          case ok of None \<Rightarrow> bad_hdrlen m ''Invalid ifm_hdrlen''
          | Some addrsBuf \<Rightarrow> do {
              present \<leftarrow> rd32 u mem (fst msgBuf + off u ''IfMsghdr.Addrs'');
              addrs \<leftarrow> ParseAddrs u os mem (no_addrs u) addrsBuf present;
              type \<leftarrow> rd8 mem (fst msgBuf + off u ''IfMsghdr.Type'');
              attrs \<leftarrow> appendAddrAttrs u env mem
                [Any_attr ''type'' (MsgTypeV type), Any_attr ''flags'' (IfaceFlagsV flags),
                 Uint_attr ''ifindex'' (unat index)] addrs ioctlFd index False;
              Some (Continue ifindex [(LevelInfo, ''if_msghdr'', attrs)]) } } })"

definition ifa_msg ::
  "unix_env \<Rightarrow> bsd \<Rightarrow> net_env \<Rightarrow> int \<Rightarrow> bool \<Rightarrow> byte list \<Rightarrow> Msghdr \<Rightarrow> nat \<times> nat \<Rightarrow> 16 word \<Rightarrow> step option" where
  "ifa_msg u os env ioctlFd filt mem m msgBuf ifindex =
     (if snd msgBuf < usize u ''SizeofIfaMsghdr'' then
        Some (Return [(LevelError, ''Invalid ifa_msghdr length'', msg_attrs_plain m)])
      else do {
        index \<leftarrow> rd16 u mem (fst msgBuf + off u ''IfaMsghdr.Index'');
        if filt \<and> index \<noteq> ifindex then Some (Continue ifindex [])
        else do {
          ok \<leftarrow> AddrsBuf m msgBuf (usize u ''SizeofIfaMsghdr'');
          case ok of None \<Rightarrow> bad_hdrlen m ''Invalid ifam_hdrlen''
          | Some addrsBuf \<Rightarrow> do {
              present \<leftarrow> rd32 u mem (fst msgBuf + off u ''IfaMsghdr.Addrs'');
              addrs \<leftarrow> ParseAddrs u os mem (no_addrs u) addrsBuf present;
              type \<leftarrow> rd8 mem (fst msgBuf + off u ''IfaMsghdr.Type'');
              attrs \<leftarrow> appendAddrAttrs u env mem
                [Any_attr ''type'' (MsgTypeV type), Uint_attr ''ifindex'' (unat index)]
                addrs ioctlFd index False;
              Some (Continue ifindex [(LevelInfo, ''ifam_msghdr'', attrs)]) } } })"

definition parse_msg ::
  "unix_env \<Rightarrow> bsd \<Rightarrow> net_env \<Rightarrow> int \<Rightarrow> bool \<Rightarrow> byte list \<Rightarrow> Msghdr \<Rightarrow> nat \<times> nat \<Rightarrow> 16 word \<Rightarrow> step option" where
  "parse_msg u os env ioctlFd filt mem m msgBuf ifindex =
     (if uint (Version m) \<noteq> num u ''RTM_VERSION'' then
        Some (Continue ifindex [(LevelWarn, ''Unsupported message version'', msg_attrs m)])
      else if uint (mType m) \<in> {num u ''RTM_ADD'', num u ''RTM_DELETE'', num u ''RTM_CHANGE'', num u ''RTM_GET''}
        then route_msg u os env ioctlFd filt mem m msgBuf ifindex
      else if uint (mType m) = num u ''RTM_IFINFO''
        then iface_msg u os env ioctlFd filt mem m msgBuf ifindex
      else if uint (mType m) \<in> {num u ''RTM_NEWADDR'', num u ''RTM_DELADDR''}
        then ifa_msg u os env ioctlFd filt mem m msgBuf ifindex
      else Some (Continue ifindex [(LevelInfo, ''Unknown message type'', msg_attrs_plain m)]))"

text \<open>The loop over the slice \<open>(p, n)\<close>.\<close>

function parse_loop ::
  "unix_env \<Rightarrow> bsd \<Rightarrow> net_env \<Rightarrow> int \<Rightarrow> bool \<Rightarrow> byte list \<Rightarrow> nat \<Rightarrow> nat \<Rightarrow> 16 word \<Rightarrow> log_call list option" where
  "parse_loop u os env ioctlFd filt mem p n ifindex =
     (if n < SizeofMsghdr os then Some []
      else do {
        m \<leftarrow> msghdr_at u os mem p;
        if unat (Msglen m) < SizeofMsghdr os \<or> unat (Msglen m) > n then
          Some [(LevelError, ''Invalid message length'', msg_attrs m)]
        else do {
          s \<leftarrow> parse_msg u os env ioctlFd filt mem m (p, unat (Msglen m)) ifindex;
          case s of
            Return calls \<Rightarrow> Some calls
          | Continue ifindex calls \<Rightarrow> do {
              later \<leftarrow> parse_loop u os env ioctlFd filt mem
                (p + unat (Msglen m)) (n - unat (Msglen m)) ifindex;
              Some (calls @ later) } } })"
  by pat_completeness auto

lemma SizeofMsghdr_pos: "0 < SizeofMsghdr os"
  by (cases os) simp_all

lemma rest_shorter: "\<not> k < SizeofMsghdr os \<Longrightarrow> \<not> n < k \<Longrightarrow> n - k < (n :: nat)"
  using SizeofMsghdr_pos [of os] by arith

termination parse_loop
  by (relation "measure (\<lambda>(u, os, env, ioctlFd, filt, mem, p, n, ifindex). n)")
    (auto intro: rest_shorter)

declare parse_loop.simps [simp del]

definition parseAndLogMsgs ::
  "unix_env \<Rightarrow> bsd \<Rightarrow> net_env \<Rightarrow> int \<Rightarrow> byte list \<Rightarrow> nat \<times> nat \<Rightarrow> bool \<Rightarrow> log_call list option" where
  "parseAndLogMsgs u os env ioctlFd mem b filt =
     parse_loop u os env ioctlFd filt mem (fst b) (snd b) 0"


subsection \<open>The program\<close>

text \<open>
  A call on the logger with the attribute source, if any. Reads of the routing socket answer an
  error or the bytes read.
\<close>

type_synonym sourced_call = "string option \<times> log_call"

definition readBufSize :: nat where
  "readBufSize = 2048"

text \<open>
  The monitor never returns; the model is its run over the results of any number of reads, with
  the buffer as the state: a read overwrites the start of it.
\<close>

fun monitor_loop ::
  "unix_env \<Rightarrow> bsd \<Rightarrow> net_env \<Rightarrow> int \<Rightarrow> byte list \<Rightarrow> (string + byte list) list \<Rightarrow> log_call list option" where
  "monitor_loop u os env ioctlFd b [] = Some []"
| "monitor_loop u os env ioctlFd b (Inl err # reads) = do {
     later \<leftarrow> monitor_loop u os env ioctlFd b reads;
     Some ((LevelError, ''Failed to read route message'', [Err_attr err]) # later) }"
| "monitor_loop u os env ioctlFd b (Inr bs # reads) = do {
     let b = copy_into b bs;
     calls \<leftarrow> parseAndLogMsgs u os env ioctlFd b (0, length bs) False;
     later \<leftarrow> monitor_loop u os env ioctlFd b reads;
     Some (calls @ later) }"

definition monitorRoutingSocket ::
  "unix_env \<Rightarrow> bsd \<Rightarrow> net_env \<Rightarrow> int \<Rightarrow> (string + byte list) list \<Rightarrow> log_call list option" where
  "monitorRoutingSocket u os env ioctlFd reads =
     monitor_loop u os env ioctlFd (replicate readBufSize 0) reads"

text \<open>What main does: it exits with status 1 after its calls, or it goes on monitoring.\<close>

datatype main_result = Exit1 "sourced_call list" | Monitoring "sourced_call list"

definition main_bsd ::
  "unix_env \<Rightarrow> bsd \<Rightarrow> net_env \<Rightarrow> 'k sock_ops \<Rightarrow> 'k sysctl_ops \<Rightarrow> (syscall_error \<Rightarrow> string) \<Rightarrow> bool \<Rightarrow>
   (string + byte list) list \<Rightarrow> 'k \<Rightarrow> (main_result \<times> 'k) option" where
  "main_bsd u os env sock sysctl err_text dumpAll reads k =
     (let plain = (\<lambda>msg e. (None, LevelError, msg, [Err_attr (err_text e)]));
          from = (\<lambda>src. map (\<lambda>c. (Some src, c)));
          mib = (\<lambda>what. [num u ''CTL_NET'', num u ''AF_ROUTE'', 0, num u ''AF_UNSPEC'', num u what, 0])
      in case OpenRoutingSocket u os sock k of
           (Inl e, k) \<Rightarrow> Some (Exit1 [plain ''Failed to open routing socket'' e], k)
         | (Inr f, k) \<Rightarrow>
         (case Socket u os sock (num u ''AF_INET6'') (num u ''SOCK_DGRAM'') 0 k of
           (Inl e, k) \<Rightarrow> Some (Exit1 [plain ''Failed to open ioctl socket'' e], k)
         | (Inr ioctlFd, k) \<Rightarrow> do {
             (r, k) \<leftarrow> SysctlGetBytes sysctl (mib ''NET_RT_IFLIST'') k;
             case r of
               Inl e \<Rightarrow> Some (Exit1 [plain ''Failed to get interface dump'' e], k)
             | Inr b \<Rightarrow> do {
                 ifaces \<leftarrow> parseAndLogMsgs u os env ioctlFd b (0, length b) (\<not> dumpAll);
                 (r, k) \<leftarrow> SysctlGetBytes sysctl (mib ''NET_RT_DUMP'') k;
                 case r of
                   Inl e \<Rightarrow> Some (Exit1 (from ''interface'' ifaces @
                     [plain ''Failed to get route dump'' e]), k)
                 | Inr b \<Rightarrow> do {
                     routes \<leftarrow> parseAndLogMsgs u os env ioctlFd b (0, length b) (\<not> dumpAll);
                     monitor \<leftarrow> monitorRoutingSocket u os env ioctlFd reads;
                     Some (Monitoring (from ''interface'' ifaces @ from ''route'' routes @
                       from ''monitor'' monitor), k) } } }))"

end
