(* ===== verification/Bsd_Route_Props.thy ===== *)
theory Bsd_Route_Props
  imports Bsd_Route
begin

text \<open>
  What the operations of route/bsdroute do: alignment and its wrap-around, where the pointers of
  ParseAddrs point, the retries of SysctlGetBytes, descriptors, and the ioctl request.
\<close>

subsection \<open>Alignment\<close>

lemma byte_lt: "unat (x :: byte) < 256"
  using unsigned_less [of x, where 'a = nat] by simp

lemma unat_and_not_mask:
  fixes x :: byte
  shows "unat (x AND NOT (mask k)) = unat x div 2 ^ k * 2 ^ k"
proof -
  have "x AND NOT (mask k) = push_bit k (drop_bit k x)"
    by (rule bit_word_eqI) (auto simp: bit_simps)
  moreover have "unat x div 2 ^ k * 2 ^ k < 256"
    by (rule le_less_trans [OF div_times_less_eq_dividend byte_lt])
  moreover have "unat (push_bit k (drop_bit k x)) = take_bit 8 (push_bit k (drop_bit k (unat x)))"
    using byte_lt [of x]
    by (simp add: unsigned_push_bit_eq unsigned_drop_bit_eq take_bit_nat_eq_self)
  ultimately show ?thesis by (simp add: take_bit_eq_mod push_bit_eq_mult drop_bit_eq_div)
qed

lemma masks: "(3 :: byte) = mask 2" "(7 :: byte) = mask 3"
  by (simp_all add: mask_eq_exp_minus_1)

lemma unat_sum:
  fixes n :: byte
  assumes "c < 256"
  shows "unat (n + of_nat c) = (if unat n + c < 256 then unat n + c else unat n + c - 256)"
  using assms byte_lt [of n] by (auto simp: unat_word_ariths unat_of_nat mod_if)

lemma align_4:
  fixes n :: byte
  shows "unat ((n + 3) AND NOT 3) = (if unat n \<le> 252 then (unat n + 3) div 4 * 4 else 0)"
  using unat_sum [of 3 n] byte_lt [of n] unfolding masks(1) unat_and_not_mask
  by (auto simp flip: masks)

lemma align_8:
  fixes n :: byte
  shows "unat ((n + 7) AND NOT 7) = (if unat n \<le> 248 then (unat n + 7) div 8 * 8 else 0)"
  using unat_sum [of 7 n] byte_lt [of n] unfolding masks(2) unat_and_not_mask
  by (auto simp flip: masks)

text \<open>
  For the alignments in use, RtaAlign is the least multiple of the alignment that holds the
  length, and the alignment itself for an empty address, as long as the sum fits in a byte; for
  the longest lengths the sum wraps around and the answer is zero.
\<close>

theorem rta_align:
  assumes "rta = 4 \<or> rta = 8"
  shows "unat (RtaAlign rta n) =
    (if n = 0 then unat rta
     else if unat n + unat rta \<le> 256 then (unat n + unat rta - 1) div unat rta * unat rta
     else 0)"
  using assms align_4 [of n] align_8 [of n] by (auto simp: RtaAlign_def add_diff_eq [symmetric])

theorem rta_align_witness:
  "unat (RtaAlign 8 17) = 24 \<and> unat (RtaAlign 4 0) = 4 \<and> unat (RtaAlign 4 253) = 0"
  by (simp add: rta_align)

subsection \<open>Addresses\<close>

lemma bit_test: "(w :: 32 word) AND 2 ^ i = 0 \<longleftrightarrow> \<not> bit w i"
  by (rule and_exp_eq_0_iff_not_bit)

lemma ParseAddrs_loop_bounds:
  assumes "p + n \<le> length mem" and "set is \<subseteq> {..<length dst}"
  shows "\<exists>dst'. ParseAddrs_loop u os mem addrs is dst (p, n) = Some dst' \<and>
    length dst' = length dst \<and>
    (\<forall>i < length dst. dst' ! i = dst ! i \<or>
       bit addrs i \<and> (\<exists>q. dst' ! i = Some q \<and> p \<le> q \<and>
         q + usize u ''SizeofSockaddrInet4'' \<le> p + n))"
  using assms
proof (induction u os mem addrs "is" dst "(p, n)" arbitrary: p n rule: ParseAddrs_loop.induct)
  case (1 u os mem addrs dst)
  then show ?case by simp
next
  case (2 u os mem addrs i "is" dst p n)
  show ?case
  proof (cases "bit addrs i")
    case False
    with 2 show ?thesis by (simp add: bit_test)
  next
    case set: True
    define dst1 where
      "dst1 = (if n \<ge> usize u ''SizeofSockaddrInet4'' then dst[i := Some p] else dst)"
    have dst1: "length dst1 = length dst" "\<forall>j < length dst. dst1 ! j = dst ! j \<or>
       j = i \<and> dst1 ! j = Some p \<and> usize u ''SizeofSockaddrInet4'' \<le> n"
      using 2(4) by (auto simp: dst1_def nth_list_update)
    have at_end: "ParseAddrs_loop u os mem addrs (i # is) dst (p, n) = Some dst1" if "n = 0"
      using set that by (simp add: bit_test dst1_def)
    show ?thesis
    proof (cases "n = 0")
      case True
      then show ?thesis unfolding at_end [OF True] using dst1 set by auto
    next
      case False
      define al where "al = unat (RtaAlign (rtaAlignTo u os) (mem ! p))"
      have m: "rd8 mem p = Some (mem ! p)" using 2(3) False by (simp add: rd8_def)
      show ?thesis
      proof (cases "n < al")
        case True
        with set False m dst1 show ?thesis
          by (auto simp: bit_test Let_def dst1_def [symmetric] al_def [symmetric])
      next
        case ge: False
        have "\<exists>dst'. ParseAddrs_loop u os mem addrs is dst1 (p + al, n - al) = Some dst' \<and>
          length dst' = length dst1 \<and>
          (\<forall>i < length dst1. dst' ! i = dst1 ! i \<or>
             bit addrs i \<and> (\<exists>q. dst' ! i = Some q \<and> p + al \<le> q \<and>
               q + usize u ''SizeofSockaddrInet4'' \<le> p + al + (n - al)))"
          unfolding al_def
          by (rule 2(2)) (use 2(3,4) ge set False m dst1 in \<open>auto simp: bit_test dst1_def al_def\<close>)
        then obtain dst' where d: "ParseAddrs_loop u os mem addrs is dst1 (p + al, n - al) = Some dst'"
          "length dst' = length dst" "\<forall>j < length dst. dst' ! j = dst1 ! j \<or>
             bit addrs j \<and> (\<exists>q. dst' ! j = Some q \<and> p + al \<le> q \<and>
               q + usize u ''SizeofSockaddrInet4'' \<le> p + n)"
          using ge dst1(1) by auto
        from set False m ge d(1) have "ParseAddrs_loop u os mem addrs (i # is) dst (p, n) = Some dst'"
          by (simp add: bit_test Let_def dst1_def [symmetric] al_def [symmetric])
        moreover have "dst' ! j = dst ! j \<or> bit addrs j \<and> (\<exists>q. dst' ! j = Some q \<and> p \<le> q \<and>
            q + usize u ''SizeofSockaddrInet4'' \<le> p + n)" if "j < length dst" for j
          using d(3) [rule_format, OF that] dst1(2) [rule_format, OF that] set by auto
        ultimately show ?thesis using d(2) by blast
      qed
    qed
  qed
qed

text \<open>
  On a slice inside memory ParseAddrs returns, reads nothing outside, and leaves every entry
  alone but those of set bits, which become pointers to places inside the slice with at least the
  size of an IPv4 sockaddr behind them.
\<close>

theorem parse_addrs_bounds:
  assumes "p + n \<le> length mem" and "length dst = usize u ''RTAX_MAX''"
  shows "\<exists>dst'. ParseAddrs u os mem dst (p, n) addrs = Some dst' \<and> length dst' = length dst \<and>
    (\<forall>i < length dst. dst' ! i = dst ! i \<or>
       bit addrs i \<and> (\<exists>q. dst' ! i = Some q \<and> p \<le> q \<and>
         q + usize u ''SizeofSockaddrInet4'' \<le> p + n))"
  unfolding ParseAddrs_def
  by (rule ParseAddrs_loop_bounds) (use assms in auto)

text \<open>
  The pointers to the addresses of a message: one address or none per index, each address with
  the aligned length that its first byte gives; \<open>n\<close> bytes of the slice are left.
\<close>

fun addr_ptrs :: "nat \<Rightarrow> nat \<Rightarrow> nat \<Rightarrow> byte list option list \<Rightarrow> nat option list" where
  "addr_ptrs mn p n [] = []"
| "addr_ptrs mn p n (None # bs) = None # addr_ptrs mn p n bs"
| "addr_ptrs mn p n (Some x # bs) =
     (if mn \<le> n then Some p else None) # addr_ptrs mn (p + length x) (n - length x) bs"

definition encoded :: "byte list option list \<Rightarrow> byte list" where
  "encoded bs = concat (map (\<lambda>b. case b of None \<Rightarrow> [] | Some x \<Rightarrow> x) bs)"

definition aligned_addr :: "byte \<Rightarrow> byte list \<Rightarrow> bool" where
  "aligned_addr rta x \<longleftrightarrow> x \<noteq> [] \<and> length x = unat (RtaAlign rta (hd x))"

lemma encoded_simps [simp]:
  "encoded [] = []" "encoded (None # bs) = encoded bs" "encoded (Some x # bs) = x @ encoded bs"
  by (simp_all add: encoded_def)

lemma ParseAddrs_loop_encoded:
  assumes "\<forall>i < length blobs. bit addrs (i0 + i) = (blobs ! i \<noteq> None)"
    and "\<forall>x. Some x \<in> set blobs \<longrightarrow> aligned_addr (rtaAlignTo u os) x"
    and "length before = i0" and "e \<le> length post"
  shows "ParseAddrs_loop u os (pre @ encoded blobs @ post) addrs [i0..<i0 + length blobs]
      (before @ replicate (length blobs) None) (length pre, length (encoded blobs) + e) =
    Some (before @ addr_ptrs (usize u ''SizeofSockaddrInet4'') (length pre)
      (length (encoded blobs) + e) blobs)"
  using assms
proof (induction blobs arbitrary: i0 before pre)
  case Nil
  then show ?case by simp
next
  case (Cons b blobs)
  have bits: "\<forall>i < length blobs. bit addrs (Suc i0 + i) = (blobs ! i \<noteq> None)"
    using Cons.prems(1) by (metis add_Suc_shift length_Cons not_less_eq nth_Cons_Suc)
  have rec: "ParseAddrs_loop u os (pre' @ encoded blobs @ post) addrs [Suc i0..<Suc i0 + length blobs]
      ((before @ [d]) @ replicate (length blobs) None) (length pre', length (encoded blobs) + e) =
    Some ((before @ [d]) @ addr_ptrs (usize u ''SizeofSockaddrInet4'') (length pre')
      (length (encoded blobs) + e) blobs)" for d pre'
    using Cons.IH [OF bits, of "before @ [d]" pre'] Cons.prems by (simp del: upt_Suc)
  have upt: "[i0..<i0 + length (b # blobs)] = i0 # [Suc i0..<Suc i0 + length blobs]"
    by (simp add: upt_conv_Cons del: upt_Suc)
  have head: "bit addrs i0 = (b \<noteq> None)" using spec [OF Cons.prems(1), of 0] by simp
  show ?case
  proof (cases b)
    case None
    then show ?thesis using rec [of pre None] head unfolding upt by (simp add: bit_test del: upt_Suc)
  next
    case (Some x)
    with Cons.prems(2) have x: "x \<noteq> []" "length x = unat (RtaAlign (rtaAlignTo u os) (hd x))"
      by (auto simp: aligned_addr_def)
    have r: "rd8 (pre @ encoded (b # blobs) @ post) (length pre) = Some (hd x)"
      using x(1) Some by (simp add: rd8_def nth_append hd_conv_nth)
    have upd: "(before @ replicate (length (b # blobs)) None)[i0 := Some (length pre)] =
        (before @ [Some (length pre)]) @ replicate (length blobs) None"
      using Cons.prems(3) by (simp add: list_update_append)
    show ?thesis
      using head Some x(1) r upd rec [of "pre @ x"] unfolding upt
      by (simp add: bit_test Let_def x(2) [symmetric] del: upt_Suc)
  qed
qed

text \<open>
  C29. ParseAddrs reads back what the kernel lays out: for at most one address per index, each of
  the aligned length that its first byte gives, it returns for every index present the place of
  its address (as long as an IPv4 sockaddr fits in what is left) and nil for the others.
\<close>

theorem parse_addrs_encoded:
  assumes "length blobs = usize u ''RTAX_MAX''"
    and "\<forall>i < length blobs. bit addrs i = (blobs ! i \<noteq> None)"
    and "\<forall>x. Some x \<in> set blobs \<longrightarrow> aligned_addr (rtaAlignTo u os) x"
    and "e \<le> length post"
  shows "ParseAddrs u os (pre @ encoded blobs @ post) (replicate (usize u ''RTAX_MAX'') None)
      (length pre, length (encoded blobs) + e) addrs =
    Some (addr_ptrs (usize u ''SizeofSockaddrInet4'') (length pre)
      (length (encoded blobs) + e) blobs)"
  using ParseAddrs_loop_encoded [of blobs addrs 0 u os "[]" e post pre] assms
  by (simp add: ParseAddrs_def)

text \<open>Addresses of a default route on Darwin: an IPv4 gateway between two short addresses.\<close>

definition route_unix :: unix_env where
  "route_unix = \<lparr>num = (\<lambda>n. if n = ''RTAX_MAX'' then 3 else 16), off = (\<lambda>_. 0), big_endian = False\<rparr>"

definition route_blobs :: "byte list option list" where
  "route_blobs = [Some [0, 0, 0, 0], Some ([16, 2, 0, 0, 192, 168, 1, 1] @ replicate 8 0), None]"

lemma route_blobs_aligned: "\<forall>x. Some x \<in> set route_blobs \<longrightarrow> aligned_addr (rtaAlignTo route_unix Darwin) x"
  by (auto simp: route_blobs_def aligned_addr_def rta_align)

theorem parse_addrs_encoded_witness:
  "ParseAddrs route_unix Darwin (encoded route_blobs) (replicate 3 None) (0, 20) 3 =
     Some [Some 0, Some 4, None]"
proof -
  have "bit (3 :: 32 word) i = (route_blobs ! i \<noteq> None)" if "i < length route_blobs" for i
  proof -
    from that have "i \<in> {0, 1, 2}" by (auto simp: route_blobs_def)
    then show ?thesis by (auto simp: route_blobs_def)
  qed
  then have "ParseAddrs route_unix Darwin ([] @ encoded route_blobs @ [])
      (replicate (usize route_unix ''RTAX_MAX'') None) (length ([] :: byte list),
      length (encoded route_blobs) + 0) 3 = Some (addr_ptrs (usize route_unix ''SizeofSockaddrInet4'')
      (length ([] :: byte list)) (length (encoded route_blobs) + 0) route_blobs)"
    by (intro parse_addrs_encoded) (use route_blobs_aligned in \<open>simp_all add: route_blobs_def usize_def route_unix_def\<close>)
  then show ?thesis
    by (simp add: usize_def route_unix_def route_blobs_def eval_nat_numeral)
qed

theorem parse_addrs_bounds_witness:
  "\<exists>dst'. ParseAddrs route_unix Darwin [255, 2, 0] [None, None, None] (0, 3) 7 = Some dst'"
  using parse_addrs_bounds [of 0 3 "[255, 2, 0]" "[None, None, None]" route_unix Darwin 7]
  by (auto simp: usize_def route_unix_def)

subsection \<open>Retries of sysctl\<close>

text \<open>The capacity and kernel state after \<open>j\<close> passes that all ask for another.\<close>

fun sysctl_passes ::
  "'k sysctl_ops \<Rightarrow> int list \<Rightarrow> nat \<Rightarrow> nat \<Rightarrow> 'k \<Rightarrow> (nat \<times> 'k) option" where
  "sysctl_passes ops mib 0 c k = Some (c, k)"
| "sysctl_passes ops mib (Suc j) c k =
     (case sysctl_pass ops mib c k of
        (Some (Inl c'), k') \<Rightarrow> sysctl_passes ops mib j c' k'
      | _ \<Rightarrow> None)"

lemma sysctl_loop_passes:
  assumes "sysctl_passes ops mib j c k = Some (c', k')"
    and "sysctl_pass ops mib c' k' = (Some (Inr res), k'')"
  shows "sysctl_loop ops mib c k = Some (res, k'')"
  using assms
  by (induction j arbitrary: c k)
    (subst sysctl_loop.simps, simp split: prod.splits option.splits sum.splits)+

lemma sysctl_loop_result:
  assumes "sysctl_loop ops mib c k = Some y"
  shows "\<exists>j c' k'. sysctl_passes ops mib j c k = Some (c', k') \<and>
    sysctl_pass ops mib c' k' = (Some (Inr (fst y)), snd y)"
proof (rule sysctl_loop.raw_induct [where P = "\<lambda>ops mib c k y.
    \<exists>j c' k'. sysctl_passes ops mib j c k = Some (c', k') \<and>
      sysctl_pass ops mib c' k' = (Some (Inr (fst y)), snd y)", OF _ assms])
  fix f and ops :: "'a sysctl_ops" and mib c k y
  assume IH: "\<And>ops mib c k y. f ops mib c k = Some y \<Longrightarrow>
      \<exists>j c' k'. sysctl_passes ops mib j c k = Some (c', k') \<and>
        sysctl_pass ops mib c' k' = (Some (Inr (fst y)), snd y)"
    and run: "(case sysctl_pass ops mib c k of
        (None, k) \<Rightarrow> None
      | (Some r, k) \<Rightarrow> (case r of Inl c \<Rightarrow> f ops mib c k | Inr res \<Rightarrow> Some (res, k))) = Some y"
  from run consider (again) c1 k1 where "sysctl_pass ops mib c k = (Some (Inl c1), k1)"
      "f ops mib c1 k1 = Some y"
    | (answer) "sysctl_pass ops mib c k = (Some (Inr (fst y)), snd y)"
    by (auto split: prod.splits option.splits sum.splits)
  then show "\<exists>j c' k'. sysctl_passes ops mib j c k = Some (c', k') \<and>
      sysctl_pass ops mib c' k' = (Some (Inr (fst y)), snd y)"
  proof cases
    case again
    from IH [OF again(2)] obtain j c' k' where
      "sysctl_passes ops mib j c1 k1 = Some (c', k')"
      "sysctl_pass ops mib c' k' = (Some (Inr (fst y)), snd y)" by blast
    moreover from this again(1) have "sysctl_passes ops mib (Suc j) c k = Some (c', k')" by simp
    ultimately show ?thesis by blast
  next
    case answer
    moreover have "sysctl_passes ops mib 0 c k = Some (c, k)" by simp
    ultimately show ?thesis by blast
  qed
qed

text \<open>
  The specification of SysctlGetBytes, by the calls to the kernel. A try asks for the size \<open>n\<close> and
  grows the buffer to the capacity \<open>c\<close>, and \<open>tries\<close> has these two for every try. A try whose buffer
  the kernel finds too small is followed by another from the same buffer; any other error, and
  any error of the first call of a try, is the result; else the bytes of the kernel are.
  With no buffer at all the second call asks for the size once more.
\<close>

inductive sysctl_run :: "'k sysctl_ops \<Rightarrow> int list \<Rightarrow> nat \<Rightarrow> 'k \<Rightarrow> (nat \<times> nat) list \<Rightarrow>
    syscall_error + byte list \<Rightarrow> 'k \<Rightarrow> bool" for ops mib where
  no_size: "sysctl_size ops mib k = (Inl err, k') \<Longrightarrow>
     sysctl_run ops mib c k [] (Inl (''sysctl'', err)) k'"
| complete: "sysctl_size ops mib k = (Inr n, k1) \<Longrightarrow> 0 < Grow ops c n \<Longrightarrow>
     sysctl_data ops mib (Grow ops c n) k1 = (Inr bs, k') \<Longrightarrow> length bs \<le> Grow ops c n \<Longrightarrow>
     sysctl_run ops mib c k [(n, Grow ops c n)] (Inr bs) k'"
| no_data: "sysctl_size ops mib k = (Inr n, k1) \<Longrightarrow> 0 < Grow ops c n \<Longrightarrow>
     sysctl_data ops mib (Grow ops c n) k1 = (Inl err, k') \<Longrightarrow> err \<noteq> ENOMEM \<Longrightarrow>
     sysctl_run ops mib c k [(n, Grow ops c n)] (Inl (''sysctl'', err)) k'"
| too_small: "sysctl_size ops mib k = (Inr n, k1) \<Longrightarrow> 0 < Grow ops c n \<Longrightarrow>
     sysctl_data ops mib (Grow ops c n) k1 = (Inl ENOMEM, k2) \<Longrightarrow>
     sysctl_run ops mib (Grow ops c n) k2 tries res k' \<Longrightarrow>
     sysctl_run ops mib c k ((n, Grow ops c n) # tries) res k'"
| empty: "sysctl_size ops mib k = (Inr n, k1) \<Longrightarrow> Grow ops c n = 0 \<Longrightarrow>
     sysctl_size ops mib k1 = (Inr 0, k') \<Longrightarrow> sysctl_run ops mib c k [(n, 0)] (Inr []) k'"
| empty_error: "sysctl_size ops mib k = (Inr n, k1) \<Longrightarrow> Grow ops c n = 0 \<Longrightarrow>
     sysctl_size ops mib k1 = (Inl err, k') \<Longrightarrow> err \<noteq> ENOMEM \<Longrightarrow>
     sysctl_run ops mib c k [(n, 0)] (Inl (''sysctl'', err)) k'"
| empty_again: "sysctl_size ops mib k = (Inr n, k1) \<Longrightarrow> Grow ops c n = 0 \<Longrightarrow>
     sysctl_size ops mib k1 = (Inl ENOMEM, k2) \<Longrightarrow> sysctl_run ops mib 0 k2 tries res k' \<Longrightarrow>
     sysctl_run ops mib c k ((n, 0) # tries) res k'"

lemma sysctl_run_loop:
  "sysctl_run ops mib c k tries res k' \<Longrightarrow> sysctl_loop ops mib c k = Some (res, k')"
  by (induction rule: sysctl_run.induct)
    (subst sysctl_loop.simps; simp add: sysctl_pass_def Let_def)+

lemma sysctl_pass_run:
  assumes "sysctl_pass ops mib c k = (Some (Inr res), k')"
  shows "\<exists>tries. sysctl_run ops mib c k tries res k'"
proof (cases "sysctl_size ops mib k")
  case (Pair r k1)
  show ?thesis
  proof (cases r)
    case (Inl err)
    with Pair assms show ?thesis by (auto simp: sysctl_pass_def intro!: no_size)
  next
    case (Inr n)
    show ?thesis
    proof (cases "Grow ops c n = 0")
      case True
      with Pair Inr assms show ?thesis
        by (auto simp: sysctl_pass_def Let_def split: prod.splits sum.splits if_splits)
          (blast intro: empty empty_error)+
    next
      case False
      then have "0 < Grow ops c n" by simp
      with Pair Inr assms show ?thesis
        by (auto simp: sysctl_pass_def Let_def not_less split: prod.splits sum.splits if_splits)
          (blast intro: complete no_data)+
    qed
  qed
qed

lemma sysctl_pass_again:
  assumes "sysctl_pass ops mib c k = (Some (Inl c1), k1)" and "sysctl_run ops mib c1 k1 tries res k'"
  shows "\<exists>tries. sysctl_run ops mib c k tries res k'"
proof (cases "sysctl_size ops mib k")
  case (Pair r k2)
  with assms obtain n where n: "r = Inr n" by (cases r) (auto simp: sysctl_pass_def)
  show ?thesis
  proof (cases "Grow ops c n = 0")
    case True
    with Pair n assms show ?thesis
      by (auto simp: sysctl_pass_def Let_def split: prod.splits sum.splits if_splits)
        (blast intro: empty_again)
  next
    case False
    then have "0 < Grow ops c n" by simp
    with Pair n assms show ?thesis
      by (auto simp: sysctl_pass_def Let_def split: prod.splits sum.splits if_splits)
        (blast intro: too_small)
  qed
qed

lemma sysctl_passes_run:
  "sysctl_passes ops mib j c k = Some (c1, k1) \<Longrightarrow> sysctl_pass ops mib c1 k1 = (Some (Inr res), k') \<Longrightarrow>
   \<exists>tries. sysctl_run ops mib c k tries res k'"
proof (induction j arbitrary: c k)
  case (Suc j)
  then obtain c2 k2 where step: "sysctl_pass ops mib c k = (Some (Inl c2), k2)"
    "sysctl_passes ops mib j c2 k2 = Some (c1, k1)" by (auto split: prod.splits option.splits sum.splits)
  from Suc.IH [OF step(2) Suc.prems(2)] sysctl_pass_again [OF step(1)] show ?case by blast
qed (simp add: sysctl_pass_run)

lemma SysctlGetBytes_run:
  "SysctlGetBytes ops mib k = Some (res, k') \<longleftrightarrow> (\<exists>tries. sysctl_run ops mib 0 k tries res k')"
  using sysctl_loop_result [of ops mib 0 k "(res, k')"] sysctl_passes_run
  by (fastforce simp: SysctlGetBytes_def dest: sysctl_run_loop)

text \<open>
  What the manual of sysctl promises: a size that is announced is enough for the table as it is then,
  a call that succeeds has copied the whole table, and ENOMEM means that the table did not fit.
\<close>

definition sysctl_laws :: "'k sysctl_ops \<Rightarrow> int list \<Rightarrow> ('k \<Rightarrow> byte list) \<Rightarrow> bool" where
  "sysctl_laws ops mib table \<longleftrightarrow>
     (\<forall>k n k'. sysctl_size ops mib k = (Inr n, k') \<longrightarrow> length (table k) \<le> n) \<and>
     (\<forall>c k bs k'. sysctl_data ops mib c k = (Inr bs, k') \<longrightarrow> bs = table k \<and> length bs \<le> c) \<and>
     (\<forall>c k k'. sysctl_data ops mib c k = (Inl ENOMEM, k') \<longrightarrow> c < length (table k))"

lemma sysctl_run_tries:
  assumes "sysctl_run ops mib c k tries res k'" and "\<And>c n. n \<le> grown_cap ops c n"
  shows "list_all (\<lambda>(n, c'). n \<le> c' \<and> c \<le> c') tries \<and> sorted (map snd tries)"
proof -
  have cap: "n \<le> Grow ops c n" "c \<le> Grow ops c n" for c n
    using assms(2) [of n c] by (auto simp: Grow_def)
  from cap have zero: "Grow ops c n = 0 \<Longrightarrow> n = 0 \<and> c = 0" for c n by (metis le_zero_eq)
  from assms(1) show ?thesis
  proof (induction rule: sysctl_run.induct)
    case (too_small k n k1 c k2 tries res k')
    then show ?case
      using cap [where c = c and n = n] by (auto simp: list_all_iff dest: order_trans)
  next
    case (empty_again k n k1 c k2 tries res k')
    then show ?case using zero [where c = c and n = n] by (auto simp: list_all_iff)
  qed (auto simp: cap dest: zero)
qed

lemma sysctl_run_table:
  assumes "sysctl_run ops mib c k tries res k'" and "sysctl_laws ops mib table" and "res = Inr bs"
  shows "\<exists>k1. bs = table k1 \<and> ((\<exists>c. sysctl_data ops mib c k1 = (Inr bs, k')) \<or>
    bs = [] \<and> sysctl_size ops mib k1 = (Inr 0, k'))"
  using assms
proof (induction rule: sysctl_run.induct)
  case (complete k n k1 c bs' k')
  from complete(5) have "bs' = table k1" using complete(3) unfolding sysctl_laws_def by blast
  with complete show ?case by (intro exI [of _ k1]) auto
next
  case (empty k n k1 c k')
  then have "length (table k1) \<le> 0" unfolding sysctl_laws_def by blast
  with empty show ?case by (intro exI [of _ k1]) auto
qed simp_all

text \<open>A kernel that announces a size that is still enough when the data is asked for.\<close>

definition size_holds :: "'k sysctl_ops \<Rightarrow> int list \<Rightarrow> ('k \<Rightarrow> byte list) \<Rightarrow> 'k \<Rightarrow> bool" where
  "size_holds ops mib table k \<longleftrightarrow>
     (\<forall>n k1. sysctl_size ops mib k = (Inr n, k1) \<longrightarrow> 0 < n \<and> length (table k1) \<le> n)"

lemma size_holds_returns:
  assumes "size_holds ops mib table k" and "sysctl_laws ops mib table" and "\<And>c n. n \<le> grown_cap ops c n"
  shows "\<exists>res k' tries. sysctl_run ops mib c k tries res k' \<and> length tries \<le> 1"
proof (cases "sysctl_size ops mib k")
  case (Pair r k1)
  show ?thesis
  proof (cases r)
    case (Inl err)
    with Pair no_size show ?thesis by fastforce
  next
    case (Inr n)
    with Pair assms(1) have n: "0 < n" "length (table k1) \<le> n" by (auto simp: size_holds_def)
    have cap: "n \<le> Grow ops c n" using assms(3) [of n c] by (simp add: Grow_def)
    with n have pos: "0 < Grow ops c n" by simp
    obtain r2 k2 where data: "sysctl_data ops mib (Grow ops c n) k1 = (r2, k2)" by fastforce
    show ?thesis
    proof (cases r2)
      case (Inl err)
      with assms(2) data have "err = ENOMEM \<Longrightarrow> Grow ops c n < length (table k1)"
        unfolding sysctl_laws_def by blast
      with n cap have "err \<noteq> ENOMEM" by auto
      from no_data [OF Pair [unfolded Inr] pos data [unfolded Inl] this]
      show ?thesis by (intro exI conjI) (assumption, simp)
    next
      case r2: (Inr bs)
      with assms(2) data have "length bs \<le> Grow ops c n" unfolding sysctl_laws_def by blast
      from complete [OF Pair [unfolded Inr] pos data [unfolded r2] this]
      show ?thesis by (intro exI conjI) (assumption, simp)
    qed
  qed
qed

text \<open>
  C36. SysctlGetBytes does exactly the calls of its specification, and it returns exactly if one of
  its tries is not answered by ENOMEM: every other error is its result at once, ENOMEM to a
  call for data never is. Every try offers the kernel at least the size that was just announced
  and at least the buffer of the try before. With a kernel that keeps its promises the result is
  the whole table as it was at the last call, never a part of it; and if the announced size is
  still enough when the data is asked for, the first try is the last.
\<close>

theorem sysctl_retries:
  assumes "\<And>c n. n \<le> grown_cap ops c n" and "sysctl_laws ops mib table"
  shows "(SysctlGetBytes ops mib k = Some (res, k') \<longleftrightarrow> (\<exists>tries. sysctl_run ops mib 0 k tries res k')) \<and>
    (sysctl_run ops mib 0 k tries res k' \<longrightarrow>
       list_all (\<lambda>(n, c). n \<le> c) tries \<and> sorted (map snd tries)) \<and>
    (SysctlGetBytes ops mib k = Some (Inr bs, k') \<longrightarrow> (\<exists>k1. bs = table k1 \<and>
       ((\<exists>c. sysctl_data ops mib c k1 = (Inr bs, k')) \<or> bs = [] \<and> sysctl_size ops mib k1 = (Inr 0, k')))) \<and>
    (size_holds ops mib table k \<longrightarrow> (\<exists>res k' tries. SysctlGetBytes ops mib k = Some (res, k') \<and>
       sysctl_run ops mib 0 k tries res k' \<and> length tries \<le> 1))"
proof (intro conjI impI)
  show "SysctlGetBytes ops mib k = Some (res, k') \<longleftrightarrow> (\<exists>tries. sysctl_run ops mib 0 k tries res k')"
    by (rule SysctlGetBytes_run)
next
  assume "sysctl_run ops mib 0 k tries res k'"
  from sysctl_run_tries [OF this assms(1)]
  show "list_all (\<lambda>(n, c). n \<le> c) tries" "sorted (map snd tries)" by (auto simp: list_all_iff)
next
  assume "SysctlGetBytes ops mib k = Some (Inr bs, k')"
  then show "\<exists>k1. bs = table k1 \<and> ((\<exists>c. sysctl_data ops mib c k1 = (Inr bs, k')) \<or>
      bs = [] \<and> sysctl_size ops mib k1 = (Inr 0, k'))"
    using sysctl_run_table [OF _ assms(2) refl] by (auto simp: SysctlGetBytes_run)
next
  assume "size_holds ops mib table k"
  from size_holds_returns [OF this assms(2,1), of 0] show "\<exists>res k' tries.
      SysctlGetBytes ops mib k = Some (res, k') \<and> sysctl_run ops mib 0 k tries res k' \<and> length tries \<le> 1"
    unfolding SysctlGetBytes_run by blast
qed

text \<open>A kernel whose table grows once, between the two calls of the first try.\<close>

definition growing_table :: "nat \<Rightarrow> byte list" where
  "growing_table k = (if k = 0 then [7, 8] else [7, 8, 9])"

definition growing_kernel :: "nat sysctl_ops" where
  "growing_kernel =
     \<lparr>sysctl_size = (\<lambda>mib k. (Inr (length (growing_table k)), 1)),
      sysctl_data = (\<lambda>mib c k. (if c < length (growing_table k) then Inl ENOMEM
        else Inr (growing_table k), k)),
      grown_cap = (\<lambda>c n. n)\<rparr>"

theorem sysctl_retries_witness:
  "SysctlGetBytes growing_kernel [4] 0 = Some (Inr (growing_table 1), 1) \<and>
   sysctl_run growing_kernel [4] 0 0 [(2, 2), (3, 3)] (Inr (growing_table 1)) 1"
proof -
  have grow: "\<And>c n. n \<le> grown_cap growing_kernel c n" by (simp add: growing_kernel_def)
  have laws: "sysctl_laws growing_kernel [4] growing_table"
    by (simp add: sysctl_laws_def growing_kernel_def)
  have cap: "Grow growing_kernel 0 2 = 2" "Grow growing_kernel 2 3 = 3"
    by (simp_all add: Grow_def growing_kernel_def)
  have "sysctl_run growing_kernel [4] 2 1 [(3, 3)] (Inr (growing_table 1)) 1"
    using complete [of growing_kernel "[4]" 1 3 1 2 "growing_table 1" 1]
    by (simp add: cap) (simp add: growing_kernel_def growing_table_def)
  then have run: "sysctl_run growing_kernel [4] 0 0 [(2, 2), (3, 3)] (Inr (growing_table 1)) 1"
    using too_small [of growing_kernel "[4]" 0 2 1 0 1 "[(3, 3)]" "Inr (growing_table 1)" 1]
    by (simp add: cap) (simp add: growing_kernel_def growing_table_def)
  with sysctl_retries [OF grow laws, of 0 "Inr (growing_table 1)" 1] show ?thesis by blast
qed

subsection \<open>Descriptors\<close>

text \<open>
  What the socket calls of a kernel promise: \<open>open\<close> gives the open descriptors of a state
  with whether they are closed on exec and whether they do not block.
\<close>

definition socket_laws ::
  "unix_env \<Rightarrow> 'k sock_ops \<Rightarrow> ('k \<Rightarrow> int \<Rightarrow> (bool \<times> bool) option) \<Rightarrow> bool" where
  "socket_laws u ops fds \<longleftrightarrow>
     (\<forall>d t p k. case sys_socket ops d t p k of
        (Inl _, k') \<Rightarrow> fds k' = fds k
      | (Inr fd, k') \<Rightarrow> fds k fd = None \<and>
          fds k' = (fds k)(fd \<mapsto> (t AND num u ''SOCK_CLOEXEC'' \<noteq> 0, t AND num u ''SOCK_NONBLOCK'' \<noteq> 0))) \<and>
     (\<forall>fd k c n. fds k fd = Some (c, n) \<longrightarrow>
        fds (sys_CloseOnExec ops fd k) = (fds k)(fd \<mapsto> (True, n))) \<and>
     (\<forall>fd k c n. fds k fd = Some (c, n) \<longrightarrow> (case sys_SetNonblock ops fd True k of
        (None, k') \<Rightarrow> fds k' = (fds k)(fd \<mapsto> (c, True))
      | (Some _, k') \<Rightarrow> fds k' = fds k)) \<and>
     (\<forall>fd k. fds (sys_Close ops fd k) = (fds k)(fd := None)) \<and>
     (\<forall>k. fds (ForkLock_RLock ops k) = fds k \<and> fds (ForkLock_RUnlock ops k) = fds k)"

lemma socket_lawsD:
  assumes "socket_laws u ops fds"
  shows "sys_socket ops d t p k = (Inl e, k') \<Longrightarrow> fds k' = fds k"
    and "sys_socket ops d t p k = (Inr fd, k') \<Longrightarrow> fds k fd = None \<and>
      fds k' = (fds k)(fd \<mapsto> (t AND num u ''SOCK_CLOEXEC'' \<noteq> 0, t AND num u ''SOCK_NONBLOCK'' \<noteq> 0))"
    and "fds k fd = Some (c, n) \<Longrightarrow> fds (sys_CloseOnExec ops fd k) = (fds k)(fd \<mapsto> (True, n))"
    and "fds k fd = Some (c, n) \<Longrightarrow> sys_SetNonblock ops fd True k = (None, k') \<Longrightarrow>
      fds k' = (fds k)(fd \<mapsto> (c, True))"
    and "fds k fd = Some (c, n) \<Longrightarrow> sys_SetNonblock ops fd True k = (Some er, k') \<Longrightarrow> fds k' = fds k"
    and "fds (sys_Close ops fd k) = (fds k)(fd := None)"
    and "fds (ForkLock_RLock ops k) = fds k" and "fds (ForkLock_RUnlock ops k) = fds k"
proof -
  note laws = assms [unfolded socket_laws_def]
  show "sys_socket ops d t p k = (Inl e, k') \<Longrightarrow> fds k' = fds k"
    and "sys_socket ops d t p k = (Inr fd, k') \<Longrightarrow> fds k fd = None \<and>
      fds k' = (fds k)(fd \<mapsto> (t AND num u ''SOCK_CLOEXEC'' \<noteq> 0, t AND num u ''SOCK_NONBLOCK'' \<noteq> 0))"
    using laws [THEN conjunct1, rule_format, of k t d p] by simp_all
  show "fds k fd = Some (c, n) \<Longrightarrow> fds (sys_CloseOnExec ops fd k) = (fds k)(fd \<mapsto> (True, n))"
    using laws [THEN conjunct2, THEN conjunct1, rule_format, of k fd c n] by simp
  show "fds k fd = Some (c, n) \<Longrightarrow> sys_SetNonblock ops fd True k = (None, k') \<Longrightarrow>
      fds k' = (fds k)(fd \<mapsto> (c, True))"
    and "fds k fd = Some (c, n) \<Longrightarrow> sys_SetNonblock ops fd True k = (Some er, k') \<Longrightarrow> fds k' = fds k"
    using laws [THEN conjunct2, THEN conjunct2, THEN conjunct1, rule_format, of k fd c n] by simp_all
  show "fds (sys_Close ops fd k) = (fds k)(fd := None)"
    and "fds (ForkLock_RLock ops k) = fds k" and "fds (ForkLock_RUnlock ops k) = fds k"
    using laws by simp_all
qed

lemma Socket_cloexec_fds:
  assumes laws: "socket_laws u ops fds"
    and "num u ''SOCK_CLOEXEC'' \<noteq> 0" and "num u ''SOCK_NONBLOCK'' \<noteq> 0"
  shows "case Socket_cloexec u ops d t p k of
      (Inl _, k') \<Rightarrow> fds k' = fds k
    | (Inr fd, k') \<Rightarrow> fds k fd = None \<and> fds k' = (fds k)(fd \<mapsto> (True, True))"
proof -
  have "(t OR a OR b) AND b = b" "(t OR a OR b) AND a = a" for a b :: int
    by (rule bit_eqI, auto simp: bit_simps)+
  then show ?thesis
    using assms(2,3)
    by (auto simp: Socket_cloexec_def socket_lawsD(1) [OF laws] split: prod.splits sum.splits
        dest: socket_lawsD(2) [OF laws])
qed

lemma Socket_darwin_fds:
  assumes laws: "socket_laws u ops fds"
  shows "case Socket_darwin ops d t p k of
      (Inl _, k') \<Rightarrow> fds k' = fds k
    | (Inr fd, k') \<Rightarrow> fds k fd = None \<and> fds k' = (fds k)(fd \<mapsto> (True, True))"
proof -
  obtain r k1 where s: "sys_socket ops d t p (ForkLock_RLock ops k) = (r, k1)" by fastforce
  show ?thesis
  proof (cases r)
    case (Inl e)
    with s have "fds k1 = fds k"
      using socket_lawsD(1) [OF laws s [unfolded Inl]] by (simp add: socket_lawsD(7) [OF laws])
    with s Inl show ?thesis
      by (simp add: Socket_darwin_def socket_lawsD(8) [OF laws])
  next
    case (Inr fd)
    from socket_lawsD(2) [OF laws s [unfolded Inr]] obtain n where
      fresh: "fds k fd = None" and "fds k1 = (fds k)(fd \<mapsto> (n, t AND num u ''SOCK_NONBLOCK'' \<noteq> 0))"
      by (auto simp: socket_lawsD(7) [OF laws])
    then have "fds (sys_CloseOnExec ops fd k1) = (fds k)(fd \<mapsto> (True, t AND num u ''SOCK_NONBLOCK'' \<noteq> 0))"
      using socket_lawsD(3) [OF laws, of k1 fd] by simp
    then have k2: "fds (ForkLock_RUnlock ops (sys_CloseOnExec ops fd k1)) =
        (fds k)(fd \<mapsto> (True, t AND num u ''SOCK_NONBLOCK'' \<noteq> 0))"
      by (simp add: socket_lawsD(8) [OF laws])
    obtain er k3 where n: "sys_SetNonblock ops fd True (ForkLock_RUnlock ops (sys_CloseOnExec ops fd k1)) =
        (er, k3)" by fastforce
    show ?thesis
    proof (cases er)
      case None
      with k2 n have "fds k3 = (fds k)(fd \<mapsto> (True, True))"
        using socket_lawsD(4) [OF laws _ n [unfolded None]] by simp
      with None n s Inr fresh show ?thesis by (simp add: Socket_darwin_def)
    next
      case (Some e)
      with k2 n have "fds k3 = (fds k)(fd \<mapsto> (True, t AND num u ''SOCK_NONBLOCK'' \<noteq> 0))"
        using socket_lawsD(5) [OF laws _ n [unfolded Some]] by simp
      with fresh have "fds (sys_Close ops fd k3) = fds k"
        by (auto simp: socket_lawsD(6) [OF laws])
      with Some n s Inr show ?thesis by (simp add: Socket_darwin_def)
    qed
  qed
qed

lemma Socket_fds:
  assumes "socket_laws u ops fds"
    and "num u ''SOCK_CLOEXEC'' \<noteq> 0" and "num u ''SOCK_NONBLOCK'' \<noteq> 0"
  shows "case Socket u os ops d t p k of
      (Inl _, k') \<Rightarrow> fds k' = fds k
    | (Inr fd, k') \<Rightarrow> fds k fd = None \<and> fds k' = (fds k)(fd \<mapsto> (True, True))"
  using Socket_cloexec_fds [OF assms, where d = d and t = t and p = p and k = k] Socket_darwin_fds [OF assms(1), where d = d and t = t and p = p and k = k]
  by (cases os) simp_all

text \<open>
  C37. Opening the routing socket leaves exactly one new descriptor, closed on exec and not
  blocking, on success, and no new descriptor after any failure, on every system: with the flags
  of the socket call, or on Darwin with separate calls and the descriptor closed again when the
  last one fails.
\<close>

theorem routing_socket_no_leak:
  assumes "socket_laws u ops fds"
    and "num u ''SOCK_CLOEXEC'' \<noteq> 0" and "num u ''SOCK_NONBLOCK'' \<noteq> 0"
  shows "case OpenRoutingSocket u os ops k of
      (Inl _, k') \<Rightarrow> fds k' = fds k
    | (Inr (fd, nm), k') \<Rightarrow> nm = ''route'' \<and> fds k fd = None \<and> fds k' = (fds k)(fd \<mapsto> (True, True))"
  using Socket_fds [OF assms, where os = os and d = "num u ''AF_ROUTE''" and t = "num u ''SOCK_RAW''"
      and p = "num u ''AF_UNSPEC''" and k = k]
  by (auto simp: OpenRoutingSocket_def split: prod.splits sum.splits)

text \<open>A kernel of two descriptors whose second cannot be made non-blocking.\<close>

definition tiny_kernel :: "(int \<Rightarrow> (bool \<times> bool) option) sock_ops" where
  "tiny_kernel =
     \<lparr>sys_socket = (\<lambda>d t p k.
        if k 3 = None then (Inr 3, k(3 \<mapsto> (t AND 1 \<noteq> 0, t AND 2 \<noteq> 0)))
        else if k 4 = None then (Inr 4, k(4 \<mapsto> (t AND 1 \<noteq> 0, t AND 2 \<noteq> 0)))
        else (Inl (Errno 24), k)),
      sys_CloseOnExec = (\<lambda>fd k. case k fd of Some (c, n) \<Rightarrow> k(fd \<mapsto> (True, n)) | None \<Rightarrow> k),
      sys_SetNonblock = (\<lambda>fd b k. if fd = 4 then (Some (Errno 5), k)
        else case k fd of Some (c, n) \<Rightarrow> (None, k(fd \<mapsto> (c, b))) | None \<Rightarrow> (Some (Errno 9), k)),
      sys_Close = (\<lambda>fd k. k(fd := None)), ForkLock_RLock = id, ForkLock_RUnlock = id\<rparr>"

definition tiny_unix :: unix_env where
  "tiny_unix = \<lparr>num = (\<lambda>n. if n = ''SOCK_CLOEXEC'' then 1 else if n = ''SOCK_NONBLOCK'' then 2 else 0),
     off = (\<lambda>_. 0), big_endian = False\<rparr>"

theorem routing_socket_no_leak_witness:
  "(case OpenRoutingSocket tiny_unix Darwin tiny_kernel [3 \<mapsto> (True, True)] of
     (Inl _, k') \<Rightarrow> k' = [3 \<mapsto> (True, True)] | (Inr (fd, nm), k') \<Rightarrow> False) \<and>
   (case OpenRoutingSocket tiny_unix Freebsd tiny_kernel Map.empty of
     (Inl _, k') \<Rightarrow> False | (Inr (fd, nm), k') \<Rightarrow> k' = [fd \<mapsto> (True, True)])"
proof -
  have laws: "socket_laws tiny_unix tiny_kernel (\<lambda>k. k)"
    by (auto simp: socket_laws_def tiny_kernel_def tiny_unix_def split: option.splits)
  have c: "num tiny_unix ''SOCK_CLOEXEC'' \<noteq> 0" "num tiny_unix ''SOCK_NONBLOCK'' \<noteq> 0"
    by (simp_all add: tiny_unix_def)
  show ?thesis
    using routing_socket_no_leak [OF laws c, where os = Darwin and k = "[3 \<mapsto> (True, True)]"]
      routing_socket_no_leak [OF laws c, where os = Freebsd and k = "\<lambda>_. None"]
    by (simp add: OpenRoutingSocket_def Socket_darwin_def Socket_cloexec_def tiny_kernel_def
        split: prod.splits sum.splits)
qed

subsection \<open>The ioctl\<close>

lemma length_bytes_of [simp]: "length (bytes_of s) = length s"
  by (simp add: bytes_of_def)

lemma length_copy_into [simp]: "length (copy_into dst src) = length dst"
  by (simp add: copy_into_def)

text \<open>
  With the usual interface name size, the request structure has exactly the size that the
  request number encodes (its bits 16 to 28), starts with the name cut to the name size and filled
  up with zeros, and holds the sockaddr right after it; the kernel is asked once, with that
  structure, and the flags are read from where the sockaddr was.
\<close>

theorem ioctl_request_layout:
  assumes "usize u ''IFNAMSIZ'' = 16" and "length sa \<le> 272"
  shows "int (length (inet6Ifreq u name sa)) = take_bit 13 (drop_bit 16 SIOCGIFAFLAG_IN6) \<and>
    take 16 (inet6Ifreq u name sa) =
      bytes_of (take 16 name) @ replicate (16 - length name) 0 \<and>
    take (length sa) (drop 16 (inet6Ifreq u name sa)) = sa \<and>
    IoctlGetIfaFlagInet6 u (\<lambda>fd req arg. if arg = inet6Ifreq u name sa \<and> req = SIOCGIFAFLAG_IN6
        then Inr (take 16 arg @ flags @ rest) else Inl err) fd name sa =
      Inr (ucast (native u (take 4 (flags @ rest))))"
proof -
  have len: "length (inet6Ifreq u name sa) = 288"
    by (simp add: inet6Ifreq_def assms(1))
  have bits: "take_bit 13 (drop_bit 16 SIOCGIFAFLAG_IN6) = 288"
    by (simp add: SIOCGIFAFLAG_IN6_def take_bit_eq_mod drop_bit_eq_div)
  have split: "inet6Ifreq u name sa =
      (bytes_of (take 16 name) @ replicate (16 - length name) 0) @ copy_into (replicate 272 0) sa"
    by (simp add: inet6Ifreq_def assms(1) bytes_of_def copy_into_def take_map)
  have n: "length (bytes_of (take 16 name) @ replicate (16 - length name) (0::byte)) = 16"
    by (simp add: bytes_of_def)
  then have "take 16 (inet6Ifreq u name sa) = bytes_of (take 16 name) @ replicate (16 - length name) 0"
    and "drop 16 (inet6Ifreq u name sa) = copy_into (replicate 272 0) sa"
    unfolding split by simp_all
  moreover have "take (length sa) (copy_into (replicate 272 0) sa) = sa"
    using assms(2) by (simp add: copy_into_def)
  ultimately show ?thesis
    using len bits assms(1) by (simp add: IoctlGetIfaFlagInet6_def Let_def)
qed

theorem ioctl_request_layout_witness:
  "int (length (inet6Ifreq (tiny_unix\<lparr>num := (\<lambda>_. 16)\<rparr>) ''lo0'' (replicate 28 1))) = 288"
proof -
  have "usize (tiny_unix\<lparr>num := (\<lambda>_. 16)\<rparr>) ''IFNAMSIZ'' = 16"
    and "length (replicate 28 (1 :: byte)) \<le> 272" by (simp_all add: usize_def)
  from ioctl_request_layout [OF this, THEN conjunct1] show ?thesis
    by (simp add: SIOCGIFAFLAG_IN6_def take_bit_eq_mod drop_bit_eq_div)
qed

end
