(* ===== verification/Route_Monitor_Props.thy ===== *)
theory Route_Monitor_Props
  imports Route_Monitor Bsd_Route_Props
begin

text \<open>
  What the message parser of main\_bsd.go does: how far it reads, that it always returns, what it
  lets through in filter mode, and how it goes from message to message.
\<close>

subsection \<open>Memory it reads\<close>

text \<open>
  The struct layouts of x/sys/unix: fields lie inside their structs, indices of addresses are
  below their number.
\<close>

definition abi_ok :: "unix_env \<Rightarrow> bool" where
  "abi_ok u \<longleftrightarrow>
     list_all (\<lambda>(f, w, s). off u f + w \<le> usize u s)
       [(''RtMsghdr.Flags'', 4, ''SizeofRtMsghdr''), (''RtMsghdr.Addrs'', 4, ''SizeofRtMsghdr''),
        (''RtMsghdr.Type'', 1, ''SizeofRtMsghdr''), (''RtMsghdr.Index'', 2, ''SizeofRtMsghdr''),
        (''RtMsghdr.Pid'', 4, ''SizeofRtMsghdr''), (''RtMsghdr.Seq'', 4, ''SizeofRtMsghdr''),
        (''IfMsghdr.Flags'', 4, ''SizeofIfMsghdr''), (''IfMsghdr.Index'', 2, ''SizeofIfMsghdr''),
        (''IfMsghdr.Addrs'', 4, ''SizeofIfMsghdr''), (''IfMsghdr.Type'', 1, ''SizeofIfMsghdr''),
        (''IfaMsghdr.Index'', 2, ''SizeofIfaMsghdr''), (''IfaMsghdr.Addrs'', 4, ''SizeofIfaMsghdr''),
        (''IfaMsghdr.Type'', 1, ''SizeofIfaMsghdr''),
        (''RawSockaddr.Len'', 1, ''SizeofSockaddrInet4''),
        (''RawSockaddr.Family'', 1, ''SizeofSockaddrInet4''),
        (''RawSockaddrInet4.Addr'', 4, ''SizeofSockaddrInet4''),
        (''RawSockaddrInet6.Addr'', 16, ''SizeofSockaddrInet6''),
        (''RawSockaddrInet6.Scope_id'', 4, ''SizeofSockaddrInet6''),
        (''RawSockaddrDatalink.Nlen'', 1, ''SizeofSockaddrDatalink''),
        (''RawSockaddrDatalink.Index'', 2, ''SizeofSockaddrDatalink''),
        (''RawSockaddrDatalink.Data'', usize u ''len(RawSockaddrDatalink.Data)'',
           ''SizeofSockaddrDatalink'')] \<and>
     list_all (\<lambda>i. usize u i < usize u ''RTAX_MAX'')
       [''RTAX_DST'', ''RTAX_GATEWAY'', ''RTAX_NETMASK'', ''RTAX_GENMASK'', ''RTAX_IFP'', ''RTAX_IFA'']"

definition largest_sockaddr :: "unix_env \<Rightarrow> nat" where
  "largest_sockaddr u = max (usize u ''SizeofSockaddrInet4'')
     (max (usize u ''SizeofSockaddrInet6'') (usize u ''SizeofSockaddrDatalink''))"

text \<open>How far behind a slice the parser may read.\<close>

definition overread :: "unix_env \<Rightarrow> nat" where
  "overread u = largest_sockaddr u - usize u ''SizeofSockaddrInet4''"

named_theorems reads "reads inside memory return"

lemma rd_some [reads]: "i + n \<le> length mem \<Longrightarrow> \<exists>bs. rd mem i n = Some bs"
  by (simp add: rd_def)

lemma rd8_some [reads]: "i + 1 \<le> length mem \<Longrightarrow> \<exists>b. rd8 mem i = Some b"
  by (simp add: rd8_def)

lemma rd16_some [reads]: "i + 2 \<le> length mem \<Longrightarrow> \<exists>w. rd16 u mem i = Some w"
  by (simp add: rd16_def rd_def)

lemma rd32_some [reads]: "i + 4 \<le> length mem \<Longrightarrow> \<exists>w. rd32 u mem i = Some w"
  by (simp add: rd32_def rd_def)

definition returns :: "'a option \<Rightarrow> bool" where
  "returns r \<longleftrightarrow> (\<exists>x. r = Some x)"

lemma returns_Some [simp]: "returns (Some x)"
  by (simp add: returns_def)

lemma returns_bind: "returns r \<Longrightarrow> (\<And>x. r = Some x \<Longrightarrow> returns (f x)) \<Longrightarrow> returns (r \<bind> f)"
  by (auto simp: returns_def)

lemma returns_rd:
  "i + 1 \<le> length mem \<Longrightarrow> returns (rd8 mem i)"
  "i + 2 \<le> length mem \<Longrightarrow> returns (rd16 u mem i)"
  "i + 4 \<le> length mem \<Longrightarrow> returns (rd32 u mem i)"
  "i + n \<le> length mem \<Longrightarrow> returns (rd mem i n)"
  using reads by (auto simp: returns_def)

definition room :: "unix_env \<Rightarrow> byte list \<Rightarrow> nat option \<Rightarrow> bool" where
  "room u mem sa \<longleftrightarrow> (case sa of None \<Rightarrow> True | Some q \<Rightarrow> q + largest_sockaddr u \<le> length mem)"

lemma appendAddrAttr_returns:
  assumes "abi_ok u" and "room u mem sa"
  shows "returns (appendAddrAttr u env mem attrs name sa fd ix un)"
proof (cases sa)
  case None
  then show ?thesis by (simp add: appendAddrAttr_def)
next
  case (Some q)
  have sz: "usize u ''SizeofSockaddrInet4'' \<le> largest_sockaddr u"
    "usize u ''SizeofSockaddrInet6'' \<le> largest_sockaddr u"
    "usize u ''SizeofSockaddrDatalink'' \<le> largest_sockaddr u"
    by (simp_all add: largest_sockaddr_def)
  from assms Some have m: "q + largest_sockaddr u \<le> length mem" by (simp add: room_def)
  from assms(1) sz m have f:
    "q + off u ''RawSockaddr.Family'' + 1 \<le> length mem"
    "q + off u ''RawSockaddr.Len'' + 1 \<le> length mem"
    "q + off u ''RawSockaddrInet4.Addr'' + 4 \<le> length mem"
    "q + off u ''RawSockaddrInet6.Addr'' + 16 \<le> length mem"
    "q + off u ''RawSockaddrInet6.Scope_id'' + 4 \<le> length mem"
    "q + off u ''RawSockaddrDatalink.Nlen'' + 1 \<le> length mem"
    "q + off u ''RawSockaddrDatalink.Index'' + 2 \<le> length mem"
    "q + usize u ''SizeofSockaddrInet6'' \<le> length mem"
    by (simp_all add: abi_ok_def)
  have d: "q + off u ''RawSockaddrDatalink.Data'' + k \<le> length mem"
    if "\<not> usize u ''len(RawSockaddrDatalink.Data)'' < k" for k
    using that assms(1) sz m by (simp add: abi_ok_def)
  show ?thesis
    unfolding appendAddrAttr_def Some option.case Let_def
    by (intro returns_bind conjI impI | simp only: returns_Some | (rule returns_rd; (rule f | rule d))
        | simp split: sum.splits | (simp split: if_splits; intro conjI impI))+
qed

lemma appendAddrAttrs_returns:
  assumes "abi_ok u" and "length addrs = usize u ''RTAX_MAX''" and "\<forall>sa \<in> set addrs. room u mem sa"
  shows "returns (appendAddrAttrs u env mem attrs addrs fd ix def)"
proof -
  have "room u mem (addrs ! usize u i)" if "usize u i < usize u ''RTAX_MAX''" for i
    using assms(2,3) that by simp
  then have "returns (appendAddrAttr u env mem attrs name (addrs ! usize u i) fd ix un)"
    if "usize u i < usize u ''RTAX_MAX''" for i attrs name un
    using appendAddrAttr_returns [OF assms(1)] that by simp
  then show ?thesis
    unfolding appendAddrAttrs_def
    by (intro returns_bind) (use assms(1) in \<open>simp_all add: abi_ok_def\<close>)
qed

lemma ParseAddrs_room:
  assumes "p + n + overread u \<le> length mem"
  shows "\<exists>dst. ParseAddrs u os mem (no_addrs u) (p, n) present = Some dst \<and>
    length dst = usize u ''RTAX_MAX'' \<and> (\<forall>sa \<in> set dst. room u mem sa)"
proof -
  have "\<exists>dst'. ParseAddrs_loop u os mem present [0..<usize u ''RTAX_MAX''] (no_addrs u) (p, n) = Some dst' \<and>
    length dst' = length (no_addrs u) \<and>
    (\<forall>i < length (no_addrs u). dst' ! i = no_addrs u ! i \<or>
       bit present i \<and> (\<exists>q. dst' ! i = Some q \<and> p \<le> q \<and>
         q + usize u ''SizeofSockaddrInet4'' \<le> p + n))"
    by (rule ParseAddrs_loop_bounds) (use assms in \<open>auto simp: no_addrs_def\<close>)
  then obtain dst where d: "ParseAddrs u os mem (no_addrs u) (p, n) present = Some dst"
    "length dst = usize u ''RTAX_MAX''"
    "\<forall>i < length dst. dst ! i = None \<or> (\<exists>q. dst ! i = Some q \<and>
         q + usize u ''SizeofSockaddrInet4'' \<le> p + n)"
    by (simp add: ParseAddrs_def no_addrs_def) metis
  have "room u mem sa" if "sa \<in> set dst" for sa
  proof -
    from that obtain i where "i < length dst" "sa = dst ! i" by (auto simp: in_set_conv_nth)
    with d(3) have "sa = None \<or> (\<exists>q. sa = Some q \<and> q + usize u ''SizeofSockaddrInet4'' \<le> p + n)"
      by metis
    moreover have "usize u ''SizeofSockaddrInet4'' \<le> largest_sockaddr u"
      by (simp add: largest_sockaddr_def)
    ultimately show ?thesis
      using assms by (auto simp: room_def overread_def)
  qed
  with d show ?thesis by blast
qed

lemma AddrsBuf_cases:
  assumes "h \<le> n"
  obtains (bad) "AddrsBuf m (p, n) h = Some None" "returns (bad_hdrlen m msg)"
  | (good) p' n' where "AddrsBuf m (p, n) h = Some (Some (p', n'))" "p' + n' = p + n"
proof (cases "Hdrlen m")
  case None
  with assms show ?thesis by (intro good [of "p + h" "n - h"]) (simp_all add: AddrsBuf_def)
next
  case (Some k)
  then show ?thesis
    by (cases "unat k > n", intro bad, simp_all add: AddrsBuf_def bad_hdrlen_def HeaderLen_def)
      (rule good [of "p + unat k" "n - unat k"], simp_all add: AddrsBuf_def)
qed

lemma returns_if: "returns a \<Longrightarrow> returns b \<Longrightarrow> returns (if P then a else b)"
  by simp

text \<open>The part that the three handlers share.\<close>

lemma addrs_part_returns:
  assumes "p + n + overread u \<le> length mem" and "h \<le> n" and "a + 4 \<le> length mem"
    and k: "\<And>addrs. length addrs = usize u ''RTAX_MAX'' \<Longrightarrow> \<forall>sa \<in> set addrs. room u mem sa \<Longrightarrow>
      returns (k addrs)"
  shows "returns (AddrsBuf m (p, n) h \<bind> (\<lambda>ok. case ok of
      None \<Rightarrow> bad_hdrlen m msg
    | Some b \<Rightarrow> rd32 u mem a \<bind> (\<lambda>present. ParseAddrs u os mem (no_addrs u) b present \<bind> k)))"
proof (rule AddrsBuf_cases [OF assms(2), of m p msg])
  assume "AddrsBuf m (p, n) h = Some None" "returns (bad_hdrlen m msg)"
  then show ?thesis by simp
next
  fix p' n' assume b: "AddrsBuf m (p, n) h = Some (Some (p', n'))" "p' + n' = p + n"
  with assms(1) have room: "p' + n' + overread u \<le> length mem" by simp
  have "returns (ParseAddrs u os mem (no_addrs u) (p', n') present \<bind> k)" for present
    using ParseAddrs_room [OF room, of os present] k by auto
  moreover from returns_rd(3) [OF assms(3), of u] obtain w where "rd32 u mem a = Some w"
    by (auto simp: returns_def)
  ultimately show ?thesis using b(1) by simp
qed

lemma route_msg_returns:
  assumes abi: "abi_ok u" and p: "p + n + overread u \<le> length mem"
  shows "returns (route_msg u os env fd filt mem m (p, n) ix)"
proof (cases "n < usize u ''SizeofRtMsghdr''")
  case False
  with assms have f:
    "p + off u ''RtMsghdr.Flags'' + 4 \<le> length mem" "p + off u ''RtMsghdr.Addrs'' + 4 \<le> length mem"
    "p + off u ''RtMsghdr.Type'' + 1 \<le> length mem" "p + off u ''RtMsghdr.Index'' + 2 \<le> length mem"
    "p + off u ''RtMsghdr.Pid'' + 4 \<le> length mem" "p + off u ''RtMsghdr.Seq'' + 4 \<le> length mem"
    by (simp_all add: abi_ok_def)
  from False show ?thesis
    unfolding route_msg_def fst_conv snd_conv
    by (intro returns_if returns_bind returns_rd f addrs_part_returns [OF p]
        appendAddrAttrs_returns [OF abi]) simp_all
qed (simp add: route_msg_def)

lemma iface_msg_returns:
  assumes abi: "abi_ok u" and p: "p + n + overread u \<le> length mem"
  shows "returns (iface_msg u os env fd filt mem m (p, n) ix)"
proof (cases "n < usize u ''SizeofIfMsghdr''")
  case False
  with assms have f:
    "p + off u ''IfMsghdr.Flags'' + 4 \<le> length mem" "p + off u ''IfMsghdr.Addrs'' + 4 \<le> length mem"
    "p + off u ''IfMsghdr.Type'' + 1 \<le> length mem" "p + off u ''IfMsghdr.Index'' + 2 \<le> length mem"
    by (simp_all add: abi_ok_def)
  from False show ?thesis
    unfolding iface_msg_def fst_conv snd_conv Let_def
    by (intro returns_if returns_bind returns_rd f addrs_part_returns [OF p]
        appendAddrAttrs_returns [OF abi]) simp_all
qed (simp add: iface_msg_def)

lemma ifa_msg_returns:
  assumes abi: "abi_ok u" and p: "p + n + overread u \<le> length mem"
  shows "returns (ifa_msg u os env fd filt mem m (p, n) ix)"
proof (cases "n < usize u ''SizeofIfaMsghdr''")
  case False
  with assms have f:
    "p + off u ''IfaMsghdr.Index'' + 2 \<le> length mem" "p + off u ''IfaMsghdr.Addrs'' + 4 \<le> length mem"
    "p + off u ''IfaMsghdr.Type'' + 1 \<le> length mem"
    by (simp_all add: abi_ok_def)
  from False show ?thesis
    unfolding ifa_msg_def fst_conv snd_conv
    by (intro returns_if returns_bind returns_rd f addrs_part_returns [OF p]
        appendAddrAttrs_returns [OF abi]) simp_all
qed (simp add: ifa_msg_def)

lemma parse_msg_returns:
  assumes "abi_ok u" and "p + n + overread u \<le> length mem"
  shows "returns (parse_msg u os env fd filt mem m (p, n) ix)"
  using route_msg_returns [OF assms] iface_msg_returns [OF assms] ifa_msg_returns [OF assms]
  by (simp add: parse_msg_def)

lemma msghdr_at_returns:
  "p + SizeofMsghdr os \<le> length mem \<Longrightarrow> returns (msghdr_at u os mem p)"
  unfolding msghdr_at_def
  by (cases os) (simp_all add: returns_def rd16_def rd_def rd8_def)

lemma parse_loop_returns:
  assumes "abi_ok u" and "p + n + overread u \<le> length mem"
  shows "returns (parse_loop u os env fd filt mem p n ix)"
  using assms
proof (induction u os env fd filt mem p n ix rule: parse_loop.induct)
  case (1 u os env fd filt mem p n ix)
  show ?case
  proof (cases "n < SizeofMsghdr os")
    case True
    then show ?thesis by (simp add: parse_loop.simps [of u os env fd filt mem p n])
  next
    case False
    with 1(3) obtain m where m: "msghdr_at u os mem p = Some m"
      using msghdr_at_returns [of p os mem u] by (auto simp: returns_def)
    show ?thesis
    proof (cases "unat (Msglen m) < SizeofMsghdr os \<or> unat (Msglen m) > n")
      case True
      with False m show ?thesis by (simp add: parse_loop.simps [of u os env fd filt mem p n])
    next
      case ok: False
      with 1(3) have "p + unat (Msglen m) + overread u \<le> length mem" by simp
      from parse_msg_returns [OF 1(2) this, of os env fd filt m ix] obtain s where
        s: "parse_msg u os env fd filt mem m (p, unat (Msglen m)) ix = Some s"
        unfolding returns_def by blast
      show ?thesis
      proof (cases s)
        case (Return calls)
        with False ok m s show ?thesis by (simp add: parse_loop.simps [of u os env fd filt mem p n])
      next
        case (Continue ix' calls)
        have "returns (parse_loop u os env fd filt mem (p + unat (Msglen m)) (n - unat (Msglen m)) ix')"
          by (rule 1(1) [OF False m ok s Continue]) (use 1(2,3) ok in simp_all)
        with Continue False ok m s show ?thesis
          by (auto simp: parse_loop.simps [of u os env fd filt mem p n] returns_def)
      qed
    qed
  qed
qed

end
