(* ===== verification/Darwin_Abi.thy ===== *)
theory Darwin_Abi
  imports Route_Monitor_Props
begin

text \<open>
  A concrete instance of the argument that stands for x/sys/unix: the constants and the struct
  layouts of Darwin on a 64-bit little-endian machine. It is the instance the examples of the
  message parser run on.
\<close>

definition darwin_consts :: "(string \<times> int) list" where
  "darwin_consts = rtm_documented_darwin @ iff_documented_darwin @
    [(''RTM_VERSION'', 5), (''RTAX_MAX'', 8), (''RTAX_DST'', 0), (''RTAX_GATEWAY'', 1),
     (''RTAX_NETMASK'', 2), (''RTAX_GENMASK'', 3), (''RTAX_IFP'', 4), (''RTAX_IFA'', 5),
     (''AF_INET'', 2), (''AF_INET6'', 30), (''AF_LINK'', 18), (''RTF_UP'', 1), (''RTF_GATEWAY'', 2),
     (''RTF_HOST'', 4), (''SizeofRtMsghdr'', 92), (''SizeofIfMsghdr'', 112), (''SizeofIfaMsghdr'', 20),
     (''SizeofSockaddrInet4'', 16), (''SizeofSockaddrInet6'', 28), (''SizeofSockaddrDatalink'', 20),
     (''len(RawSockaddrDatalink.Data)'', 12), (''IFNAMSIZ'', 16)]"

definition darwin_offsets :: "(string \<times> nat) list" where
  "darwin_offsets =
    [(''RtMsghdr.Flags'', 8), (''RtMsghdr.Addrs'', 12), (''RtMsghdr.Type'', 3), (''RtMsghdr.Index'', 4),
     (''RtMsghdr.Pid'', 16), (''RtMsghdr.Seq'', 20), (''IfMsghdr.Flags'', 8), (''IfMsghdr.Index'', 12),
     (''IfMsghdr.Addrs'', 4), (''IfMsghdr.Type'', 3), (''IfaMsghdr.Index'', 12),
     (''IfaMsghdr.Addrs'', 4), (''IfaMsghdr.Type'', 3), (''RawSockaddr.Len'', 0),
     (''RawSockaddr.Family'', 1), (''RawSockaddrInet4.Addr'', 4), (''RawSockaddrInet6.Addr'', 8),
     (''RawSockaddrInet6.Scope_id'', 24), (''RawSockaddrDatalink.Nlen'', 5),
     (''RawSockaddrDatalink.Index'', 2), (''RawSockaddrDatalink.Data'', 8)]"

definition darwin_unix :: unix_env where
  "darwin_unix =
     \<lparr>num = (\<lambda>n. case map_of darwin_consts n of Some v \<Rightarrow> v | None \<Rightarrow> 0),
      off = (\<lambda>n. case map_of darwin_offsets n of Some v \<Rightarrow> v | None \<Rightarrow> 0),
      big_endian = False\<rparr>"

lemma darwin_num [simp]:
  "num darwin_unix ''RTM_VERSION'' = 5"
  "num darwin_unix ''AF_INET'' = 2"
  "num darwin_unix ''AF_INET6'' = 30"
  "num darwin_unix ''AF_LINK'' = 18"
  "num darwin_unix ''RTF_UP'' = 1"
  "num darwin_unix ''RTF_GATEWAY'' = 2"
  "num darwin_unix ''RTF_HOST'' = 4"
  "num darwin_unix ''RTM_ADD'' = 1"
  "num darwin_unix ''RTM_DELETE'' = 2"
  "num darwin_unix ''RTM_CHANGE'' = 3"
  "num darwin_unix ''RTM_GET'' = 4"
  "num darwin_unix ''RTM_NEWADDR'' = 12"
  "num darwin_unix ''RTM_DELADDR'' = 13"
  "num darwin_unix ''RTM_IFINFO'' = 14"
  "num darwin_unix ''IFF_UP'' = 1"
  "num darwin_unix ''IFF_LOOPBACK'' = 8"
  "num darwin_unix ''IFF_POINTOPOINT'' = 16"
  "num darwin_unix ''IFF_RUNNING'' = 64"
  by code_simp+

lemma darwin_size [simp]:
  "usize darwin_unix ''RTAX_MAX'' = 8"
  "usize darwin_unix ''RTAX_DST'' = 0"
  "usize darwin_unix ''RTAX_GATEWAY'' = 1"
  "usize darwin_unix ''RTAX_NETMASK'' = 2"
  "usize darwin_unix ''RTAX_GENMASK'' = 3"
  "usize darwin_unix ''RTAX_IFP'' = 4"
  "usize darwin_unix ''RTAX_IFA'' = 5"
  "usize darwin_unix ''SizeofRtMsghdr'' = 92"
  "usize darwin_unix ''SizeofIfMsghdr'' = 112"
  "usize darwin_unix ''SizeofIfaMsghdr'' = 20"
  "usize darwin_unix ''SizeofSockaddrInet4'' = 16"
  "usize darwin_unix ''SizeofSockaddrInet6'' = 28"
  "usize darwin_unix ''SizeofSockaddrDatalink'' = 20"
  "usize darwin_unix ''len(RawSockaddrDatalink.Data)'' = 12"
  by code_simp+

lemma darwin_off [simp]:
  "off darwin_unix ''RtMsghdr.Flags'' = 8"
  "off darwin_unix ''RtMsghdr.Addrs'' = 12"
  "off darwin_unix ''RtMsghdr.Type'' = 3"
  "off darwin_unix ''RtMsghdr.Index'' = 4"
  "off darwin_unix ''RtMsghdr.Pid'' = 16"
  "off darwin_unix ''RtMsghdr.Seq'' = 20"
  "off darwin_unix ''IfMsghdr.Flags'' = 8"
  "off darwin_unix ''IfMsghdr.Index'' = 12"
  "off darwin_unix ''IfMsghdr.Addrs'' = 4"
  "off darwin_unix ''IfMsghdr.Type'' = 3"
  "off darwin_unix ''IfaMsghdr.Index'' = 12"
  "off darwin_unix ''IfaMsghdr.Addrs'' = 4"
  "off darwin_unix ''IfaMsghdr.Type'' = 3"
  "off darwin_unix ''RawSockaddr.Len'' = 0"
  "off darwin_unix ''RawSockaddr.Family'' = 1"
  "off darwin_unix ''RawSockaddrInet4.Addr'' = 4"
  "off darwin_unix ''RawSockaddrInet6.Addr'' = 8"
  "off darwin_unix ''RawSockaddrInet6.Scope_id'' = 24"
  "off darwin_unix ''RawSockaddrDatalink.Nlen'' = 5"
  "off darwin_unix ''RawSockaddrDatalink.Index'' = 2"
  "off darwin_unix ''RawSockaddrDatalink.Data'' = 8"
  by code_simp+

lemma darwin_endian [simp]: "\<not> big_endian darwin_unix"
  by (simp add: darwin_unix_def)

lemma darwin_abi: "abi_ok darwin_unix"
  by (simp add: abi_ok_def)

lemma darwin_overread: "overread darwin_unix = 12"
  by (simp add: overread_def largest_sockaddr_def)

text \<open>A machine without interface names and without the ioctl.\<close>

definition no_net :: net_env where
  "no_net = \<lparr>zone_name = (\<lambda>_. []), ioctl = (\<lambda>_ _ _. Inl (Errno 22))\<rparr>"

end
