(* ===== verification/Monitor_Props.thy ===== *)
theory Monitor_Props
  imports Darwin_Abi
begin

text \<open>
  The properties of the message parser and the monitor of main\_bsd.go.
\<close>

subsection \<open>Returning, and how far it reads\<close>

text \<open>
  C4. On any bytes whatsoever, well-formed or not, the parser of routing messages returns: it
  never loops, never slices out of range, never calls the HeaderLen that panics, and reads at
  most as far behind the slice it is given as the largest sockaddr is larger than an IPv4 one.
\<close>

theorem parse_always_returns:
  assumes "abi_ok u" and "p + n + overread u \<le> length mem"
  shows "\<exists>calls. parseAndLogMsgs u os env ioctlFd mem (p, n) filt = Some calls"
  using parse_loop_returns [OF assms, of os env ioctlFd filt 0]
  by (simp add: parseAndLogMsgs_def returns_def)

theorem parse_always_returns_witness:
  "\<exists>calls. parseAndLogMsgs darwin_unix Darwin no_net 3 (replicate 2048 0xff) (0, 2000) True = Some calls"
  by (rule parse_always_returns) (simp_all add: darwin_abi darwin_overread)

text \<open>
  An RTM\_NEWADDR message that ends in the first sixteen bytes of an IPv6 address: the header, the
  set of addresses with only the destination, and the start of the sockaddr.
\<close>

definition cut_message :: "byte list" where
  "cut_message =
     [36, 0, 5, 12, 1, 0, 0, 0, 0, 0, 0, 0, 1, 0, 0, 0, 0, 0, 0, 0] @
     [28, 30, 0, 0, 0, 0, 0, 0, 0xfe, 0x80, 0, 0, 0, 0, 0, 0]"

lemma rd16_le:
  assumes "\<not> big_endian u" and "i + 2 \<le> length mem"
  shows "rd16 u mem i = Some (ucast (of_be [mem ! (i + 1), mem ! i]))"
proof -
  have "take 2 (drop i mem) = [mem ! i, mem ! (i + 1)]"
    using assms(2) by (simp add: take_Suc_conv_app_nth numeral_2_eq_2)
  with assms show ?thesis by (simp add: rd16_def rd_def native_def)
qed

lemma rd32_le:
  assumes "\<not> big_endian u" and "i + 4 \<le> length mem"
  shows "rd32 u mem i = Some (ucast (of_be [mem ! (i + 3), mem ! (i + 2), mem ! (i + 1), mem ! i]))"
proof -
  have "take 4 (drop i mem) = [mem ! i, mem ! (i + 1), mem ! (i + 2), mem ! (i + 3)]"
    using assms(2) by (simp add: take_Suc_conv_app_nth eval_nat_numeral)
  with assms show ?thesis by (simp add: rd32_def rd_def native_def)
qed

lemmas of_be_lists =
  of_be_def foldl_Cons foldl_Nil

lemma cut_header:
  "msghdr_at darwin_unix Darwin cut_message 0 =
     Some \<lparr>Msglen = 36, Version = 5, mType = 12, Hdrlen = None\<rparr>"
  by (simp add: msghdr_at_def rd16_le rd8_def cut_message_def of_be_lists)

lemma cut_addrs:
  "ParseAddrs darwin_unix Darwin cut_message (no_addrs darwin_unix) (20, 16) 1 =
     Some ((replicate 8 None)[0 := Some 20])"
  by (simp add: ParseAddrs_def no_addrs_def upt_rec rd8_def cut_message_def RtaAlign_def)

lemma cut_ifa:
  "ifa_msg darwin_unix Darwin env fd False cut_message
     \<lparr>Msglen = 36, Version = 5, mType = 12, Hdrlen = None\<rparr> (0, 36) ix = None"
proof -
  have "appendAddrAttr darwin_unix env cut_message attrs ''dst'' (Some 20) fd 1 False = None" for attrs
    by (simp add: appendAddrAttr_def rd8_def rd_def cut_message_def)
  moreover have "rd16 darwin_unix cut_message 12 = Some 1" "rd32 darwin_unix cut_message 4 = Some 1"
    "rd8 cut_message 3 = Some 12"
    by (simp_all add: rd16_le rd32_le rd8_def cut_message_def of_be_lists)
  ultimately show ?thesis
    using cut_addrs by (simp add: ifa_msg_def AddrsBuf_def appendAddrAttrs_def)
qed

text \<open>
  C33. The bound of the previous property is needed. ParseAddrs points to an address as soon as the
  sixteen bytes of an IPv4 sockaddr are left, and appendAddrAttr then believes the length that the
  address states: on a message that ends inside an IPv6 address the code reads past its end.
\<close>

theorem parse_reads_past_message:
  "parseAndLogMsgs darwin_unix Darwin env ioctlFd cut_message (0, length cut_message) False = None \<and>
   (\<exists>calls. parseAndLogMsgs darwin_unix Darwin env ioctlFd (cut_message @ replicate 12 b)
      (0, length cut_message) False = Some calls)"
proof
  have len: "length cut_message = 36" by (simp add: cut_message_def)
  show "parseAndLogMsgs darwin_unix Darwin env ioctlFd cut_message (0, length cut_message) False = None"
  proof -
    have "parse_msg darwin_unix Darwin env ioctlFd False cut_message
        \<lparr>Msglen = 36, Version = 5, mType = 12, Hdrlen = None\<rparr> (0, 36) 0 = None"
      using cut_ifa [of env ioctlFd] by (simp add: parse_msg_def)
    then show ?thesis
      by (simp add: parseAndLogMsgs_def parse_loop.simps [of darwin_unix] cut_header len)
  qed
  show "\<exists>calls. parseAndLogMsgs darwin_unix Darwin env ioctlFd (cut_message @ replicate 12 b)
      (0, length cut_message) False = Some calls"
    using parse_loop_returns [OF darwin_abi, of 0 36 "cut_message @ replicate 12 b"]
    by (simp add: parseAndLogMsgs_def returns_def len darwin_overread)
qed

subsection \<open>What is logged\<close>

definition attr_ifindex :: "bsd_any attr list \<Rightarrow> nat option" where
  "attr_ifindex attrs = (case map_of attrs ''ifindex'' of Some (VUint64 w) \<Rightarrow> Some (unat w) | _ \<Rightarrow> None)"

text \<open>
  What filter mode promises, read off the calls: route messages are of gateways that are up and
  not of hosts, interface messages are of running interfaces that are neither loopback nor
  point-to-point, and address messages belong to the interface logged last.
\<close>

fun filtered :: "unix_env \<Rightarrow> nat \<Rightarrow> log_call list \<Rightarrow> bool" where
  "filtered u cur [] \<longleftrightarrow> True"
| "filtered u cur ((lvl, msg, attrs) # calls) \<longleftrightarrow>
     (if msg = ''rt_msghdr'' then
        (case map_of attrs ''flags'' of
           Some (VAny (RouteFlagsV f)) \<Rightarrow>
             f AND flag_mask u ''RTF_UP'' \<noteq> 0 \<and> f AND flag_mask u ''RTF_GATEWAY'' \<noteq> 0 \<and>
             f AND flag_mask u ''RTF_HOST'' = 0
         | _ \<Rightarrow> False) \<and> filtered u cur calls
      else if msg = ''if_msghdr'' then
        (case map_of attrs ''flags'' of
           Some (VAny (IfaceFlagsV f)) \<Rightarrow>
             f AND flag_mask u ''IFF_UP'' \<noteq> 0 \<and> f AND flag_mask u ''IFF_RUNNING'' \<noteq> 0 \<and>
             f AND flag_mask u ''IFF_LOOPBACK'' = 0 \<and> f AND flag_mask u ''IFF_POINTOPOINT'' = 0
         | _ \<Rightarrow> False) \<and>
        (case attr_ifindex attrs of Some i \<Rightarrow> filtered u i calls | None \<Rightarrow> False)
      else if msg = ''ifam_msghdr'' then attr_ifindex attrs = Some cur \<and> filtered u cur calls
      else filtered u cur calls)"

text \<open>If the call returns, it returns the attributes it was given with others behind them.\<close>

definition extends :: "'a list \<Rightarrow> 'a list option \<Rightarrow> bool" where
  "extends attrs r \<longleftrightarrow> (\<forall>r'. r = Some r' \<longrightarrow> (\<exists>new. r' = attrs @ new))"

lemma extends_rules:
  "extends attrs (Some attrs)"
  "extends attrs (Some (attrs @ a))"
  "extends attrs (Some ((attrs @ a) @ b))"
  "(\<And>x. extends attrs (f x)) \<Longrightarrow> extends attrs (r \<bind> f)"
  "extends attrs s \<Longrightarrow> extends attrs t \<Longrightarrow> extends attrs (if P then s else t)"
  "(\<And>x. extends attrs (g x)) \<Longrightarrow> (\<And>y. extends attrs (h y)) \<Longrightarrow>
    extends attrs (case w of Inl x \<Rightarrow> g x | Inr y \<Rightarrow> h y)"
  by (auto simp: extends_def bind_eq_Some_conv split: sum.splits)

lemma appendAddrAttr_extends: "extends attrs (appendAddrAttr u env mem attrs name sa fd ix un)"
  by (cases sa) (simp_all only: appendAddrAttr_def option.case Let_def, (intro extends_rules)+)

lemma appendAddrAttrs_extends:
  assumes "appendAddrAttrs u env mem attrs addrs fd ix def = Some r"
  shows "\<exists>new. r = attrs @ new"
  using assms appendAddrAttr_extends unfolding appendAddrAttrs_def
  by (simp add: bind_eq_Some_conv extends_def) (metis append.assoc)

lemma attr_ifindex_uint [simp]:
  "attr_ifindex (Uint_attr ''ifindex'' (unat (i :: 16 word)) # attrs) = Some (unat i)"
  "k \<noteq> ''ifindex'' \<Longrightarrow> attr_ifindex ((k, v) # attrs) = attr_ifindex attrs"
proof -
  have "unat i < 2 ^ 16" using unsigned_less [of i, where 'a = nat] by simp
  then show "attr_ifindex (Uint_attr ''ifindex'' (unat i) # attrs) = Some (unat i)"
    by (simp add: attr_ifindex_def Uint_attr_def unsigned_ucast_eq take_bit_nat_eq_self)
qed (simp add: attr_ifindex_def)

text \<open>What one message contributes in filter mode.\<close>

definition filtered_step :: "unix_env \<Rightarrow> 16 word \<Rightarrow> step \<Rightarrow> bool" where
  "filtered_step u ix s \<longleftrightarrow> (case s of
     Return calls \<Rightarrow> filtered u (unat ix) calls
   | Continue ix' calls \<Rightarrow>
       \<forall>later. filtered u (unat ix') later \<longrightarrow> filtered u (unat ix) (calls @ later))"

lemma filtered_error: "bad_hdrlen m msg = Some s \<Longrightarrow>
    msg \<notin> {''rt_msghdr'', ''if_msghdr'', ''ifam_msghdr''} \<Longrightarrow> filtered_step u ix s"
  by (auto simp: bad_hdrlen_def bind_eq_Some_conv filtered_step_def)

lemma route_msg_filtered:
  "route_msg u os env fd True mem m b ix = Some s \<Longrightarrow> filtered_step u ix s"
  by (auto simp: route_msg_def bind_eq_Some_conv filtered_step_def Any_attr_def Uint_attr_def
      split: if_splits option.splits dest!: appendAddrAttrs_extends filtered_error [where u = u and ix = ix])

lemma iface_msg_filtered:
  "iface_msg u os env fd True mem m b ix = Some s \<Longrightarrow> filtered_step u ix s"
  by (auto simp: iface_msg_def bind_eq_Some_conv filtered_step_def Any_attr_def
      split: if_splits option.splits dest!: appendAddrAttrs_extends filtered_error [where u = u and ix = ix])

lemma ifa_msg_filtered:
  "ifa_msg u os env fd True mem m b ix = Some s \<Longrightarrow> filtered_step u ix s"
  by (auto simp: ifa_msg_def bind_eq_Some_conv filtered_step_def Any_attr_def
      split: if_splits option.splits dest!: appendAddrAttrs_extends filtered_error [where u = u and ix = ix])

lemma parse_msg_filtered:
  assumes "parse_msg u os env fd True mem m b ix = Some s"
  shows "filtered_step u ix s"
proof -
  have "filtered_step u ix (Continue ix [(lvl, ''Unsupported message version'', at)])"
    "filtered_step u ix (Continue ix [(lvl, ''Unknown message type'', at)])" for lvl at
    by (simp_all add: filtered_step_def)
  with assms show ?thesis
    by (auto simp: parse_msg_def split: if_splits
        intro: route_msg_filtered iface_msg_filtered ifa_msg_filtered)
qed

text \<open>The unfolding of the loop at one message.\<close>

lemma parse_loop_cases:
  assumes "parse_loop u os env fd filt mem p n ix = Some calls"
  obtains (short) "n < SizeofMsghdr os" "calls = []"
  | (bad_length) m where "\<not> n < SizeofMsghdr os" "msghdr_at u os mem p = Some m"
      "unat (Msglen m) < SizeofMsghdr os \<or> unat (Msglen m) > n"
      "calls = [(LevelError, ''Invalid message length'', msg_attrs m)]"
  | (stop) m where "\<not> n < SizeofMsghdr os" "msghdr_at u os mem p = Some m"
      "SizeofMsghdr os \<le> unat (Msglen m)" "unat (Msglen m) \<le> n"
      "parse_msg u os env fd filt mem m (p, unat (Msglen m)) ix = Some (Return calls)"
  | (go_on) m ix' now later where "\<not> n < SizeofMsghdr os" "msghdr_at u os mem p = Some m"
      "SizeofMsghdr os \<le> unat (Msglen m)" "unat (Msglen m) \<le> n"
      "parse_msg u os env fd filt mem m (p, unat (Msglen m)) ix = Some (Continue ix' now)"
      "parse_loop u os env fd filt mem (p + unat (Msglen m)) (n - unat (Msglen m)) ix' = Some later"
      "calls = now @ later"
proof -
  note eq = parse_loop.simps [of u os env fd filt mem p n ix]
  show ?thesis
  proof (cases "n < SizeofMsghdr os")
    case True
    with assms eq show ?thesis by (intro short) simp_all
  next
    case long: False
    with assms eq obtain m where m: "msghdr_at u os mem p = Some m"
      by (auto simp: bind_eq_Some_conv)
    show ?thesis
    proof (cases "unat (Msglen m) < SizeofMsghdr os \<or> unat (Msglen m) > n")
      case True
      with assms eq long m have "calls = [(LevelError, ''Invalid message length'', msg_attrs m)]"
        by simp
      with True long m show ?thesis by (intro bad_length) simp_all
    next
      case ok: False
      with assms eq long m obtain s where
        s: "parse_msg u os env fd filt mem m (p, unat (Msglen m)) ix = Some s"
        by (auto simp: bind_eq_Some_conv)
      show ?thesis
      proof (cases s)
        case (Return c)
        with assms eq long m ok s show ?thesis by (intro stop [of m]) simp_all
      next
        case (Continue ix' now)
        with assms eq long m ok s obtain later where
          "parse_loop u os env fd filt mem (p + unat (Msglen m)) (n - unat (Msglen m)) ix' = Some later"
          "calls = now @ later"
          by (auto simp: bind_eq_Some_conv)
        with Continue long m ok s show ?thesis by (intro go_on [of m ix' now later]) simp_all
      qed
    qed
  qed
qed

lemma parse_loop_filtered:
  "parse_loop u os env fd True mem p n ix = Some calls \<Longrightarrow> filtered u (unat ix) calls"
proof (induction n arbitrary: p ix calls rule: less_induct)
  case (less n)
  from less.prems show ?case
  proof (cases rule: parse_loop_cases)
    case (stop m)
    with parse_msg_filtered [OF stop(5)] show ?thesis by (simp add: filtered_step_def)
  next
    case (go_on m ix' now later)
    then have "n - unat (Msglen m) < n" using SizeofMsghdr_pos [of os] by simp
    from less.IH [OF this go_on(6)] parse_msg_filtered [OF go_on(5)] go_on(7)
    show ?thesis by (simp add: filtered_step_def)
  qed simp_all
qed

text \<open>
  C6. In filter mode, whatever the bytes, only messages that pass the filter are logged as
  routes, interfaces and addresses, and every logged address message carries the index of the
  interface message logged last before it (index 0 before the first).
\<close>

theorem filter_correct:
  "case parseAndLogMsgs u os env ioctlFd mem b True of
     None \<Rightarrow> True
   | Some calls \<Rightarrow> filtered u 0 calls"
  using parse_loop_filtered [of u os env ioctlFd mem "fst b" "snd b" 0]
  by (auto simp: parseAndLogMsgs_def split: option.splits)

subsection \<open>One call per message\<close>

text \<open>
  The messages of a slice: the position and the header of each, and the bytes of the slice from its
  start on. One lies behind the other as the lengths in their headers say; a message with a
  length that cannot be is the last.
\<close>

definition bad_length :: "bsd \<Rightarrow> Msghdr \<Rightarrow> nat \<Rightarrow> bool" where
  "bad_length os m n \<longleftrightarrow> unat (Msglen m) < SizeofMsghdr os \<or> unat (Msglen m) > n"




text \<open>
  The level and the text of the call for a message. A message is malformed, and its call an error, if
  its length cannot be, if it is too short for the struct of its type, or if the header length in
  it is behind its end. A message of another version or of a type the program does not know is
  not malformed.
\<close>

definition body_heading ::
  "unix_env \<Rightarrow> Msghdr \<Rightarrow> string \<Rightarrow> string \<Rightarrow> string \<Rightarrow> string \<Rightarrow> level \<times> string" where
  "body_heading u m struct too_short bad_header fine =
     (if unat (Msglen m) < usize u struct then (LevelError, too_short)
      else case Hdrlen m of
        Some h \<Rightarrow> if unat h > unat (Msglen m) then (LevelError, bad_header) else (LevelInfo, fine)
      | None \<Rightarrow> (LevelInfo, fine))"

fun heading :: "unix_env \<Rightarrow> bsd \<Rightarrow> nat \<times> Msghdr \<times> nat \<Rightarrow> level \<times> string" where
  "heading u os (p, m, n) =
     (if bad_length os m n then (LevelError, ''Invalid message length'')
      else if uint (Version m) \<noteq> num u ''RTM_VERSION'' then (LevelWarn, ''Unsupported message version'')
      else if uint (mType m) \<in> {num u ''RTM_ADD'', num u ''RTM_DELETE'', num u ''RTM_CHANGE'', num u ''RTM_GET''}
        then body_heading u m ''SizeofRtMsghdr'' ''Invalid rt_msghdr length'' ''Invalid rtm_hdrlen'' ''rt_msghdr''
      else if uint (mType m) = num u ''RTM_IFINFO''
        then body_heading u m ''SizeofIfMsghdr'' ''Invalid if_msghdr length'' ''Invalid ifm_hdrlen'' ''if_msghdr''
      else if uint (mType m) \<in> {num u ''RTM_NEWADDR'', num u ''RTM_DELADDR''}
        then body_heading u m ''SizeofIfaMsghdr'' ''Invalid ifa_msghdr length'' ''Invalid ifam_hdrlen'' ''ifam_msghdr''
      else (LevelInfo, ''Unknown message type''))"


text \<open>
  The call for a message: its heading, and the values of this very message. A message that is logged
  as what it is has its type and its interface index, read where its struct has them, the others
  have what is in the common header.
\<close>

definition info_fields :: "(string \<times> string \<times> string) list" where
  "info_fields = [(''rt_msghdr'', ''RtMsghdr.Type'', ''RtMsghdr.Index''),
     (''if_msghdr'', ''IfMsghdr.Type'', ''IfMsghdr.Index''),
     (''ifam_msghdr'', ''IfaMsghdr.Type'', ''IfaMsghdr.Index'')]"

lemma info_fields_lookups [simp]:
  "map_of info_fields ''Invalid message length'' = None"
  "map_of info_fields ''Unsupported message version'' = None"
  "map_of info_fields ''Unknown message type'' = None"
  "map_of info_fields ''Invalid rt_msghdr length'' = None"
  "map_of info_fields ''Invalid if_msghdr length'' = None"
  "map_of info_fields ''Invalid ifa_msghdr length'' = None"
  "map_of info_fields ''Invalid rtm_hdrlen'' = None"
  "map_of info_fields ''Invalid ifm_hdrlen'' = None"
  "map_of info_fields ''Invalid ifam_hdrlen'' = None"
  "map_of info_fields ''rt_msghdr'' = Some (''RtMsghdr.Type'', ''RtMsghdr.Index'')"
  "map_of info_fields ''if_msghdr'' = Some (''IfMsghdr.Type'', ''IfMsghdr.Index'')"
  "map_of info_fields ''ifam_msghdr'' = Some (''IfaMsghdr.Type'', ''IfaMsghdr.Index'')"
  by (simp_all add: info_fields_def)

fun describes :: "unix_env \<Rightarrow> bsd \<Rightarrow> byte list \<Rightarrow> nat \<times> Msghdr \<times> nat \<Rightarrow> log_call \<Rightarrow> bool" where
  "describes u os mem (p, m, n) (lvl, msg, attrs) \<longleftrightarrow> (lvl, msg) = heading u os (p, m, n) \<and>
     (case map_of info_fields msg of
        Some (type_field, index_field) \<Rightarrow>
          map_of attrs ''type'' = map_option (VAny \<circ> MsgTypeV) (rd8 mem (p + off u type_field)) \<and>
          attr_ifindex attrs = map_option unat (rd16 u mem (p + off u index_field))
      | None \<Rightarrow>
          map_of attrs ''msglen'' = Some (VUint64 (ucast (Msglen m))) \<and>
          map_of attrs ''version'' = Some (VUint64 (ucast (Version m))) \<and>
          map_of attrs ''type'' \<in> {Some (VAny (MsgTypeV (mType m))), Some (VUint64 (ucast (mType m)))})"



lemma info_not_error [simp]: "LevelInfo \<noteq> LevelError" "LevelWarn \<noteq> LevelError"
  by (simp_all add: LevelInfo_def LevelError_def LevelWarn_def)

declare heading.simps [simp del] describes.simps [simp del]







lemma attrs_after [simp]:
  "attr_ifindex ((k, v) # Uint_attr ''ifindex'' (unat (i :: 16 word)) # as) =
     (if k = ''ifindex'' then attr_ifindex [(k, v)] else Some (unat i))"
  by (simp add: attr_ifindex_def [of "[_]"]) (simp add: attr_ifindex_def)









subsection \<open>The monitor\<close>

lemma monitor_loop_returns:
  assumes "abi_ok u" and "\<forall>bs. Inr bs \<in> set reads \<longrightarrow> length bs + overread u \<le> length b"
  shows "\<exists>calls. monitor_loop u os env fd b reads = Some calls"
  using assms(2)
proof (induction reads arbitrary: b)
  case (Cons r reads)
  show ?case
  proof (cases r)
    case (Inl e)
    with Cons.IH [of b] Cons.prems show ?thesis by auto
  next
    case (Inr bs)
    then have "0 + length bs + overread u \<le> length (copy_into b bs)" using Cons.prems by simp
    from parse_loop_returns [OF assms(1) this, of os env fd False 0] obtain now where
      "parseAndLogMsgs u os env fd (copy_into b bs) (0, length bs) False = Some now"
      by (auto simp: parseAndLogMsgs_def returns_def)
    moreover have "\<exists>later. monitor_loop u os env fd (copy_into b bs) reads = Some later"
      using Cons.IH [of "copy_into b bs"] Cons.prems by simp
    ultimately show ?thesis using Inr by auto
  qed
qed simp

text \<open>The buffer after a sequence of reads, which splits a run of the monitor.\<close>

fun buffer_after :: "byte list \<Rightarrow> (string + byte list) list \<Rightarrow> byte list" where
  "buffer_after b [] = b"
| "buffer_after b (Inl err # reads) = buffer_after b reads"
| "buffer_after b (Inr bs # reads) = buffer_after (copy_into b bs) reads"

lemma length_buffer_after [simp]: "length (buffer_after b reads) = length b"
  by (induction b reads rule: buffer_after.induct) simp_all

lemma monitor_loop_append:
  "monitor_loop u os env fd b (xs @ ys) = do {
     calls \<leftarrow> monitor_loop u os env fd b xs;
     later \<leftarrow> monitor_loop u os env fd (buffer_after b xs) ys;
     Some (calls @ later) }"
proof (induction b xs rule: buffer_after.induct)
  case (2 b err reads)
  then show ?case by (cases "monitor_loop u os env fd b reads") (simp_all add: Option.bind_assoc)
next
  case (3 b bs reads)
  then show ?case
    by (cases "monitor_loop u os env fd (copy_into b bs) reads") (simp_all add: Let_def Option.bind_assoc)
qed simp

text \<open>
  C20. The monitor survives any sequence of read errors and of messages that leave room in its
  buffer, malformed ones included: it handles each of them and goes on; a read error makes exactly
  one call, and a malformed message does not affect the messages of later reads.
\<close>

theorem monitor_survives:
  assumes "abi_ok u"
    and "\<forall>bs. Inr bs \<in> set (before @ r # after) \<longrightarrow> length bs + overread u \<le> readBufSize"
  shows "\<exists>calls b0 b1 now later.
    monitorRoutingSocket u os env fd (before @ r # after) = Some (calls @ now @ later) \<and>
    monitorRoutingSocket u os env fd before = Some calls \<and>
    (case r of
       Inl e \<Rightarrow> now = [(LevelError, ''Failed to read route message'', [Err_attr e])]
     | Inr bs \<Rightarrow> take (length bs) b0 = bs \<and>
         parseAndLogMsgs u os env fd b0 (0, length bs) False = Some now) \<and>
    monitor_loop u os env fd b1 after = Some later"
proof -
  let ?b = "buffer_after (replicate readBufSize 0) before"
  have room: "\<forall>bs. Inr bs \<in> set reads \<longrightarrow> length bs + overread u \<le> length b"
    if "length b = readBufSize" "set reads \<subseteq> set (before @ r # after)" for b reads
    using assms(2) that by auto
  note returns = monitor_loop_returns [OF assms(1) room, of _ _ os env fd]
  obtain calls now later where parts: "monitor_loop u os env fd (replicate readBufSize 0) before = Some calls"
      "monitor_loop u os env fd ?b [r] = Some now"
      "monitor_loop u os env fd (buffer_after ?b [r]) after = Some later"
    using returns [of "replicate readBufSize 0" before] returns [of ?b "[r]"]
      returns [of "buffer_after ?b [r]" after] by auto
  then have run: "monitorRoutingSocket u os env fd (before @ [r] @ after) = Some (calls @ now @ later)"
    by (simp add: monitorRoutingSocket_def monitor_loop_append del: append_Cons append_Nil)
  show ?thesis
  proof (cases r)
    case (Inl e)
    with parts run show ?thesis by (auto simp: monitorRoutingSocket_def)
  next
    case (Inr bs)
    then have "length bs \<le> readBufSize" using assms(2) by force
    then have "take (length bs) (copy_into ?b bs) = bs" by (simp add: copy_into_def)
    moreover have "parseAndLogMsgs u os env fd (copy_into ?b bs) (0, length bs) False = Some now"
      using parts(2) Inr by (auto simp: bind_eq_Some_conv Let_def)
    ultimately show ?thesis
      using parts run Inr
      by (intro exI [of _ calls] exI [of _ "copy_into ?b bs"] exI [of _ "buffer_after ?b [r]"]
          exI [of _ now] exI [of _ later]) (simp add: monitorRoutingSocket_def)
  qed
qed

theorem monitor_survives_witness:
  "\<exists>calls. monitorRoutingSocket darwin_unix Darwin no_net 3
     [Inl ''interrupted'', Inr cut_message, Inr [1, 0]] = Some calls"
proof -
  have "\<forall>bs. Inr bs \<in> set ([Inl ''interrupted''] @ Inr cut_message # [Inr [1, 0]]) \<longrightarrow>
      length bs + overread darwin_unix \<le> readBufSize"
    by (auto simp: readBufSize_def darwin_overread cut_message_def)
  from monitor_survives [OF darwin_abi this, where os = Darwin and env = no_net and fd = 3]
  show ?thesis by (elim exE conjE) simp
qed

subsection \<open>The program\<close>

text \<open>The information base of a dump.\<close>

definition dump_mib :: "unix_env \<Rightarrow> string \<Rightarrow> int list" where
  "dump_mib u what = [num u ''CTL_NET'', num u ''AF_ROUTE'', 0, num u ''AF_UNSPEC'', num u what, 0]"

text \<open>
  The ways the program goes from state \<open>k\<close>: a call to the system that fails ends it with one error
  with no source, after the calls of the interface dump if that was read. If none fails, the interface
  dump and then the route dump are parsed with the ioctl socket, and the monitor goes on with it.
\<close>

definition ioctl_socket ::
  "unix_env \<Rightarrow> bsd \<Rightarrow> 'k sock_ops \<Rightarrow> 'k \<Rightarrow> (syscall_error + int) \<times> 'k" where
  "ioctl_socket u os sock k = Socket u os sock (num u ''AF_INET6'') (num u ''SOCK_DGRAM'') 0 k"

definition exits_with ::
  "unix_env \<Rightarrow> bsd \<Rightarrow> net_env \<Rightarrow> 'k sock_ops \<Rightarrow> 'k sysctl_ops \<Rightarrow> bool \<Rightarrow> 'k \<Rightarrow>
   string \<Rightarrow> syscall_error \<Rightarrow> log_call list \<Rightarrow> 'k \<Rightarrow> bool" where
  "exits_with u os env sock sysctl dumpAll k msg e ifaces k' \<longleftrightarrow>
     (msg = ''Failed to open routing socket'' \<and> ifaces = [] \<and> OpenRoutingSocket u os sock k = (Inl e, k')) \<or>
     (\<exists>f k1. OpenRoutingSocket u os sock k = (Inr f, k1) \<and>
       (msg = ''Failed to open ioctl socket'' \<and> ifaces = [] \<and> ioctl_socket u os sock k1 = (Inl e, k') \<or>
        (\<exists>fd k2. ioctl_socket u os sock k1 = (Inr fd, k2) \<and>
          (msg = ''Failed to get interface dump'' \<and> ifaces = [] \<and>
             SysctlGetBytes sysctl (dump_mib u ''NET_RT_IFLIST'') k2 = Some (Inl e, k') \<or>
           (\<exists>b k3. SysctlGetBytes sysctl (dump_mib u ''NET_RT_IFLIST'') k2 = Some (Inr b, k3) \<and>
              msg = ''Failed to get route dump'' \<and>
              parseAndLogMsgs u os env fd b (0, length b) (\<not> dumpAll) = Some ifaces \<and>
              SysctlGetBytes sysctl (dump_mib u ''NET_RT_DUMP'') k3 = Some (Inl e, k'))))))"

definition monitors_with ::
  "unix_env \<Rightarrow> bsd \<Rightarrow> net_env \<Rightarrow> 'k sock_ops \<Rightarrow> 'k sysctl_ops \<Rightarrow> bool \<Rightarrow> (string + byte list) list \<Rightarrow> 'k \<Rightarrow>
   log_call list \<Rightarrow> log_call list \<Rightarrow> log_call list \<Rightarrow> 'k \<Rightarrow> bool" where
  "monitors_with u os env sock sysctl dumpAll reads k ifaces routes monitor k' \<longleftrightarrow>
     (\<exists>f k1 fd k2 b1 k3 b2. OpenRoutingSocket u os sock k = (Inr f, k1) \<and>
        ioctl_socket u os sock k1 = (Inr fd, k2) \<and>
        SysctlGetBytes sysctl (dump_mib u ''NET_RT_IFLIST'') k2 = Some (Inr b1, k3) \<and>
        parseAndLogMsgs u os env fd b1 (0, length b1) (\<not> dumpAll) = Some ifaces \<and>
        SysctlGetBytes sysctl (dump_mib u ''NET_RT_DUMP'') k3 = Some (Inr b2, k') \<and>
        parseAndLogMsgs u os env fd b2 (0, length b2) (\<not> dumpAll) = Some routes \<and>
        monitorRoutingSocket u os env fd reads = Some monitor)"

lemma main_exits:
  assumes "main_bsd u os env sock sysctl err_text dumpAll reads k = Some (Exit1 calls, k')"
  shows "\<exists>msg e ifaces. exits_with u os env sock sysctl dumpAll k msg e ifaces k' \<and>
    calls = map (\<lambda>c. (Some ''interface'', c)) ifaces @ [(None, LevelError, msg, [Err_attr (err_text e)])]"
  using assms
  by (auto simp: main_bsd_def Let_def exits_with_def ioctl_socket_def dump_mib_def
      split: prod.split_asm sum.split_asm Option.bind_split_asm)

lemma main_monitors:
  assumes "main_bsd u os env sock sysctl err_text dumpAll reads k = Some (Monitoring calls, k')"
  shows "\<exists>ifaces routes monitor. monitors_with u os env sock sysctl dumpAll reads k ifaces routes monitor k' \<and>
    calls = map (\<lambda>c. (Some ''interface'', c)) ifaces @
      map (\<lambda>c. (Some ''route'', c)) routes @ map (\<lambda>c. (Some ''monitor'', c)) monitor"
  using assms
  by (auto simp: main_bsd_def Let_def monitors_with_def ioctl_socket_def dump_mib_def
      split: prod.split_asm sum.split_asm Option.bind_split_asm)

end
