(* ===== verification/Route_Windows.thy ===== *)
theory Route_Windows
  imports Tslog
begin

text \<open>
  route/cmd/route/main\_windows.go: the handler of route change notifications and the life of the
  goroutines around it. The system calls and the constants come from x/sys/windows and are
  arguments; a sockaddr is its family and what the two overlays of the union read from it. The
  handler yields the calls it makes on its logger, in order.
\<close>

type_synonym win_log_call = "level \<times> string \<times> unit attr list"

record win_env =
  AF_INET :: "16 word"
  AF_INET6 :: "16 word"
  MibParameterNotification :: "32 word"
  MibAddInstance :: "32 word"
  MibDeleteInstance :: "32 word"
  MibInitialNotification :: "32 word"

record RawSockaddrInet =
  sa_family :: "16 word"
  sa4_addr :: "byte list"
  sa6_addr :: "byte list"

record IpAddressPrefix =
  ipp_prefix :: RawSockaddrInet
  ipp_length :: byte

record MibIpForwardRow2 =
  row_InterfaceLuid :: "64 word"
  row_InterfaceIndex :: "32 word"
  row_DestinationPrefix :: IpAddressPrefix
  row_NextHop :: RawSockaddrInet
  row_SitePrefixLength :: byte
  row_ValidLifetime :: "32 word"
  row_PreferredLifetime :: "32 word"
  row_Metric :: "32 word"
  row_Protocol :: "32 word"
  row_Loopback :: byte
  row_AutoconfigureAddress :: byte
  row_Publish :: byte
  row_Immortal :: byte
  row_Age :: "32 word"
  row_Origin :: "32 word"

record mibIpForwardRow2Notification =
  InterfaceLuid :: "64 word"
  InterfaceIndex :: "32 word"
  DestinationPrefix :: IpAddressPrefix
  NextHop :: RawSockaddrInet
  NotificationType :: "32 word"

datatype win_err = ERROR_NOT_FOUND | WinErr string

fun syscall_text :: "string \<Rightarrow> win_err \<Rightarrow> string" where
  "syscall_text call ERROR_NOT_FOUND = call @ '': Element not found.''"
| "syscall_text call (WinErr e) = call @ '': '' @ e"

record 'k win_ops =
  GetIpForwardEntry2 :: "MibIpForwardRow2 \<Rightarrow> 'k \<Rightarrow> (win_err + MibIpForwardRow2) \<times> 'k"
  GetIpForwardTable2 :: "'k \<Rightarrow> (win_err + MibIpForwardRow2 list) \<times> 'k"
  FreeMibTable :: "'k \<Rightarrow> 'k"

definition zero_sockaddr :: RawSockaddrInet where
  "zero_sockaddr = \<lparr>sa_family = 0, sa4_addr = replicate 4 0, sa6_addr = replicate 16 0\<rparr>"

definition zero_row :: MibIpForwardRow2 where
  "zero_row = \<lparr>row_InterfaceLuid = 0, row_InterfaceIndex = 0,
     row_DestinationPrefix = \<lparr>ipp_prefix = zero_sockaddr, ipp_length = 0\<rparr>, row_NextHop = zero_sockaddr,
     row_SitePrefixLength = 0, row_ValidLifetime = 0, row_PreferredLifetime = 0, row_Metric = 0,
     row_Protocol = 0, row_Loopback = 0, row_AutoconfigureAddress = 0, row_Publish = 0,
     row_Immortal = 0, row_Age = 0, row_Origin = 0\<rparr>"

subsection \<open>The handler\<close>

definition ipFromSockaddrInet :: "win_env \<Rightarrow> RawSockaddrInet \<Rightarrow> Addr" where
  "ipFromSockaddrInet env sa =
     (if sa_family sa = AF_INET env then AddrFrom4 (sa4_addr sa)
      else if sa_family sa = AF_INET6 env then AddrFrom16 (sa6_addr sa)
      else zero_addr)"

definition prefixFromIpAddressPrefix :: "win_env \<Rightarrow> IpAddressPrefix \<Rightarrow> Prefix" where
  "prefixFromIpAddressPrefix env p =
     PrefixFrom (ipFromSockaddrInet env (ipp_prefix p)) (uint (ipp_length p))"

definition logMibIpForwardRow2 :: "win_env \<Rightarrow> MibIpForwardRow2 \<Rightarrow> bool \<Rightarrow> win_log_call list" where
  "logMibIpForwardRow2 env row defaultOnly =
     (let destinationPrefix = prefixFromIpAddressPrefix env (row_DestinationPrefix row)
      in if defaultOnly \<and>
           (Bits destinationPrefix \<noteq> 0 \<or> \<not> IsUnspecified (pf_ip destinationPrefix)) then []
         else [(LevelInfo, ''MibIpForwardRow2'',
           [Uint_attr ''InterfaceLuid'' (unat (row_InterfaceLuid row)),
            Uint_attr ''InterfaceIndex'' (unat (row_InterfaceIndex row)),
            Prefix_attr ''DestinationPrefix'' destinationPrefix,
            Addr_attr ''NextHop'' (ipFromSockaddrInet env (row_NextHop row)),
            Uint_attr ''SitePrefixLength'' (unat (row_SitePrefixLength row)),
            Uint_attr ''ValidLifetime'' (unat (row_ValidLifetime row)),
            Uint_attr ''PreferredLifetime'' (unat (row_PreferredLifetime row)),
            Uint_attr ''Metric'' (unat (row_Metric row)),
            Uint_attr ''Protocol'' (unat (row_Protocol row)),
            Uint_attr ''Loopback'' (unat (row_Loopback row)),
            Uint_attr ''AutoconfigureAddress'' (unat (row_AutoconfigureAddress row)),
            Uint_attr ''Publish'' (unat (row_Publish row)),
            Uint_attr ''Immortal'' (unat (row_Immortal row)),
            Uint_attr ''Age'' (unat (row_Age row)),
            Uint_attr ''Origin'' (unat (row_Origin row))])])"

definition received :: "win_env \<Rightarrow> mibIpForwardRow2Notification \<Rightarrow> win_log_call" where
  "received env nmsg = (LevelInfo, ''Received route change notification'',
     [Uint_attr ''InterfaceLuid'' (unat (InterfaceLuid nmsg)),
      Uint_attr ''InterfaceIndex'' (unat (InterfaceIndex nmsg)),
      Prefix_attr ''DestinationPrefix'' (prefixFromIpAddressPrefix env (DestinationPrefix nmsg)),
      Addr_attr ''NextHop'' (ipFromSockaddrInet env (NextHop nmsg)),
      Uint_attr ''NotificationType'' (unat (NotificationType nmsg))])"

text \<open>The package variable initialNotificationHandled is a part of the state.\<close>

definition handleMibIpForwardRow2Notification ::
  "win_env \<Rightarrow> 'k win_ops \<Rightarrow> bool \<Rightarrow> mibIpForwardRow2Notification \<Rightarrow> bool \<times> 'k \<Rightarrow>
   win_log_call list \<times> bool \<times> 'k" where
  "handleMibIpForwardRow2Notification env ops dumpAll nmsg = (\<lambda>(initialNotificationHandled, k).
     let first = received env nmsg; t = NotificationType nmsg
     in if t = MibParameterNotification env \<or> t = MibAddInstance env \<or> t = MibDeleteInstance env then
          let row = zero_row\<lparr>row_InterfaceLuid := InterfaceLuid nmsg,
                row_InterfaceIndex := InterfaceIndex nmsg,
                row_DestinationPrefix := DestinationPrefix nmsg, row_NextHop := NextHop nmsg\<rparr>
          in case GetIpForwardEntry2 ops row k of
               (Inl err, k) \<Rightarrow>
                 if err = ERROR_NOT_FOUND then
                   ([first, (LevelDebug, ''Skipping route change notification for route that no longer exists'', [])],
                    initialNotificationHandled, k)
                 else
                   ([first, (LevelError, ''Failed to get route information for route change notification'',
                      [Err_attr (syscall_text ''GetIpForwardEntry2'' err)])],
                    initialNotificationHandled, k)
             | (Inr row, k) \<Rightarrow> (first # logMibIpForwardRow2 env row False, initialNotificationHandled, k)
        else if t = MibInitialNotification env then
          if initialNotificationHandled then
            ([first, (LevelDebug, ''Skipping subsequent initial notification'', [])], True, k)
          else case GetIpForwardTable2 ops k of
              (Inl err, k) \<Rightarrow>
                ([first, (LevelError, ''Failed to get route table'',
                   [Err_attr (syscall_text ''GetIpForwardTable2'' err)])], True, k)
            | (Inr rows, k) \<Rightarrow>
                (first # concat (map (\<lambda>row. logMibIpForwardRow2 env row (\<not> dumpAll)) rows), True,
                 FreeMibTable ops k)
        else ([first, (LevelWarn, ''Unknown notification type'', [])], initialNotificationHandled, k))"

text \<open>The consumer goroutine: the notifications in the order it receives them.\<close>

fun handle_run ::
  "win_env \<Rightarrow> 'k win_ops \<Rightarrow> bool \<Rightarrow> mibIpForwardRow2Notification list \<Rightarrow> bool \<times> 'k \<Rightarrow>
   win_log_call list \<times> bool \<times> 'k" where
  "handle_run env ops dumpAll [] s = ([], s)"
| "handle_run env ops dumpAll (n # ns) s =
     (let (calls, s) = handleMibIpForwardRow2Notification env ops dumpAll n s;
          (later, s) = handle_run env ops dumpAll ns s
      in (calls @ later, s))"

subsection \<open>The goroutines\<close>

text \<open>
  The goroutine of run is at its system call NotifyRouteChange2, waits for the context, is at
  CancelMibChangeNotify2, or unwinds its deferred calls: unpin, close the channel, wait for the
  consumer. A callback that has started has built its notification and sends it on the unbuffered
  channel: it stays in flight until the consumer receives it.
\<close>

datatype run_pc = Registering | Waiting | Cancelling | Unpinning | Closing | Joining | Finished

datatype consumer_pc = Receiving | Handling mibIpForwardRow2Notification | Exited

record 'k wstate =
  pc :: run_pc
  inflight :: "mibIpForwardRow2Notification list"
  consumer :: consumer_pc
  closed :: bool
  pinned :: bool
  registered :: bool
  cancel_failed :: bool
  panicked :: bool
  handler_state :: "bool \<times> 'k"
  run_log :: "win_log_call list"
  handler_log :: "win_log_call list"
  notified :: "mibIpForwardRow2Notification list"
  handled :: "mibIpForwardRow2Notification list"

definition run_start :: "'k \<Rightarrow> 'k wstate" where
  "run_start k = \<lparr>pc = Registering, inflight = [], consumer = Receiving, closed = False, pinned = True,
     registered = False, cancel_failed = False, panicked = False, handler_state = (False, k),
     run_log = [], handler_log = [], notified = [], handled = []\<rparr>"

text \<open>
  The steps. What the system promises is in the conditions of the steps that it takes: it calls
  back while it registers and until the registration is cancelled; a registration that fails has
  no callback running, one that succeeds has no initial one running, and a successful cancellation
  waits for the running callbacks.
\<close>

definition notification ::
  "MibIpForwardRow2 option \<Rightarrow> 32 word \<Rightarrow> mibIpForwardRow2Notification" where
  "notification row notificationType = (case row of
     None \<Rightarrow> \<lparr>InterfaceLuid = 0, InterfaceIndex = 0,
       DestinationPrefix = \<lparr>ipp_prefix = zero_sockaddr, ipp_length = 0\<rparr>, NextHop = zero_sockaddr,
       NotificationType = notificationType\<rparr>
   | Some row \<Rightarrow> \<lparr>InterfaceLuid = row_InterfaceLuid row, InterfaceIndex = row_InterfaceIndex row,
       DestinationPrefix = row_DestinationPrefix row, NextHop = row_NextHop row,
       NotificationType = notificationType\<rparr>)"

inductive wstep :: "win_env \<Rightarrow> 'k win_ops \<Rightarrow> bool \<Rightarrow> 'k wstate \<Rightarrow> 'k wstate \<Rightarrow> bool"
  for env ops dumpAll where
  callback: "pc s = Registering \<or> registered s \<Longrightarrow> n = notification row t \<Longrightarrow>
     wstep env ops dumpAll s (s\<lparr>inflight := inflight s @ [n], notified := notified s @ [n]\<rparr>)"
| send: "inflight s = as @ n # bs \<Longrightarrow> consumer s = Receiving \<Longrightarrow> \<not> closed s \<Longrightarrow>
     wstep env ops dumpAll s (s\<lparr>inflight := as @ bs, consumer := Handling n\<rparr>)"
| send_closed: "inflight s \<noteq> [] \<Longrightarrow> closed s \<Longrightarrow> wstep env ops dumpAll s (s\<lparr>panicked := True\<rparr>)"
| handle: "consumer s = Handling n \<Longrightarrow>
     handleMibIpForwardRow2Notification env ops dumpAll n (handler_state s) = (calls, hs) \<Longrightarrow>
     wstep env ops dumpAll s (s\<lparr>consumer := Receiving, handler_state := hs,
       handler_log := handler_log s @ calls, handled := handled s @ [n]\<rparr>)"
| consumer_exit: "consumer s = Receiving \<Longrightarrow> closed s \<Longrightarrow>
     wstep env ops dumpAll s (s\<lparr>consumer := Exited\<rparr>)"
| register: "pc s = Registering \<Longrightarrow>
     list_all (\<lambda>n. NotificationType n \<noteq> MibInitialNotification env) (inflight s) \<Longrightarrow>
     wstep env ops dumpAll s (s\<lparr>pc := Waiting, registered := True, run_log := run_log s @
       [(LevelInfo, ''Registered for route change notifications'', [Uint_attr ''notificationHandle'' h])]\<rparr>)"
| register_fails: "pc s = Registering \<Longrightarrow> inflight s = [] \<Longrightarrow>
     wstep env ops dumpAll s (s\<lparr>pc := Unpinning, run_log := run_log s @
       [(LevelError, ''Failed to register for route change notifications'',
         [Err_attr (syscall_text ''NotifyRouteChange2'' e)])]\<rparr>)"
| context_done: "pc s = Waiting \<Longrightarrow> wstep env ops dumpAll s (s\<lparr>pc := Cancelling\<rparr>)"
| cancel: "pc s = Cancelling \<Longrightarrow> inflight s = [] \<Longrightarrow>
     wstep env ops dumpAll s (s\<lparr>pc := Unpinning, registered := False, run_log := run_log s @
       [(LevelInfo, ''Unregistered for route change notifications'', [])]\<rparr>)"
| cancel_fails: "pc s = Cancelling \<Longrightarrow>
     wstep env ops dumpAll s (s\<lparr>pc := Unpinning, cancel_failed := True, run_log := run_log s @
       [(LevelError, ''Failed to unregister for route change notifications'',
         [Uint_attr ''notificationHandle'' h, Err_attr (syscall_text ''CancelMibChangeNotify2'' e)])]\<rparr>)"
| unpin: "pc s = Unpinning \<Longrightarrow> wstep env ops dumpAll s (s\<lparr>pc := Closing, pinned := False\<rparr>)"
| close: "pc s = Closing \<Longrightarrow> wstep env ops dumpAll s (s\<lparr>pc := Joining, closed := True\<rparr>)"
| join: "pc s = Joining \<Longrightarrow> consumer s = Exited \<Longrightarrow>
     wstep env ops dumpAll s (s\<lparr>pc := Finished\<rparr>)"

inductive wsteps :: "win_env \<Rightarrow> 'k win_ops \<Rightarrow> bool \<Rightarrow> 'k wstate \<Rightarrow> 'k wstate \<Rightarrow> bool"
  for env ops dumpAll where
  stay: "wsteps env ops dumpAll s s"
| go: "wsteps env ops dumpAll s t \<Longrightarrow> wstep env ops dumpAll t u \<Longrightarrow> wsteps env ops dumpAll s u"

end
