(* ===== verification/Windows_Props.thy ===== *)
theory Windows_Props
  imports Route_Windows "HOL-Library.Multiset"
begin

text \<open>
  Properties of the Windows route monitor: what the handler logs over a run of notifications, and
  safety and progress of the goroutines.
\<close>

subsection \<open>The handler\<close>

lemma handle_run_append:
  "handle_run env ops dumpAll (ns @ ms) s =
    (let (calls, s) = handle_run env ops dumpAll ns s; (later, s) = handle_run env ops dumpAll ms s
     in (calls @ later, s))"
  by (induction ns arbitrary: s) (auto simp: Let_def split: prod.split)

definition is_initial :: "win_env \<Rightarrow> mibIpForwardRow2Notification \<Rightarrow> bool" where
  "is_initial env n \<longleftrightarrow> NotificationType n = MibInitialNotification env"

lemma handle_other:
  assumes "\<not> is_initial env n"
  shows "\<exists>calls k'. handleMibIpForwardRow2Notification env ops dumpAll n (b, k) = (calls, b, k')"
  using assms
  by (auto simp: handleMibIpForwardRow2Notification_def is_initial_def Let_def
      split: prod.split sum.split)

lemma run_others:
  "list_all (\<lambda>n. \<not> is_initial env n) ns \<Longrightarrow>
   \<exists>calls k'. handle_run env ops dumpAll ns (b, k) = (calls, b, k')"
proof (induction ns arbitrary: k)
  case (Cons n ns)
  obtain calls k1 where "handleMibIpForwardRow2Notification env ops dumpAll n (b, k) = (calls, b, k1)"
    using handle_other [of env n ops dumpAll b k] Cons.prems by auto
  moreover obtain later k2 where "handle_run env ops dumpAll ns (b, k1) = (later, b, k2)"
    using Cons.IH [of k1] Cons.prems by auto
  ultimately show ?case by simp
qed simp

text \<open>Once the flag is set the table is never read again.\<close>

lemma handle_flag_set:
  "handleMibIpForwardRow2Notification env (ops\<lparr>GetIpForwardTable2 := f\<rparr>) dumpAll n (True, k) =
   handleMibIpForwardRow2Notification env ops dumpAll n (True, k)"
  "\<exists>calls k'. handleMibIpForwardRow2Notification env ops dumpAll n (True, k) = (calls, True, k')"
  by (auto simp: handleMibIpForwardRow2Notification_def Let_def split: prod.split sum.split)

lemma run_flag_set:
  "handle_run env (ops\<lparr>GetIpForwardTable2 := f\<rparr>) dumpAll ns (True, k) =
   handle_run env ops dumpAll ns (True, k)"
proof (induction ns arbitrary: k)
  case (Cons n ns)
  obtain calls k' where "handleMibIpForwardRow2Notification env ops dumpAll n (True, k) = (calls, True, k')"
    using handle_flag_set(2) [of env ops dumpAll n k] by auto
  with Cons.IH [of k'] show ?case by (simp add: handle_flag_set(1))
qed simp

text \<open>The default routes of the two families.\<close>

definition default_route :: "win_env \<Rightarrow> MibIpForwardRow2 \<Rightarrow> bool" where
  "default_route env r \<longleftrightarrow> prefixFromIpAddressPrefix env (row_DestinationPrefix r) \<in>
     {PrefixFrom (AddrFrom4 [0, 0, 0, 0]) 0, PrefixFrom IPv6Unspecified 0}"

lemma default_prefix_iff:
  "p \<in> {PrefixFrom (AddrFrom4 [0, 0, 0, 0]) 0, PrefixFrom IPv6Unspecified 0} \<longleftrightarrow>
   Bits p = 0 \<and> IsUnspecified (pf_ip p)"
proof -
  have "Bits p = 0 \<longleftrightarrow> bitsPlusOne p = 1" by (simp add: Bits_def word_uint_eq_iff)
  moreover have "PrefixFrom (AddrFrom4 [0, 0, 0, 0]) 0 = \<lparr>pf_ip = AddrFrom4 [0, 0, 0, 0], bitsPlusOne = 1\<rparr>"
    "PrefixFrom IPv6Unspecified 0 = \<lparr>pf_ip = IPv6Unspecified, bitsPlusOne = 1\<rparr>"
    by (simp_all add: PrefixFrom_def AddrFrom4_def IPv6Unspecified_def withoutZone_def Is6_def BitLen_def)
  ultimately show ?thesis by (cases p) (auto simp: IsUnspecified_def)
qed

lemma logged_rows:
  "concat (map (\<lambda>row. logMibIpForwardRow2 env row (\<not> dumpAll)) rows) =
   concat (map (\<lambda>row. logMibIpForwardRow2 env row False) (filter (\<lambda>r. dumpAll \<or> default_route env r) rows))"
  by (induction rows)
    (simp_all only: default_route_def default_prefix_iff,
      auto simp: logMibIpForwardRow2_def Let_def)

text \<open>
  C23. Over any run of notifications the route table is dumped once, when the first initial
  notification is handled: after it the rest of the run does not depend on what the table call
  would answer. The dump has every row in the order of the table, or just the default routes of the
  two families if not everything is asked for. If the table cannot be read then, the error is
  logged and, as the flag is already set, the dump never happens.
\<close>

theorem initial_dump_once:
  assumes "MibInitialNotification env \<notin>
      {MibParameterNotification env, MibAddInstance env, MibDeleteInstance env}"
    and "list_all (\<lambda>m. \<not> is_initial env m) pre" and "is_initial env n"
  shows "\<exists>before k1 dump k2.
    handle_run env ops dumpAll pre (False, k) = (before, False, k1) \<and>
    handle_run env ops dumpAll (pre @ n # post) (False, k) =
      (let (later, s) = handle_run env (ops\<lparr>GetIpForwardTable2 := f\<rparr>) dumpAll post (True, k2)
       in (before @ received env n # dump @ later, s)) \<and>
    (case GetIpForwardTable2 ops k1 of
       (Inl err, k') \<Rightarrow> k2 = k' \<and> dump = [(LevelError, ''Failed to get route table'',
           [Err_attr (syscall_text ''GetIpForwardTable2'' err)])]
     | (Inr rows, k') \<Rightarrow> k2 = FreeMibTable ops k' \<and>
         dump = concat (map (\<lambda>row. logMibIpForwardRow2 env row False)
           (filter (\<lambda>r. dumpAll \<or> default_route env r) rows)))"
proof -
  obtain before k1 where pre: "handle_run env ops dumpAll pre (False, k) = (before, False, k1)"
    using run_others [OF assms(2), of ops dumpAll False k] by auto
  obtain answer k' where table: "GetIpForwardTable2 ops k1 = (answer, k')" by fastforce
  have n: "NotificationType n = MibInitialNotification env" using assms(3) by (simp add: is_initial_def)
  show ?thesis
    using pre n assms(1) table
    by (cases answer)
      (simp_all add: handle_run_append run_flag_set handleMibIpForwardRow2Notification_def Let_def
        logged_rows split: prod.split)
qed

definition sample_win :: win_env where
  "sample_win = \<lparr>AF_INET = 2, AF_INET6 = 23, MibParameterNotification = 0, MibAddInstance = 1,
     MibDeleteInstance = 2, MibInitialNotification = 3\<rparr>"

definition sample_row :: "byte \<Rightarrow> MibIpForwardRow2" where
  "sample_row b = zero_row\<lparr>row_DestinationPrefix :=
     \<lparr>ipp_prefix = \<lparr>sa_family = 2, sa4_addr = [b, 0, 0, 0], sa6_addr = []\<rparr>, ipp_length = b\<rparr>\<rparr>"

definition sample_ops :: "unit win_ops" where
  "sample_ops = \<lparr>GetIpForwardEntry2 = (\<lambda>r k. (Inl ERROR_NOT_FOUND, k)),
     GetIpForwardTable2 = (\<lambda>k. (Inr [sample_row 10, sample_row 0], k)),
     FreeMibTable = (\<lambda>k. k)\<rparr>"

lemma sample_default: "default_route sample_win (sample_row 0)" "\<not> default_route sample_win (sample_row 10)"
  by (simp_all add: default_route_def default_prefix_iff prefixFromIpAddressPrefix_def
      ipFromSockaddrInet_def sample_win_def sample_row_def PrefixFrom_def
      IsUnspecified_def AddrFrom4_def withoutZone_def Is6_def Bits_def BitLen_def)

theorem initial_dump_once_witness:
  "fst (handle_run sample_win sample_ops False [notification None 3, notification None 3] (False, ())) =
    [received sample_win (notification None 3)] @ logMibIpForwardRow2 sample_win (sample_row 0) False @
    [received sample_win (notification None 3),
     (LevelDebug, ''Skipping subsequent initial notification'', [])]"
proof -
  let ?n = "notification None 3"
  have init: "is_initial sample_win ?n" by (simp add: is_initial_def sample_win_def notification_def)
  have other: "MibInitialNotification sample_win \<notin> {MibParameterNotification sample_win,
      MibAddInstance sample_win, MibDeleteInstance sample_win}"
    by (simp add: sample_win_def)
  have rows: "filter (\<lambda>r. False \<or> default_route sample_win r) [sample_row 10, sample_row 0] = [sample_row 0]"
    by (simp add: sample_default)
  have skip: "handle_run sample_win (sample_ops\<lparr>GetIpForwardTable2 := f\<rparr>) False [?n] (True, k2) =
      ([received sample_win ?n, (LevelDebug, ''Skipping subsequent initial notification'', [])], True, k2)" for f k2
    using init other
    by (simp add: handleMibIpForwardRow2Notification_def Let_def is_initial_def)
  from initial_dump_once [OF other _ init, of "[]" sample_ops False "()" "[?n]" "\<lambda>k. (Inr [], k)"]
  show ?thesis unfolding skip by (auto simp: sample_ops_def rows [simplified])
qed

subsection \<open>The goroutines\<close>

definition in_consumer :: "consumer_pc \<Rightarrow> mibIpForwardRow2Notification list" where
  "in_consumer c = (case c of Handling n \<Rightarrow> [n] | _ \<Rightarrow> [])"

lemma in_consumer_simps [simp]:
  "in_consumer Receiving = []" "in_consumer (Handling n) = [n]" "in_consumer Exited = []"
  by (simp_all add: in_consumer_def)

text \<open>Nothing is lost, and the handler has run on the notifications in the order received.\<close>

definition accounted :: "win_env \<Rightarrow> 'k win_ops \<Rightarrow> bool \<Rightarrow> 'k \<Rightarrow> 'k wstate \<Rightarrow> bool" where
  "accounted env ops dumpAll k s \<longleftrightarrow>
     mset (notified s) = mset (inflight s) + mset (in_consumer (consumer s)) + mset (handled s) \<and>
     handle_run env ops dumpAll (handled s) (False, k) = (handler_log s, handler_state s)"

text \<open>As long as no cancellation has failed, the deferred calls run after the last callback.\<close>

definition orderly :: "'k wstate \<Rightarrow> bool" where
  "orderly s \<longleftrightarrow> \<not> panicked s \<and>
     (registered s \<longleftrightarrow> pc s \<in> {Waiting, Cancelling}) \<and>
     (pc s \<in> {Unpinning, Closing, Joining, Finished} \<longrightarrow> inflight s = []) \<and>
     (pinned s \<longleftrightarrow> pc s \<in> {Registering, Waiting, Cancelling, Unpinning}) \<and>
     (closed s \<longleftrightarrow> pc s \<in> {Joining, Finished}) \<and>
     (\<not> closed s \<longrightarrow> consumer s \<noteq> Exited) \<and> (pc s = Finished \<longrightarrow> consumer s = Exited)"

inductive_cases wstepE: "wstep env ops dumpAll s t"

lemma accounted_step:
  assumes "wstep env ops dumpAll s t" and "accounted env ops dumpAll k s"
  shows "accounted env ops dumpAll k t"
  using assms by (elim wstepE) (auto simp: accounted_def handle_run_append)

lemma cancel_failed_step: "wstep env ops dumpAll s t \<Longrightarrow> cancel_failed s \<Longrightarrow> cancel_failed t"
  by (elim wstepE) auto

lemma orderly_step:
  assumes "wstep env ops dumpAll s t" and "orderly s" and "\<not> cancel_failed t"
  shows "orderly t"
  using assms(1)
proof cases
  case (callback n row tt)
  have "pc s = Registering \<or> pc s = Waiting \<or> pc s = Cancelling"
    using callback(2) assms(2) by (auto simp: orderly_def)
  with assms(2) callback(1) show ?thesis by (elim disjE) (simp_all add: orderly_def)
next
  case cancel_fails
  with assms(3) show ?thesis by simp
qed (insert assms(2), auto simp: orderly_def)

lemma reachable_inv:
  assumes "wsteps env ops dumpAll (run_start k) s"
  shows "accounted env ops dumpAll k s \<and> (\<not> cancel_failed s \<longrightarrow> orderly s)"
  using assms
proof (induction "run_start k" s rule: wsteps.induct)
  case stay
  then show ?case by (simp add: run_start_def accounted_def orderly_def)
next
  case (go t u)
  then show ?case by (blast intro: accounted_step orderly_step dest: cancel_failed_step)
qed

text \<open>
  Runs in which the system calls back one at a time: no callback starts while another one is still
  in flight. Callbacks that run at the same time meet at the channel in any order.
\<close>

inductive serial_wsteps :: "win_env \<Rightarrow> 'k win_ops \<Rightarrow> bool \<Rightarrow> 'k wstate \<Rightarrow> 'k wstate \<Rightarrow> bool"
  for env ops dumpAll where
  serial_stay: "serial_wsteps env ops dumpAll s s"
| serial_go: "serial_wsteps env ops dumpAll s t \<Longrightarrow> wstep env ops dumpAll t u \<Longrightarrow>
    notified u = notified t \<or> inflight t = [] \<Longrightarrow> serial_wsteps env ops dumpAll s u"

lemma serial_wsteps_wsteps: "serial_wsteps env ops dumpAll s t \<Longrightarrow> wsteps env ops dumpAll s t"
  by (induction rule: serial_wsteps.induct) (auto intro: wsteps.intros)

definition queued :: "'k wstate \<Rightarrow> bool" where
  "queued s \<longleftrightarrow> length (inflight s) \<le> 1 \<and> notified s = handled s @ in_consumer (consumer s) @ inflight s"

lemma queued_step:
  assumes "wstep env ops dumpAll s t" and "notified t = notified s \<or> inflight s = []" and "queued s"
  shows "queued t"
  using assms(1)
proof cases
  case (callback n row tt)
  with assms(2,3) show ?thesis by (auto simp: queued_def)
next
  case (send as n bs)
  with assms(3) have "as = []" "bs = []" by (auto simp: queued_def)
  with send assms(3) show ?thesis by (simp add: queued_def)
qed (use assms(3) in \<open>auto simp: queued_def\<close>)

lemma serial_queued: "serial_wsteps env ops dumpAll (run_start k) s \<Longrightarrow> queued s"
proof (induction "run_start k" s rule: serial_wsteps.induct)
  case serial_stay
  then show ?case by (simp add: queued_def run_start_def)
next
  case (serial_go t u)
  then show ?case by (blast intro: queued_step)
qed

text \<open>
  C5. As long as CancelMibChangeNotify2 has not failed, no callback sends on a closed channel or
  runs after the channel variable is unpinned, and the consumer is there to receive; when run
  has returned, every notification has been handled. In any case nothing is lost or handled twice:
  each notification is in flight, at the consumer or handled, and the log of the handler is that of
  a run over the handled ones in the order they were received. If the system calls back one at a
  time, that is the order in which the notifications came.
\<close>

theorem run_safe:
  assumes "wsteps env ops dumpAll (run_start k) s"
  shows "(\<not> cancel_failed s \<longrightarrow> \<not> panicked s \<and>
      (inflight s \<noteq> [] \<longrightarrow> pinned s \<and> \<not> closed s \<and> consumer s \<noteq> Exited) \<and>
      (pc s = Finished \<longrightarrow> mset (handled s) = mset (notified s))) \<and>
    mset (notified s) = mset (inflight s) +
      (case consumer s of Handling n \<Rightarrow> {#n#} | _ \<Rightarrow> {#}) + mset (handled s) \<and>
    handle_run env ops dumpAll (handled s) (False, k) = (handler_log s, handler_state s) \<and>
    (serial_wsteps env ops dumpAll (run_start k) s \<longrightarrow> notified s = handled s @
      (case consumer s of Handling n \<Rightarrow> [n] | _ \<Rightarrow> []) @ inflight s)"
proof -
  note inv = reachable_inv [OF assms]
  have "mset (in_consumer c) = (case c of Handling n \<Rightarrow> {#n#} | _ \<Rightarrow> {#})" for c
    by (simp add: in_consumer_def split: consumer_pc.split)
  with inv show ?thesis
    using serial_queued [of env ops dumpAll k s]
    by (cases "pc s") (auto simp: orderly_def accounted_def queued_def in_consumer_def)
qed

lemma wsteps_trans: "wsteps env ops dumpAll t u \<Longrightarrow> wsteps env ops dumpAll s t \<Longrightarrow> wsteps env ops dumpAll s u"
  by (induction rule: wsteps.induct) (auto intro: wsteps.go)

lemma wsteps_first: "wstep env ops dumpAll s t \<Longrightarrow> wsteps env ops dumpAll t u \<Longrightarrow> wsteps env ops dumpAll s u"
  by (rule wsteps_trans [OF _ wsteps.go [OF wsteps.stay]])

text \<open>Some run from a state finishes without a failed cancellation or a new notification.\<close>

definition finishes :: "win_env \<Rightarrow> 'k win_ops \<Rightarrow> bool \<Rightarrow> 'k wstate \<Rightarrow> bool" where
  "finishes env ops dumpAll s \<longleftrightarrow> (\<exists>s'. wsteps env ops dumpAll s s' \<and> pc s' = Finished \<and>
     cancel_failed s' = cancel_failed s \<and> notified s' = notified s)"

lemma finishes_step:
  "wstep env ops dumpAll s t \<Longrightarrow> finishes env ops dumpAll t \<Longrightarrow>
   cancel_failed t = cancel_failed s \<Longrightarrow> notified t = notified s \<Longrightarrow> finishes env ops dumpAll s"
  unfolding finishes_def by (metis wsteps_first)

lemma finishes_handling:
  assumes "\<And>t. consumer t = Receiving \<Longrightarrow> pc t = pc s \<Longrightarrow> inflight t = inflight s \<Longrightarrow>
      closed t = closed s \<Longrightarrow> finishes env ops dumpAll t"
    and "consumer s \<noteq> Exited"
  shows "finishes env ops dumpAll s"
proof (cases "consumer s")
  case (Handling n)
  obtain calls hs where
    "handleMibIpForwardRow2Notification env ops dumpAll n (handler_state s) = (calls, hs)" by (meson surj_pair)
  from finishes_step [OF wstep.handle [OF Handling this]] assms(1) show ?thesis by simp
qed (use assms in simp_all)

lemma finishes_finished: "pc s = Finished \<Longrightarrow> finishes env ops dumpAll s"
  unfolding finishes_def by (blast intro: wsteps.stay)

lemma finishes_exited: "pc s = Joining \<Longrightarrow> consumer s = Exited \<Longrightarrow> finishes env ops dumpAll s"
  by (rule finishes_step [OF wstep.join]) (simp_all add: finishes_finished)

lemma finishes_receiving:
  "pc s = Joining \<Longrightarrow> closed s \<Longrightarrow> consumer s = Receiving \<Longrightarrow> finishes env ops dumpAll s"
  by (rule finishes_step [OF wstep.consumer_exit]) (simp_all add: finishes_exited)

lemma finishes_joining:
  assumes "pc s = Joining" and "closed s"
  shows "finishes env ops dumpAll s"
proof (cases "consumer s = Exited")
  case False
  with assms show ?thesis by - (rule finishes_handling, simp_all add: finishes_receiving)
qed (simp add: assms finishes_exited)

lemma finishes_closing: "pc s = Closing \<Longrightarrow> finishes env ops dumpAll s"
  by (rule finishes_step [OF wstep.close]) (simp_all add: finishes_joining)

lemma finishes_unpinning: "pc s = Unpinning \<Longrightarrow> finishes env ops dumpAll s"
  by (rule finishes_step [OF wstep.unpin]) (simp_all add: finishes_closing)

text \<open>The callbacks in flight are received and handled one by one.\<close>

lemma finishes_draining:
  assumes "\<And>t. pc t = pc s \<Longrightarrow> inflight t = [] \<Longrightarrow> \<not> closed t \<Longrightarrow> consumer t \<noteq> Exited \<Longrightarrow>
      finishes env ops dumpAll t"
    and "\<not> closed s" and "consumer s \<noteq> Exited"
  shows "finishes env ops dumpAll s"
  using assms
proof (induction "inflight s" arbitrary: s)
  case Nil
  then show ?case by simp
next
  case (Cons n ns)
  have "finishes env ops dumpAll t"
    if t: "consumer t = Receiving" "pc t = pc s" "inflight t = n # ns" "\<not> closed t" for t
  proof -
    have "wstep env ops dumpAll t (t\<lparr>inflight := [] @ ns, consumer := Handling n\<rparr>)"
      using t by (intro wstep.send) simp_all
    then show ?thesis
    proof (rule finishes_step)
      show "finishes env ops dumpAll (t\<lparr>inflight := [] @ ns, consumer := Handling n\<rparr>)"
        by (rule Cons.hyps(1)) (simp_all add: t Cons.prems(1))
    qed simp_all
  qed
  then show ?case
    by (rule finishes_handling) (use Cons.prems(2,3) Cons.hyps(2) in simp_all)
qed

lemma finishes_cancelling:
  assumes "pc s = Cancelling" and "\<not> closed s" and "consumer s \<noteq> Exited"
  shows "finishes env ops dumpAll s"
proof (rule finishes_draining)
  fix t :: "'a wstate"
  assume t: "pc t = pc s" "inflight t = []"
  show "finishes env ops dumpAll t"
    by (rule finishes_step [OF wstep.cancel]) (simp_all add: finishes_unpinning t assms(1))
qed (use assms in simp_all)

lemma finishes_waiting:
  "pc s = Waiting \<Longrightarrow> \<not> closed s \<Longrightarrow> consumer s \<noteq> Exited \<Longrightarrow> finishes env ops dumpAll s"
  by (rule finishes_step [OF wstep.context_done]) (simp_all add: finishes_cancelling)

lemma finishes_orderly:
  assumes "orderly s"
  shows "finishes env ops dumpAll s"
proof (cases "pc s")
  case Registering
  show ?thesis
  proof (rule finishes_draining)
    fix t :: "'a wstate"
    assume t: "pc t = pc s" "inflight t = []" "\<not> closed t" "consumer t \<noteq> Exited"
    show "finishes env ops dumpAll t"
      by (rule finishes_step [OF wstep.register]) (simp_all add: finishes_waiting t Registering)
  qed (use Registering assms in \<open>simp_all add: orderly_def\<close>)
qed (use assms in \<open>simp_all add: orderly_def finishes_joining finishes_closing finishes_unpinning
      finishes_cancelling finishes_waiting finishes_finished\<close>)

text \<open>Between callbacks every step brings the end nearer.\<close>

fun run_rank :: "run_pc \<Rightarrow> nat" where
  "run_rank Registering = 6" | "run_rank Waiting = 5" | "run_rank Cancelling = 4"
| "run_rank Unpinning = 3" | "run_rank Closing = 2" | "run_rank Joining = 1" | "run_rank Finished = 0"

fun consumer_rank :: "consumer_pc \<Rightarrow> nat" where
  "consumer_rank (Handling n) = 2" | "consumer_rank Receiving = 1" | "consumer_rank Exited = 0"

definition wrank :: "'k wstate \<Rightarrow> nat" where
  "wrank s = run_rank (pc s) + 3 * length (inflight s) + consumer_rank (consumer s)"

lemma wstep_decreases:
  assumes "wstep env ops dumpAll s t" and "orderly s" and "notified t = notified s"
  shows "wrank t < wrank s"
  using assms(1)
proof cases
  case send_closed
  with assms(2) show ?thesis by (auto simp: orderly_def)
qed (use assms(3) in \<open>simp_all add: wrank_def\<close>)

lemma quiet_runs_end:
  assumes "wsteps env ops dumpAll (run_start k) s"
  shows "\<not> (\<exists>g. g 0 = s \<and> (\<forall>n. wstep env ops dumpAll (g n) (g (Suc n)) \<and>
    notified (g n) = notified s \<and> \<not> cancel_failed (g n)))"
proof
  assume "\<exists>g. g 0 = s \<and> (\<forall>n. wstep env ops dumpAll (g n) (g (Suc n)) \<and>
    notified (g n) = notified s \<and> \<not> cancel_failed (g n))"
  then obtain g where g: "g 0 = s" "\<And>n. wstep env ops dumpAll (g n) (g (Suc n))"
    "\<And>n. notified (g n) = notified s" "\<And>n. \<not> cancel_failed (g n)" by blast
  have reached: "wsteps env ops dumpAll (run_start k) (g n)" for n
    by (induction n) (use assms g(1,2) in \<open>auto intro: wsteps.go\<close>)
  have "orderly (g n)" for n using reachable_inv [OF reached [of n]] g(4) [of n] by simp
  with g(2,3) have "wrank (g (Suc n)) < wrank (g n)" for n by (metis wstep_decreases)
  then show False
    using wf_no_infinite_down_chainE [OF wf_less_than, of "\<lambda>n. wrank (g n)"] by auto
qed

text \<open>
  C21. There is no deadlock and no livelock: from every state that is reached without a failed
  cancellation the goroutines can go on until run has returned, with no further notification
  arriving, and then every notification that arrived has been handled; and while no notification
  arrives they cannot go on for ever.
\<close>

theorem run_can_finish:
  assumes "wsteps env ops dumpAll (run_start k) s" and "\<not> cancel_failed s"
  shows "(\<exists>s'. wsteps env ops dumpAll s s' \<and> pc s' = Finished \<and> \<not> panicked s' \<and>
      notified s' = notified s \<and> mset (handled s') = mset (notified s)) \<and>
    \<not> (\<exists>g. g 0 = s \<and> (\<forall>n. wstep env ops dumpAll (g n) (g (Suc n)) \<and>
      notified (g n) = notified s \<and> \<not> cancel_failed (g n)))"
proof
  from reachable_inv [OF assms(1)] assms(2) have "orderly s" by blast
  from finishes_orderly [OF this, of env ops dumpAll] assms(2) obtain s' where
    s': "wsteps env ops dumpAll s s'" "pc s' = Finished" "\<not> cancel_failed s'" "notified s' = notified s"
    by (auto simp: finishes_def)
  from reachable_inv [OF wsteps_trans [OF s'(1) assms(1)]] s'
  show "\<exists>s'. wsteps env ops dumpAll s s' \<and> pc s' = Finished \<and> \<not> panicked s' \<and>
      notified s' = notified s \<and> mset (handled s') = mset (notified s)"
    by (auto simp: orderly_def accounted_def)
qed (rule quiet_runs_end [OF assms(1)])

text \<open>The first callback of a run.\<close>

definition called_back :: "'k \<Rightarrow> 'k wstate" where
  "called_back k = (run_start k)\<lparr>inflight := [notification None 3], notified := [notification None 3]\<rparr>"

lemma called_back_reached: "wsteps env ops dumpAll (run_start k) (called_back k)"
  using wsteps.go [OF wsteps.stay wstep.callback [of "run_start k" "notification None 3" None 3]]
  by (simp add: run_start_def called_back_def)

theorem run_can_finish_witness:
  "\<exists>s'. wsteps sample_win sample_ops False (run_start ()) s' \<and> pc s' = Finished \<and> \<not> panicked s' \<and>
    handled s' = [notification None 3]"
proof -
  have "\<not> cancel_failed (called_back ())" by (simp add: called_back_def run_start_def)
  from run_can_finish [OF called_back_reached this, of sample_win sample_ops False] obtain s' where
    "wsteps sample_win sample_ops False (called_back ()) s'"
    "pc s' = Finished" "\<not> panicked s'" "handled s' = [notification None 3]"
    by (auto simp: called_back_def simp del: not_ex)
  then show ?thesis using wsteps_trans [OF _ called_back_reached] by metis
qed

theorem run_safe_witness:
  "\<not> panicked (called_back ()) \<and> notified (called_back ()) = [notification None 3] \<and>
   handle_run sample_win sample_ops False (handled (called_back ())) (False, ()) = ([], False, ())"
  using run_safe [where env = sample_win and ops = sample_ops and dumpAll = False and k = "()",
      OF called_back_reached]
  by (simp add: called_back_def run_start_def)

definition panics :: "win_env \<Rightarrow> 'k win_ops \<Rightarrow> bool \<Rightarrow> mibIpForwardRow2Notification \<Rightarrow> 'k wstate \<Rightarrow> bool" where
  "panics env ops dumpAll n s \<longleftrightarrow>
     (\<exists>u. wsteps env ops dumpAll s u \<and> panicked u \<and> \<not> pinned u \<and> inflight u = [n])"

lemma panics_step:
  "wstep env ops dumpAll s t \<Longrightarrow> panics env ops dumpAll n t \<Longrightarrow> panics env ops dumpAll n s"
  unfolding panics_def by (metis wsteps_first)

lemma panics_sending:
  assumes "inflight s = [n]" and "closed s" and "\<not> pinned s"
  shows "panics env ops dumpAll n s"
proof -
  have "wsteps env ops dumpAll s (s\<lparr>panicked := True\<rparr>)"
    by (rule wsteps.go [OF wsteps.stay wstep.send_closed]) (simp_all add: assms)
  with assms show ?thesis unfolding panics_def by (intro exI [of _ "s\<lparr>panicked := True\<rparr>"]) simp
qed

lemma panics_closed:
  "registered s \<Longrightarrow> inflight s = [] \<Longrightarrow> closed s \<Longrightarrow> \<not> pinned s \<Longrightarrow>
   panics env ops dumpAll (notification row t) s"
  by (rule panics_step [OF wstep.callback [OF _ refl [of "notification row t"]]]) (simp_all add: panics_sending)

lemma panics_closing:
  "pc s = Closing \<Longrightarrow> registered s \<Longrightarrow> inflight s = [] \<Longrightarrow> \<not> pinned s \<Longrightarrow>
   panics env ops dumpAll (notification row t) s"
  by (rule panics_step [OF wstep.close]) (simp_all add: panics_closed)

lemma panics_unpinning:
  "pc s = Unpinning \<Longrightarrow> registered s \<Longrightarrow> inflight s = [] \<Longrightarrow>
   panics env ops dumpAll (notification row t) s"
  by (rule panics_step [OF wstep.unpin]) (simp_all add: panics_closing)

lemma panics_cancelling:
  "pc s = Cancelling \<Longrightarrow> registered s \<Longrightarrow> inflight s = [] \<Longrightarrow>
   panics env ops dumpAll (notification row t) s"
  by (rule panics_step [OF wstep.cancel_fails]) (simp_all add: panics_unpinning)

lemma panics_waiting:
  "pc s = Waiting \<Longrightarrow> registered s \<Longrightarrow> inflight s = [] \<Longrightarrow>
   panics env ops dumpAll (notification row t) s"
  by (rule panics_step [OF wstep.context_done]) (simp_all add: panics_cancelling)

text \<open>
  C34. When CancelMibChangeNotify2 fails, run still unpins the channel variable and closes the channel
  under the registration: any callback that comes later sends on the closed channel and the process
  panics. By the safety property this is the only way to panic.
\<close>

theorem cancel_failure_panics:
  "\<exists>s. wsteps env ops dumpAll (run_start k) s \<and> panicked s \<and> \<not> pinned s \<and>
    inflight s = [notification row t]"
proof -
  have "panics env ops dumpAll (notification row t) (run_start k)"
    by (rule panics_step [OF wstep.register]) (simp_all add: run_start_def panics_waiting)
  then show ?thesis unfolding panics_def .
qed

end
