(* ===== verification/Log_Types.thy ===== *)
theory Log_Types
  imports Monitor_Props Windows_Props
begin

text \<open>
  The types of the log records of route/cmd/route: for each message of main\_bsd.go and of
  main\_windows.go the names of its attributes, in order, with the type of each value, and the
  theorem that whatever comes from the kernel every record has the type of its message.
\<close>

subsection \<open>Types of values and of records\<close>

text \<open>
  \<open>TUint b\<close> is a value below \<open>2 ^ b\<close>, \<open>TAddr\<close> the text of a valid IPv4 or IPv6 address,
  \<open>TAddr0\<close> the same or the empty text, \<open>TPrefix0\<close> the text of a valid prefix or the empty text. Values
  that format themselves have types of their own, an argument; the Windows command logs none.
\<close>

datatype vtype =
  TUint nat | TInt32 | TText | TAddr | TAddr0 | TPrefix0 | TLink
| TMsgType | TRouteFlags | TIfaceFlags | TIfaFlags

fun bsd_any_type :: "bsd_any \<Rightarrow> vtype option" where
  "bsd_any_type (MsgTypeV t) = Some TMsgType"
| "bsd_any_type (RouteFlagsV f) = Some TRouteFlags"
| "bsd_any_type (IfaceFlagsV f) = Some TIfaceFlags"
| "bsd_any_type (IfaFlags6V f) = Some TIfaFlags"

definition win_any_type :: "unit \<Rightarrow> vtype option" where
  "win_any_type x = None"

inductive val_type :: "('v \<Rightarrow> vtype option) \<Rightarrow> 'v attr_val \<Rightarrow> vtype \<Rightarrow> bool" for any_type where
  "unat w < 2 ^ b \<Longrightarrow> val_type any_type (VUint64 w) (TUint b)"
| "- (2 ^ 31) \<le> sint w \<Longrightarrow> sint w < 2 ^ 31 \<Longrightarrow> val_type any_type (VInt64 w) TInt32"
| "val_type any_type (VString s) TText"
| "wf_addr ip \<Longrightarrow> IsValid ip \<Longrightarrow> val_type any_type (VString (Addr_String ip)) TAddr"
| "wf_addr ip \<Longrightarrow> IsValid ip \<Longrightarrow> val_type any_type (VString (Addr_String ip)) TAddr0"
| "val_type any_type (VString []) TAddr0"
| "wf_addr ip \<Longrightarrow> Prefix_IsValid (PrefixFrom ip b) \<Longrightarrow>
    val_type any_type (VString (Prefix_String (PrefixFrom ip b))) TPrefix0"
| "val_type any_type (VString []) TPrefix0"
| "unat w < 2 ^ 16 \<Longrightarrow>
    val_type any_type (VGroup [(''index'', VUint64 w), (''name'', VString s)]) TLink"
| "any_type x = Some T \<Longrightarrow> val_type any_type (VAny x) T"

inductive_simps val_type_simps: "val_type any_type (VUint64 w) (TUint b)"

datatype field = Req string vtype | Opt string "vtype set"

inductive attrs_type :: "('v \<Rightarrow> vtype option) \<Rightarrow> field list \<Rightarrow> 'v attr list \<Rightarrow> bool" for any_type where
  no_field: "attrs_type any_type [] []"
| required: "val_type any_type v T \<Longrightarrow> attrs_type any_type fs as \<Longrightarrow>
    attrs_type any_type (Req k T # fs) ((k, v) # as)"
| absent: "attrs_type any_type fs as \<Longrightarrow> attrs_type any_type (Opt k Ts # fs) as"
| present: "T \<in> Ts \<Longrightarrow> val_type any_type v T \<Longrightarrow> attrs_type any_type fs as \<Longrightarrow>
    attrs_type any_type (Opt k Ts # fs) ((k, v) # as)"

inductive_simps attrs_type_simps [simp]:
  "attrs_type any_type [] as" "attrs_type any_type (Req k T # fs) as"

definition addr_field :: "string \<Rightarrow> field list" where
  "addr_field name =
     Opt name {TAddr, TLink} # (if name = ''ifa'' then [Opt ''ifaFlags'' {TIfaFlags}] else [])"

definition addr_fields :: "field list" where
  "addr_fields = concat (map addr_field [''dst'', ''gateway'', ''netmask'', ''genmask'', ''ifp'', ''ifa''])"

definition msg_fields :: "field list" where
  "msg_fields = [Req ''msglen'' (TUint 16), Req ''version'' (TUint 8), Req ''type'' TMsgType]"

definition plain_fields :: "field list" where
  "plain_fields = [Req ''msglen'' (TUint 16), Req ''version'' (TUint 8), Req ''type'' (TUint 8)]"

text \<open>The records of the BSD command, by level and message.\<close>

definition schemas :: "((level \<times> string) \<times> field list) list" where
  "schemas = [
     ((LevelInfo, ''rt_msghdr''), [Req ''type'' TMsgType, Req ''ifindex'' (TUint 16),
        Req ''flags'' TRouteFlags, Req ''pid'' TInt32, Req ''seq'' TInt32] @ addr_fields),
     ((LevelInfo, ''if_msghdr''), [Req ''type'' TMsgType, Req ''flags'' TIfaceFlags,
        Req ''ifindex'' (TUint 16)] @ addr_fields),
     ((LevelInfo, ''ifam_msghdr''), [Req ''type'' TMsgType, Req ''ifindex'' (TUint 16)] @ addr_fields),
     ((LevelInfo, ''Unknown message type''), plain_fields),
     ((LevelWarn, ''Unsupported message version''), msg_fields),
     ((LevelError, ''Invalid message length''), msg_fields),
     ((LevelError, ''Invalid rt_msghdr length''), msg_fields),
     ((LevelError, ''Invalid if_msghdr length''), msg_fields),
     ((LevelError, ''Invalid ifa_msghdr length''), plain_fields),
     ((LevelError, ''Invalid rtm_hdrlen''), msg_fields @ [Req ''hdrlen'' (TUint 16)]),
     ((LevelError, ''Invalid ifm_hdrlen''), msg_fields @ [Req ''hdrlen'' (TUint 16)]),
     ((LevelError, ''Invalid ifam_hdrlen''), msg_fields @ [Req ''hdrlen'' (TUint 16)]),
     ((LevelError, ''Failed to read route message''), [Req ''err'' TText]),
     ((LevelError, ''Failed to open routing socket''), [Req ''err'' TText]),
     ((LevelError, ''Failed to open ioctl socket''), [Req ''err'' TText]),
     ((LevelError, ''Failed to get interface dump''), [Req ''err'' TText]),
     ((LevelError, ''Failed to get route dump''), [Req ''err'' TText])]"

text \<open>The records of the Windows command.\<close>

definition notification_fields :: "field list" where
  "notification_fields = [Req ''InterfaceLuid'' (TUint 64), Req ''InterfaceIndex'' (TUint 32),
     Req ''DestinationPrefix'' TPrefix0, Req ''NextHop'' TAddr0]"

definition win_schemas :: "((level \<times> string) \<times> field list) list" where
  "win_schemas = [
     ((LevelInfo, ''Received route change notification''),
        notification_fields @ [Req ''NotificationType'' (TUint 32)]),
     ((LevelInfo, ''MibIpForwardRow2''), notification_fields @
        [Req ''SitePrefixLength'' (TUint 8), Req ''ValidLifetime'' (TUint 32),
         Req ''PreferredLifetime'' (TUint 32), Req ''Metric'' (TUint 32), Req ''Protocol'' (TUint 32),
         Req ''Loopback'' (TUint 8), Req ''AutoconfigureAddress'' (TUint 8), Req ''Publish'' (TUint 8),
         Req ''Immortal'' (TUint 8), Req ''Age'' (TUint 32), Req ''Origin'' (TUint 32)]),
     ((LevelDebug, ''Skipping route change notification for route that no longer exists''), []),
     ((LevelDebug, ''Skipping subsequent initial notification''), []),
     ((LevelWarn, ''Unknown notification type''), []),
     ((LevelError, ''Failed to get route information for route change notification''), [Req ''err'' TText]),
     ((LevelError, ''Failed to get route table''), [Req ''err'' TText]),
     ((LevelInfo, ''Registered for route change notifications''), [Req ''notificationHandle'' (TUint 64)]),
     ((LevelError, ''Failed to register for route change notifications''), [Req ''err'' TText]),
     ((LevelInfo, ''Unregistered for route change notifications''), []),
     ((LevelError, ''Failed to unregister for route change notifications''),
        [Req ''notificationHandle'' (TUint 64), Req ''err'' TText])]"

fun record_typed :: "('v \<Rightarrow> vtype option) \<Rightarrow> ((level \<times> string) \<times> field list) list \<Rightarrow>
    level \<times> string \<times> 'v attr list \<Rightarrow> bool" where
  "record_typed any_type table (lvl, msg, attrs) \<longleftrightarrow>
     (case map_of table (lvl, msg) of None \<Rightarrow> False | Some fs \<Rightarrow> attrs_type any_type fs attrs)"

abbreviation call_typed :: "log_call \<Rightarrow> bool" where
  "call_typed \<equiv> record_typed bsd_any_type schemas"

subsection \<open>Attributes\<close>

lemma val_type_uint [simp]:
  fixes w :: "'a::len word"
  assumes "LENGTH('a) \<le> b" and "b < 64"
  shows "val_type any_type (VUint64 (ucast w)) (TUint b)"
proof -
  have "unat w < 2 ^ LENGTH('a)" by (rule unsigned_less)
  also have "\<dots> \<le> 2 ^ b" using assms(1) by simp
  finally have "unat w < 2 ^ b" .
  moreover have "(2 :: nat) ^ b < 2 ^ 64"
    using assms(2) by (intro power_strict_increasing) simp_all
  ultimately have "unat (ucast w :: 64 word) = unat w"
    by (simp add: unsigned_ucast_eq take_bit_nat_eq_self)
  with \<open>unat w < 2 ^ b\<close> show ?thesis by (simp add: val_type.intros)
qed

lemma val_type_int32 [simp]:
  fixes w :: "32 word"
  shows "val_type any_type (VInt64 (scast w)) TInt32"
proof -
  have b: "- (2 ^ 31) \<le> sint w" "sint w < 2 ^ 31"
    using sint_greater_eq [of w] sint_less [of w] by simp_all
  then have "sint (scast w :: 64 word) = sint w"
    by (simp add: signed_scast_eq signed_take_bit_int_eq_self)
  with b show ?thesis by (simp add: val_type.intros)
qed

lemma attrs_type_append:
  "attrs_type any_type fs as \<Longrightarrow> attrs_type any_type gs bs \<Longrightarrow> attrs_type any_type (fs @ gs) (as @ bs)"
  by (induction rule: attrs_type.induct) (auto intro: attrs_type.intros)

lemma addr_field_none: "attrs_type any_type (addr_field name) []"
  by (auto simp: addr_field_def intro: attrs_type.intros)

lemma addr_field_one:
  "val_type any_type v T \<Longrightarrow> T \<in> {TAddr, TLink} \<Longrightarrow> attrs_type any_type (addr_field name) [(name, v)]"
  by (auto simp: addr_field_def intro: attrs_type.intros)

lemma addr_field_flags:
  "val_type bsd_any_type v TAddr \<Longrightarrow> attrs_type bsd_any_type (addr_field ''ifa'') [(''ifa'', v), Any_attr ''ifaFlags'' (IfaFlags6V f)]"
  unfolding addr_field_def Any_attr_def
  by (simp, rule present [of TAddr], simp_all, rule present [of TIfaFlags])
    (simp_all add: no_field val_type.intros)

lemma AddrFrom_valid: "IsValid (AddrFrom4 a)" "IsValid (WithZone (AddrFrom16 b) zn)"
  by (simp_all add: IsValid_def AddrFrom4_def AddrFrom16_def WithZone_def Is6_def)

lemma Addr_attr_type:
  "wf_addr ip \<Longrightarrow> IsValid ip \<Longrightarrow> attrs_type any_type (addr_field name) [Addr_attr name ip]"
  by (simp add: Addr_attr_def addr_field_one [where T = TAddr] val_type.intros)

text \<open>If the call returns, it returns the attributes it was given and a typed rest.\<close>

definition adds :: "field list \<Rightarrow> bsd_any attr list \<Rightarrow> bsd_any attr list option \<Rightarrow> bool" where
  "adds fs attrs r \<longleftrightarrow>
     (\<forall>r'. r = Some r' \<longrightarrow> (\<exists>new. r' = attrs @ new \<and> attrs_type bsd_any_type fs new))"

lemma adds_rules:
  "attrs_type bsd_any_type fs [] \<Longrightarrow> adds fs attrs (Some attrs)"
  "attrs_type bsd_any_type fs new \<Longrightarrow> adds fs attrs (Some (attrs @ new))"
  "(\<And>x. r = Some x \<Longrightarrow> adds fs attrs (f x)) \<Longrightarrow> adds fs attrs (r \<bind> f)"
  "(P \<Longrightarrow> adds fs attrs s) \<Longrightarrow> (\<not> P \<Longrightarrow> adds fs attrs t) \<Longrightarrow> adds fs attrs (if P then s else t)"
  "(\<And>x. adds fs attrs (g x)) \<Longrightarrow> (\<And>y. adds fs attrs (h y)) \<Longrightarrow>
    adds fs attrs (case w of Inl x \<Rightarrow> g x | Inr y \<Rightarrow> h y)"
  by (auto simp: adds_def bind_eq_Some_conv split: sum.splits)

lemma adds_bind:
  assumes "adds fs attrs r" and "\<And>x. adds gs x (f x)"
  shows "adds (fs @ gs) attrs (r \<bind> f)"
  using assms by (auto simp: adds_def bind_eq_Some_conv) (metis append.assoc attrs_type_append)

lemma appendAddrAttr_adds: "adds (addr_field name) attrs (appendAddrAttr u env mem attrs name sa fd ix un)"
proof (cases sa)
  case None
  then show ?thesis by (simp add: appendAddrAttr_def adds_rules(1) addr_field_none)
next
  case (Some q)
  have v4: "attrs_type bsd_any_type (addr_field name) [Addr_attr name (AddrFrom4 a)]" for a
    by (simp add: Addr_attr_type AddrFrom_valid)
  have v6: "attrs_type bsd_any_type (addr_field name) [Addr_attr name (WithZone (AddrFrom16 a) zn)]" for a zn
    by (simp add: Addr_attr_type AddrFrom_valid wf_addr_WithZone)
  have fl: "attrs_type bsd_any_type (addr_field name)
      [Addr_attr name (WithZone (AddrFrom16 a) zn), Any_attr ''ifaFlags'' (IfaFlags6V f)]"
    if "name = ''ifa''" for a zn f
    using that unfolding Addr_attr_def
    by (simp add: AddrFrom_valid addr_field_flags val_type.intros wf_addr_WithZone)
  have ln: "attrs_type bsd_any_type (addr_field name)
      [(name, VGroup [Uint_attr ''index'' (unat (i :: 16 word)), (''name'', VString s)])]" for i s
    using val_type_uint [where b = 16 and w = i] unfolding Uint_attr_def
    by (auto simp: val_type_simps intro!: addr_field_one [where T = TLink] val_type.intros)
  show ?thesis
    unfolding appendAddrAttr_def Some option.case Let_def append.assoc append.simps
    by (intro adds_rules addr_field_none v4 v6 ln fl) auto
qed

lemma appendAddrAttrs_adds: "adds addr_fields attrs (appendAddrAttrs u env mem attrs addrs fd ix def)"
  unfolding appendAddrAttrs_def addr_fields_def list.map concat.simps
  by (intro adds_bind appendAddrAttr_adds) (simp add: appendAddrAttr_adds)

subsection \<open>Messages\<close>

definition step_typed :: "step \<Rightarrow> bool" where
  "step_typed s \<longleftrightarrow> (case s of
     Return calls \<Rightarrow> \<forall>c\<in>set calls. call_typed c
   | Continue ix calls \<Rightarrow> \<forall>c\<in>set calls. call_typed c)"

lemma msg_attrs_typed: "attrs_type bsd_any_type msg_fields (msg_attrs m)"
  by (auto simp: msg_fields_def msg_attrs_def Uint_attr_def Any_attr_def intro: val_type.intros)

lemma msg_attrs_plain_typed: "attrs_type bsd_any_type plain_fields (msg_attrs_plain m)"
  by (auto simp: plain_fields_def msg_attrs_plain_def Uint_attr_def)

lemma bad_hdrlen_typed:
  assumes "bad_hdrlen m msg = Some s"
    and "map_of schemas (LevelError, msg) = Some (msg_fields @ [Req ''hdrlen'' (TUint 16)])"
  shows "step_typed s"
proof -
  from assms(1) obtain h where "s = Return [(LevelError, msg, msg_attrs m @ [Uint_attr ''hdrlen'' (unat h)])]"
    and "HeaderLen m = Some h" by (auto simp: bad_hdrlen_def bind_eq_Some_conv)
  moreover have "attrs_type bsd_any_type [Req ''hdrlen'' (TUint 16)] [Uint_attr ''hdrlen'' (unat h)]"
    by (auto simp: Uint_attr_def)
  ultimately show ?thesis
    using assms(2) attrs_type_append [OF msg_attrs_typed] by (auto simp: step_typed_def)
qed

lemma appendAddrAttrs_typed:
  assumes "appendAddrAttrs u env mem attrs addrs fd ix def = Some r" and "attrs_type bsd_any_type fs attrs"
  shows "attrs_type bsd_any_type (fs @ addr_fields) r"
  using assms appendAddrAttrs_adds [of attrs u env mem addrs fd ix def]
  by (auto simp: adds_def intro: attrs_type_append)

lemma levels_distinct [simp]:
  "LevelInfo \<noteq> LevelWarn" "LevelInfo \<noteq> LevelError" "LevelWarn \<noteq> LevelInfo"
  "LevelWarn \<noteq> LevelError" "LevelError \<noteq> LevelInfo" "LevelError \<noteq> LevelWarn"
  by (simp_all add: LevelInfo_def LevelWarn_def LevelError_def)

lemma schema_lookups:
  "map_of schemas (LevelInfo, ''rt_msghdr'') = Some ([Req ''type'' TMsgType,
     Req ''ifindex'' (TUint 16), Req ''flags'' TRouteFlags, Req ''pid'' TInt32, Req ''seq'' TInt32] @ addr_fields)"
  "map_of schemas (LevelInfo, ''if_msghdr'') = Some ([Req ''type'' TMsgType,
     Req ''flags'' TIfaceFlags, Req ''ifindex'' (TUint 16)] @ addr_fields)"
  "map_of schemas (LevelInfo, ''ifam_msghdr'') = Some ([Req ''type'' TMsgType, Req ''ifindex'' (TUint 16)] @ addr_fields)"
  "map_of schemas (LevelInfo, ''Unknown message type'') = Some plain_fields"
  "map_of schemas (LevelWarn, ''Unsupported message version'') = Some msg_fields"
  "map_of schemas (LevelError, ''Invalid message length'') = Some msg_fields"
  "map_of schemas (LevelError, ''Invalid rt_msghdr length'') = Some msg_fields"
  "map_of schemas (LevelError, ''Invalid if_msghdr length'') = Some msg_fields"
  "map_of schemas (LevelError, ''Invalid ifa_msghdr length'') = Some plain_fields"
  "map_of schemas (LevelError, ''Invalid rtm_hdrlen'') = Some (msg_fields @ [Req ''hdrlen'' (TUint 16)])"
  "map_of schemas (LevelError, ''Invalid ifm_hdrlen'') = Some (msg_fields @ [Req ''hdrlen'' (TUint 16)])"
  "map_of schemas (LevelError, ''Invalid ifam_hdrlen'') = Some (msg_fields @ [Req ''hdrlen'' (TUint 16)])"
  "map_of schemas (LevelError, ''Failed to read route message'') = Some [Req ''err'' TText]"
  "map_of schemas (LevelError, ''Failed to open routing socket'') = Some [Req ''err'' TText]"
  "map_of schemas (LevelError, ''Failed to open ioctl socket'') = Some [Req ''err'' TText]"
  "map_of schemas (LevelError, ''Failed to get interface dump'') = Some [Req ''err'' TText]"
  "map_of schemas (LevelError, ''Failed to get route dump'') = Some [Req ''err'' TText]"
  by (simp_all add: schemas_def)

lemma step_typed_simps [simp]:
  "step_typed (Return calls) \<longleftrightarrow> (\<forall>c\<in>set calls. call_typed c)"
  "step_typed (Continue ix calls) \<longleftrightarrow> (\<forall>c\<in>set calls. call_typed c)"
  by (simp_all add: step_typed_def)

lemma base_attrs_typed:
  "attrs_type bsd_any_type [Req ''type'' TMsgType, Req ''ifindex'' (TUint 16), Req ''flags'' TRouteFlags,
      Req ''pid'' TInt32, Req ''seq'' TInt32]
    [Any_attr ''type'' (MsgTypeV t), Uint_attr ''ifindex'' (unat (i :: 16 word)),
      Any_attr ''flags'' (RouteFlagsV f), Int_attr ''pid'' (sint (p :: 32 word)),
      Int_attr ''seq'' (sint (q :: 32 word))]"
  "attrs_type bsd_any_type [Req ''type'' TMsgType, Req ''flags'' TIfaceFlags, Req ''ifindex'' (TUint 16)]
    [Any_attr ''type'' (MsgTypeV t), Any_attr ''flags'' (IfaceFlagsV f),
      Uint_attr ''ifindex'' (unat (i :: 16 word))]"
  "attrs_type bsd_any_type [Req ''type'' TMsgType, Req ''ifindex'' (TUint 16)]
    [Any_attr ''type'' (MsgTypeV t), Uint_attr ''ifindex'' (unat (i :: 16 word))]"
  by (auto simp: Any_attr_def Uint_attr_def Int_attr_def intro: val_type.intros)

lemma message_typed:
  "route_msg u os env fd filt mem m b ix = Some s \<Longrightarrow> step_typed s"
  "iface_msg u os env fd filt mem m b ix = Some s \<Longrightarrow> step_typed s"
  "ifa_msg u os env fd filt mem m b ix = Some s \<Longrightarrow> step_typed s"
  by (auto simp: route_msg_def iface_msg_def ifa_msg_def Let_def bind_eq_Some_conv schema_lookups
      msg_attrs_typed msg_attrs_plain_typed split: if_splits option.splits
      dest!: appendAddrAttrs_typed [OF _ base_attrs_typed(1)] appendAddrAttrs_typed [OF _ base_attrs_typed(2)]
        appendAddrAttrs_typed [OF _ base_attrs_typed(3)]
      intro: bad_hdrlen_typed simp del: append.simps)

lemma parse_msg_typed:
  "parse_msg u os env fd filt mem m b ix = Some s \<Longrightarrow> step_typed s"
  by (auto simp: parse_msg_def schema_lookups msg_attrs_typed msg_attrs_plain_typed
      split: if_splits intro: message_typed)

lemma parse_loop_typed:
  "parse_loop u os env fd filt mem p n ix = Some calls \<Longrightarrow> \<forall>c\<in>set calls. call_typed c"
proof (induction n arbitrary: p ix calls rule: less_induct)
  case (less n)
  from less.prems show ?case
  proof (cases rule: parse_loop_cases)
    case (bad_length m)
    then show ?thesis by (simp add: schema_lookups msg_attrs_typed)
  next
    case (stop m)
    with parse_msg_typed [OF stop(5)] show ?thesis by simp
  next
    case (go_on m ix' now later)
    then have "n - unat (Msglen m) < n" using SizeofMsghdr_pos [of os] by simp
    from less.IH [OF this go_on(6)] parse_msg_typed [OF go_on(5)] go_on(7) show ?thesis by auto
  qed simp
qed

lemma err_call_typed:
  "map_of schemas (LevelError, msg) = Some [Req ''err'' TText] \<Longrightarrow>
   call_typed (LevelError, msg, [Err_attr e])"
  by (simp add: Err_attr_def val_type.intros)

lemma monitor_loop_typed:
  "monitor_loop u os env fd b rs = Some calls \<Longrightarrow> \<forall>c\<in>set calls. call_typed c"
proof (induction u os env fd b rs arbitrary: calls rule: monitor_loop.induct)
  case (2 u os env fd b err rs)
  then show ?case
    by (auto simp: bind_eq_Some_conv err_call_typed schema_lookups simp del: record_typed.simps)
next
  case (3 u os env fd b bs rs)
  then show ?case
    by (fastforce simp: bind_eq_Some_conv parseAndLogMsgs_def Let_def simp del: record_typed.simps
        dest: parse_loop_typed)
qed simp

lemmas calls_typed =
  parse_loop_typed [of u os env fd filt mem "fst b" "snd b" 0 for u os env fd filt mem b,
    folded parseAndLogMsgs_def]
  monitor_loop_typed [of u os env fd "replicate readBufSize 0" for u os env fd,
    folded monitorRoutingSocket_def]

subsection \<open>The Windows command\<close>

abbreviation win_call_typed :: "win_log_call \<Rightarrow> bool" where
  "win_call_typed \<equiv> record_typed win_any_type win_schemas"

lemma debug_distinct [simp]:
  "LevelDebug \<noteq> LevelInfo" "LevelDebug \<noteq> LevelWarn" "LevelDebug \<noteq> LevelError"
  "LevelInfo \<noteq> LevelDebug" "LevelWarn \<noteq> LevelDebug" "LevelError \<noteq> LevelDebug"
  by (simp_all add: LevelDebug_def LevelInfo_def LevelWarn_def LevelError_def)

lemma val_type_uint64 [simp]: "val_type any_type (VUint64 w) (TUint 64)"
  using unsigned_less [of w] by (simp add: val_type_simps)

lemma ipFromSockaddrInet_wf: "wf_addr (ipFromSockaddrInet env sa)"
  by (simp add: ipFromSockaddrInet_def)

lemma notification_attrs_typed:
  "attrs_type win_any_type notification_fields
     [Uint_attr ''InterfaceLuid'' (unat (luid :: 64 word)), Uint_attr ''InterfaceIndex'' (unat (ix :: 32 word)),
      Prefix_attr ''DestinationPrefix'' (prefixFromIpAddressPrefix env p),
      Addr_attr ''NextHop'' (ipFromSockaddrInet env sa)]"
  using ipFromSockaddrInet_wf [of env sa] ipFromSockaddrInet_wf [of env "ipp_prefix p"]
  by (auto simp: notification_fields_def Uint_attr_def Prefix_attr_def Addr_attr_def
      prefixFromIpAddressPrefix_def intro: val_type.intros)

lemma row_typed: "\<forall>c\<in>set (logMibIpForwardRow2 env row defaultOnly). win_call_typed c"
  using notification_attrs_typed [of "row_InterfaceLuid row" "row_InterfaceIndex row" env
    "row_DestinationPrefix row" "row_NextHop row"]
  by (auto simp: logMibIpForwardRow2_def Let_def win_schemas_def notification_fields_def Uint_attr_def)

lemma received_typed: "win_call_typed (received env n)"
  using notification_attrs_typed [of "InterfaceLuid n" "InterfaceIndex n" env "DestinationPrefix n" "NextHop n"]
  by (auto simp: received_def win_schemas_def notification_fields_def Uint_attr_def)

lemma win_messages_typed:
  "win_call_typed (LevelDebug, ''Skipping route change notification for route that no longer exists'', [])"
  "win_call_typed (LevelDebug, ''Skipping subsequent initial notification'', [])"
  "win_call_typed (LevelWarn, ''Unknown notification type'', [])"
  "win_call_typed (LevelError, ''Failed to get route information for route change notification'', [Err_attr e])"
  "win_call_typed (LevelError, ''Failed to get route table'', [Err_attr e])"
  "win_call_typed (LevelInfo, ''Registered for route change notifications'', [Uint_attr ''notificationHandle'' h])"
  "win_call_typed (LevelError, ''Failed to register for route change notifications'', [Err_attr e])"
  "win_call_typed (LevelInfo, ''Unregistered for route change notifications'', [])"
  "win_call_typed (LevelError, ''Failed to unregister for route change notifications'',
     [Uint_attr ''notificationHandle'' h, Err_attr e])"
  by (simp_all add: win_schemas_def Err_attr_def Uint_attr_def val_type.intros)

lemma handler_typed:
  "handleMibIpForwardRow2Notification env ops dumpAll n hs = (calls, hs') \<Longrightarrow>
   \<forall>c\<in>set calls. win_call_typed c"
  using row_typed
  by (auto simp: handleMibIpForwardRow2Notification_def Let_def received_typed win_messages_typed
      simp del: record_typed.simps split: prod.splits sum.splits if_splits)

lemma handle_run_typed: "\<forall>c\<in>set (fst (handle_run env ops dumpAll ns hs)). win_call_typed c"
proof (induction ns arbitrary: hs)
  case (Cons n ns)
  obtain calls hs' where n: "handleMibIpForwardRow2Notification env ops dumpAll n hs = (calls, hs')"
    by (metis prod.exhaust)
  with handler_typed [OF n] Cons.IH [of hs'] show ?case
    by (auto simp del: record_typed.simps split: prod.split)
qed simp

text \<open>The logs of the two goroutines, in every state that the command can reach.\<close>

lemma wsteps_typed:
  "wsteps env ops dumpAll (run_start k) s \<Longrightarrow>
   \<forall>c\<in>set (run_log s) \<union> set (handler_log s). win_call_typed c"
proof (induction "run_start k" s rule: wsteps.induct)
  case stay
  then show ?case by (simp add: run_start_def)
next
  case (go t u)
  from go(3) go(2) show ?case
    by cases (auto simp: win_messages_typed simp del: record_typed.simps dest: handler_typed)
qed

subsection \<open>Property\<close>

text \<open>
  C7. Every record the command logs is well typed, whatever the kernel sends and whichever calls
  fail: its attributes are those of its message, in their order, each of its type. On BSD an
  interface index is below 65536, an address is a valid one, the flags of an interface come as
  interface flags; an address attribute is an address or a link-layer name, it occurs at most
  once, and flags of an address only after the attribute ifa. On Windows, in every state the
  goroutines can reach, a next hop is a valid address or empty, a destination a valid prefix or
  empty, and every number fits the field of the row it comes from.
\<close>

theorem records_well_typed:
  "(case main_bsd u os env sock sysctl err_text dumpAll rs k of
     None \<Rightarrow> True
   | Some (Exit1 calls, k') \<Rightarrow> list_all (\<lambda>(src, c). call_typed c) calls
   | Some (Monitoring calls, k') \<Rightarrow> list_all (\<lambda>(src, c). call_typed c) calls) \<and>
   (\<forall>s. wsteps wenv ops dumpAll (run_start w) s \<longrightarrow>
     list_all win_call_typed (run_log s @ handler_log s))"
proof
  have err: "call_typed (LevelError, msg, [Err_attr e])"
    if "msg \<in> {''Failed to open routing socket'', ''Failed to open ioctl socket'',
      ''Failed to get interface dump'', ''Failed to get route dump''}" for msg e
    using that schema_lookups by (blast intro: err_call_typed)
  show "case main_bsd u os env sock sysctl err_text dumpAll rs k of
     None \<Rightarrow> True
   | Some (Exit1 calls, k') \<Rightarrow> list_all (\<lambda>(src, c). call_typed c) calls
   | Some (Monitoring calls, k') \<Rightarrow> list_all (\<lambda>(src, c). call_typed c) calls"
    by (auto simp: main_bsd_def Let_def err list_all_iff simp del: record_typed.simps dest!: calls_typed
        split: option.split main_result.split prod.split_asm sum.split_asm Option.bind_split_asm)
  show "\<forall>s. wsteps wenv ops dumpAll (run_start w) s \<longrightarrow>
      list_all win_call_typed (run_log s @ handler_log s)"
    using wsteps_typed by (fastforce simp: list_all_iff simp del: record_typed.simps)
qed

definition sample_handled :: "unit wstate" where
  "sample_handled = (let n = notification (Some (sample_row 10)) 3 in
     (run_start ())\<lparr>handler_state := (True, ()), notified := [n], handled := [n],
       handler_log := received sample_win n # logMibIpForwardRow2 sample_win (sample_row 0) False\<rparr>)"

lemma sample_handled_reached: "wsteps sample_win sample_ops False (run_start ()) sample_handled"
proof -
  let ?n = "notification (Some (sample_row 10)) 3" and ?s = "run_start ()"
  let ?t = "?s\<lparr>inflight := [?n], notified := [?n]\<rparr>"
  let ?u = "?t\<lparr>inflight := [], consumer := Handling ?n\<rparr>"
  have n: "NotificationType ?n = 3" by (simp add: notification_def)
  have "wstep sample_win sample_ops False ?s ?t"
    using callback [of ?s ?n "Some (sample_row 10)" 3] by (simp add: run_start_def)
  moreover have "wstep sample_win sample_ops False ?t ?u"
    using send [of ?t "[]" ?n "[]"] by (simp add: run_start_def)
  moreover have "logMibIpForwardRow2 sample_win (sample_row 10) True @ logMibIpForwardRow2 sample_win (sample_row 0) True =
      logMibIpForwardRow2 sample_win (sample_row 0) False"
    using logged_rows [of sample_win False "[sample_row 10, sample_row 0]"] sample_default by simp
  then have "handleMibIpForwardRow2Notification sample_win sample_ops False ?n (False, ()) =
      (received sample_win ?n # logMibIpForwardRow2 sample_win (sample_row 0) False, True, ())"
    using n by (simp add: handleMibIpForwardRow2Notification_def Let_def sample_win_def sample_ops_def)
  then have "wstep sample_win sample_ops False ?u sample_handled"
    using handle [of ?u ?n] by (simp add: sample_handled_def run_start_def Let_def)
  ultimately show ?thesis by (blast intro: wsteps.intros)
qed

theorem records_well_typed_witness:
  "list_all win_call_typed (run_log sample_handled @ handler_log sample_handled) \<and>
   handler_log sample_handled \<noteq> []"
proof
  show "list_all win_call_typed (run_log sample_handled @ handler_log sample_handled)"
    by (rule mp [OF spec [OF conjunct2 [OF records_well_typed]] sample_handled_reached])
  show "handler_log sample_handled \<noteq> []" by (simp add: sample_handled_def Let_def)
qed

end
