(* ===== verification/Event_Reader.thy ===== *)
theory Event_Reader
  imports Prelude
begin

text \<open>
  ssgodatabyip/ssgodatabyip.go, the reader: eventJSONReader streams what follows the first brace
  of each line of its input. Beneath it is a bufio.Reader: the model keeps what the inner reader
  has not given out yet and the error that follows it, and \<open>ReadSlice\<close> gives the bytes
  up to a delimiter, as many as fit in the buffer.
\<close>

subsection \<open>The buffered reader\<close>

datatype ioerr = EOF | ErrBufferFull | IOErr string

record bufio =
  unread :: string
  end_err :: ioerr

text \<open>The slice found in the buffer, the rest of the input with its error, or a full buffer.\<close>

definition ReadSlice :: "nat \<Rightarrow> char \<Rightarrow> bufio \<Rightarrow> (string \<times> ioerr option) \<times> bufio" where
  "ReadSlice bsz delim br =
     (let window = take bsz (unread br); line = takeWhile (\<lambda>c. c \<noteq> delim) window
      in if line \<noteq> window then
           ((line @ [delim], None), br\<lparr>unread := drop (Suc (length line)) (unread br)\<rparr>)
         else if length (unread br) < bsz then
           ((unread br, Some (end_err br)), br\<lparr>unread := []\<rparr>)
         else ((window, Some ErrBufferFull), br\<lparr>unread := drop bsz (unread br)\<rparr>))"

subsection \<open>The streaming reader\<close>

record eventJSONReader =
  rd :: bufio
  leftover :: string
  rd_err :: "ioerr option"

definition bufSize :: nat where
  "bufSize = 128 * 1024"

definition newEventJSONReader :: "string \<Rightarrow> ioerr \<Rightarrow> eventJSONReader" where
  "newEventJSONReader input e =
     \<lparr>rd = \<lparr>unread = input, end_err = e\<rparr>, leftover = [], rd_err = None\<rparr>"

text \<open>
  The loop with \<open>p\<close> bytes of the buffer left and \<open>out\<close> written so far; the result is
  the bytes written, the error and the reader.
\<close>

function Read_loop ::
  "nat \<Rightarrow> nat \<Rightarrow> string \<Rightarrow> eventJSONReader \<Rightarrow> string \<times> ioerr option \<times> eventJSONReader" where
  "Read_loop bsz p out r =
     (if p = 0 then (out, None, r)
      else let ((skipped, err), br) = ReadSlice bsz (CHR ''{'') (rd r) in
        case err of Some e \<Rightarrow> (out, Some e, r\<lparr>rd := br\<rparr>)
        | None \<Rightarrow>
          let out = out @ ''{'';
              p = p - 1;
              ((line, err), br) = ReadSlice bsz (CHR 0x0a) br;
              nn = min p (length line);
              out = out @ take nn line;
              p = p - nn
          in if nn < length line then
               (out, None, r\<lparr>rd := br, leftover := drop nn line, rd_err := err\<rparr>)
             else case err of Some e \<Rightarrow> (out, Some e, r\<lparr>rd := br\<rparr>)
             | None \<Rightarrow> Read_loop bsz p out (r\<lparr>rd := br\<rparr>))"
  by pat_completeness auto

termination Read_loop
  by (relation "measure (\<lambda>(bsz, p, out, r). p)") auto

declare Read_loop.simps [simp del]

definition Read ::
  "nat \<Rightarrow> nat \<Rightarrow> eventJSONReader \<Rightarrow> string \<times> ioerr option \<times> eventJSONReader" where
  "Read bsz p r =
     (let n = min p (length (leftover r));
          out = take n (leftover r);
          r = r\<lparr>leftover := drop n (leftover r)\<rparr>;
          p = p - n
      in if rd_err r \<noteq> None then (out, rd_err r, r)
         else Read_loop bsz p out r)"

subsection \<open>What the stream should be\<close>

text \<open>Every line from its first brace on, line ends included; lines without a brace vanish.\<close>

fun stripped :: "bool \<Rightarrow> string \<Rightarrow> string" where
  "stripped inside [] = []"
| "stripped inside (c # cs) =
     (if inside then c # stripped (c \<noteq> CHR 0x0a) cs
      else if c = CHR ''{'' then c # stripped True cs
      else stripped False cs)"

text \<open>
  What is still to come from a reader: the leftover of the last line and the stripped of what is
  unread.
\<close>

definition pending :: "eventJSONReader \<Rightarrow> string" where
  "pending r = leftover r @ stripped False (unread (rd r))"

text \<open>Every piece that ReadSlice looks for fits into the buffer.\<close>

fun max_gap :: "char \<Rightarrow> char \<Rightarrow> nat \<Rightarrow> string \<Rightarrow> nat" where
  "max_gap a b k [] = k"
| "max_gap a b k (c # cs) = (if c = a then max k (max_gap b a 0 cs) else max_gap a b (Suc k) cs)"

definition fits :: "nat \<Rightarrow> string \<Rightarrow> bool" where
  "fits bsz s \<longleftrightarrow> max_gap (CHR ''{'') (CHR 0x0a) 0 s < bsz"

subsection \<open>Facts about the parts\<close>

lemma split_at: "d \<in> set s \<Longrightarrow> \<exists>l t. s = l @ d # t \<and> d \<notin> set l"
  by (metis split_list_first)

lemma ReadSlice_found:
  assumes "unread br = l @ d # t" and "d \<notin> set l" and "length l < bsz"
  shows "ReadSlice bsz d br = ((l @ [d], None), br\<lparr>unread := t\<rparr>)"
proof -
  have "take bsz (unread br) = l @ d # take (bsz - Suc (length l)) t"
    using assms(1,3) by (simp add: take_Cons')
  moreover have "takeWhile (\<lambda>c. c \<noteq> d) (l @ d # u) = l" for u
    using assms(2) by (induction l) auto
  ultimately show ?thesis using assms(1) by (simp add: ReadSlice_def Let_def)
qed

lemma ReadSlice_missing:
  assumes "d \<notin> set (unread br)" and "length (unread br) < bsz"
  shows "ReadSlice bsz d br = ((unread br, Some (end_err br)), br\<lparr>unread := []\<rparr>)"
proof -
  have "takeWhile (\<lambda>c. c \<noteq> d) (unread br) = unread br"
    using assms(1) by (induction "unread br") (auto simp: takeWhile_eq_all_conv)
  with assms show ?thesis by (simp add: ReadSlice_def Let_def)
qed

lemma stripped_outside:
  "CHR ''{'' \<notin> set l \<Longrightarrow> stripped False (l @ CHR ''{'' # t) = CHR ''{'' # stripped True t"
  "CHR ''{'' \<notin> set l \<Longrightarrow> stripped False l = []"
  by (induction l) auto

lemma stripped_inside:
  "CHR 0x0a \<notin> set l \<Longrightarrow> stripped True (l @ CHR 0x0a # t) = l @ CHR 0x0a # stripped False t"
  "CHR 0x0a \<notin> set l \<Longrightarrow> stripped True l = l"
  by (induction l) auto

lemma max_gap_found: "a \<notin> set l \<Longrightarrow> max_gap a b k (l @ a # t) = max (k + length l) (max_gap b a 0 t)"
  by (induction l arbitrary: k) auto

lemma max_gap_missing: "a \<notin> set l \<Longrightarrow> max_gap a b k l = k + length l"
  by (induction l arbitrary: k) auto

text \<open>
  The two reads of a pass of the loop: there is no further brace, or a brace and a whole line after
  it, or a brace and the last line without its end.
\<close>

lemma pass_cases:
  assumes "fits bsz (unread br)"
  obtains (finished) "ReadSlice bsz (CHR ''{'') br = ((unread br, Some (end_err br)), br\<lparr>unread := []\<rparr>)"
      "stripped False (unread br) = []"
  | (line) skipped l t where "ReadSlice bsz (CHR ''{'') br = ((skipped, None), br\<lparr>unread := l @ CHR 0x0a # t\<rparr>)"
      "ReadSlice bsz (CHR 0x0a) (br\<lparr>unread := l @ CHR 0x0a # t\<rparr>) = ((l @ [CHR 0x0a], None), br\<lparr>unread := t\<rparr>)"
      "stripped False (unread br) = CHR ''{'' # l @ CHR 0x0a # stripped False t"
      "fits bsz t" "\<exists>pre. unread br = pre @ t"
  | (last) skipped l where "ReadSlice bsz (CHR ''{'') br = ((skipped, None), br\<lparr>unread := l\<rparr>)"
      "ReadSlice bsz (CHR 0x0a) (br\<lparr>unread := l\<rparr>) = ((l, Some (end_err br)), br\<lparr>unread := []\<rparr>)"
      "stripped False (unread br) = CHR ''{'' # l" "CHR 0x0a \<notin> set l"
      "\<exists>pre. unread br = pre @ CHR ''{'' # l"
proof (cases "CHR ''{'' \<in> set (unread br)")
  case False
  with assms have "length (unread br) < bsz" by (simp add: fits_def max_gap_missing)
  with False show ?thesis by (intro finished ReadSlice_missing stripped_outside(2))
next
  case True
  then obtain pre u where u: "unread br = pre @ CHR ''{'' # u" "CHR ''{'' \<notin> set pre"
    using split_at by metis
  with assms have gap: "length pre < bsz" "max_gap (CHR 0x0a) (CHR ''{'') 0 u < bsz"
    by (simp_all add: fits_def max_gap_found)
  have brace: "ReadSlice bsz (CHR ''{'') br = ((pre @ ''{'', None), br\<lparr>unread := u\<rparr>)"
    using ReadSlice_found [OF u gap(1)] by simp
  have ex: "stripped False (unread br) = CHR ''{'' # stripped True u"
    using u by (simp add: stripped_outside)
  show ?thesis
  proof (cases "CHR 0x0a \<in> set u")
    case False
    with gap(2) have "length u < bsz" by (simp add: max_gap_missing)
    with False have "ReadSlice bsz (CHR 0x0a) (br\<lparr>unread := u\<rparr>) = ((u, Some (end_err br)), br\<lparr>unread := []\<rparr>)"
      using ReadSlice_missing [of "CHR 0x0a" "br\<lparr>unread := u\<rparr>" bsz] by simp
    moreover have "\<exists>pre. unread br = pre @ CHR ''{'' # u" using u(1) by blast
    ultimately show ?thesis
      using brace ex False by (intro last) (simp_all add: stripped_inside)
  next
    case True
    then obtain l t where l: "u = l @ CHR 0x0a # t" "CHR 0x0a \<notin> set l" using split_at by metis
    with gap(2) have "length l < bsz" and t: "fits bsz t" by (simp_all add: max_gap_found fits_def)
    with l have "ReadSlice bsz (CHR 0x0a) (br\<lparr>unread := u\<rparr>) = ((l @ [CHR 0x0a], None), br\<lparr>unread := t\<rparr>)"
      using ReadSlice_found [of "br\<lparr>unread := u\<rparr>" l "CHR 0x0a" t bsz] by simp
    moreover have "\<exists>pre. unread br = pre @ t"
      using u(1) l(1) by (intro exI [of _ "pre @ ''{'' @ l @ [CHR 0x0a]"]) simp
    ultimately show ?thesis
      using brace ex l t by (intro line) (simp_all add: stripped_inside)
  qed
qed

subsection \<open>Reading\<close>

text \<open>
  The reader between two calls: what is unread fits the buffer, is empty or ends a line, and no
  error is waiting.
\<close>

definition whole_lines :: "string \<Rightarrow> bool" where
  "whole_lines s \<longleftrightarrow> s = [] \<or> last s = CHR 0x0a"

definition reading :: "nat \<Rightarrow> ioerr \<Rightarrow> eventJSONReader \<Rightarrow> bool" where
  "reading bsz e r \<longleftrightarrow> fits bsz (unread (rd r)) \<and> whole_lines (unread (rd r)) \<and>
     rd_err r = None \<and> end_err (rd r) = e"

lemma whole_lines_suffix: "whole_lines (pre @ t) \<Longrightarrow> whole_lines t"
  by (cases "t = []") (auto simp: whole_lines_def)

lemma Read_loop_streams:
  assumes "reading bsz e0 r" and "p = 0 \<or> leftover r = []"
  shows "\<exists>new r'. Read_loop bsz p out r =
      (out @ new, if length (pending r) < p then Some e0 else None, r') \<and>
    new = take p (pending r) \<and> pending r' = drop p (pending r) \<and>
    (p \<le> length (pending r) \<longrightarrow> reading bsz e0 r')"
  using assms
proof (induction p arbitrary: out r rule: less_induct)
  case (less p)
  note eq = Read_loop.simps [of bsz p out r]
  show ?case
  proof (cases "p = 0")
    case True
    with less.prems eq show ?thesis by simp
  next
    case False
    with less.prems have r: "leftover r = []" "fits bsz (unread (rd r))" "whole_lines (unread (rd r))"
      "rd_err r = None" "end_err (rd r) = e0" by (simp_all add: reading_def)
    from r(2) show ?thesis
    proof (cases rule: pass_cases)
      case finished
      with False r show ?thesis by (simp add: eq pending_def reading_def)
    next
      case (last skipped l)
      from last(5) r(3) have "whole_lines (CHR ''{'' # l)" by (auto intro: whole_lines_suffix)
      with last(4) show ?thesis by (auto simp: whole_lines_def dest: last_in_set split: if_splits)
    next
      case (line skipped l t)
      define n where "n = Suc (length l)"
      have pend: "pending r = CHR ''{'' # (l @ [CHR 0x0a]) @ stripped False t"
        using line(3) r(1) by (simp add: pending_def)
      have t: "whole_lines t" using line(5) r(3) by (auto intro: whole_lines_suffix)
      show ?thesis
      proof (cases "p - 1 < n")
        case True
        with False line(1-3) r show ?thesis
          by (simp add: eq Let_def n_def pending_def reading_def t line(4) take_Cons' drop_Cons')
      next
        case more: False
        define r1 where "r1 = r\<lparr>rd := (rd r)\<lparr>unread := t\<rparr>\<rparr>"
        have r1: "reading bsz e0 r1" "leftover r1 = []" "pending r1 = stripped False t"
          using r t line(4) by (simp_all add: r1_def reading_def pending_def)
        have step: "Read_loop bsz p out r =
            Read_loop bsz (p - 1 - n) (out @ ''{'' @ l @ [CHR 0x0a]) r1"
          using False more line(1,2) by (simp add: eq Let_def n_def r1_def)
        have "p - 1 - n < p" using False by simp
        from less.IH [OF this r1(1), of "out @ ''{'' @ l @ [CHR 0x0a]"] r1 more False show ?thesis
          unfolding step pend by (auto simp: n_def take_Cons' drop_Cons')
      qed
    qed
  qed
qed

lemma Read_streams:
  assumes "reading bsz e0 r"
  shows "\<exists>r'. Read bsz p r =
      (take p (pending r), if length (pending r) < p then Some e0 else None, r') \<and>
    pending r' = drop p (pending r) \<and> (p \<le> length (pending r) \<longrightarrow> reading bsz e0 r')"
proof -
  define n where "n = min p (length (leftover r))"
  define r1 where "r1 = r\<lparr>leftover := drop n (leftover r)\<rparr>"
  have r1: "reading bsz e0 r1" "p - n = 0 \<or> leftover r1 = []"
    using assms by (auto simp: reading_def r1_def n_def)
  have parts: "pending r = take n (leftover r) @ pending r1"
    by (simp add: pending_def r1_def flip: append.assoc)
  have n: "length (take n (leftover r)) = n" "n \<le> p" by (simp_all add: n_def)
  have "Read bsz p r = Read_loop bsz (p - n) (take n (leftover r)) r1"
    using r1(1) by (simp add: Read_def Let_def n_def r1_def reading_def)
  with Read_loop_streams [OF r1, of "take n (leftover r)"] n show ?thesis
    by (auto simp: parts)
qed

text \<open>Reading with a sequence of buffers, until the first error.\<close>

fun reads :: "nat \<Rightarrow> nat list \<Rightarrow> eventJSONReader \<Rightarrow> string \<times> ioerr option \<times> eventJSONReader" where
  "reads bsz [] r = ([], None, r)"
| "reads bsz (p # ps) r =
     (let (out, e, r) = Read bsz p r
      in if e \<noteq> None then (out, e, r)
         else let (outs, e, r) = reads bsz ps r in (out @ outs, e, r))"

lemma reads_stream:
  "reading bsz e0 r \<Longrightarrow>
   fst (reads bsz ps r) = take (sum_list ps) (pending r) \<and>
   fst (snd (reads bsz ps r)) = (if length (pending r) < sum_list ps then Some e0 else None)"
proof (induction ps arbitrary: r)
  case (Cons p ps)
  from Read_streams [OF Cons.prems, of p] obtain r' where
    one: "Read bsz p r = (take p (pending r), if length (pending r) < p then Some e0 else None, r')"
    "pending r' = drop p (pending r)" "p \<le> length (pending r) \<longrightarrow> reading bsz e0 r'" by blast
  show ?case
  proof (cases "length (pending r) < p")
    case True
    with one show ?thesis by simp
  next
    case False
    with Cons.IH [of r'] one show ?thesis
      by (auto simp: split_beta Let_def take_add)
  qed
qed simp

text \<open>
  C10. On an input of whole lines whose pieces fit into the inner buffer, the reader delivers
  exactly the lines from their first brace on, whatever the sizes of the buffers it is given: after
  any sequence of reads the bytes delivered are the start of that stream, and the end of the input
  is reported exactly when more was asked for than there is.
\<close>

theorem reader_streams:
  assumes "fits bsz input" and "whole_lines input"
  shows "fst (reads bsz ps (newEventJSONReader input e0)) = take (sum_list ps) (stripped False input) \<and>
    fst (snd (reads bsz ps (newEventJSONReader input e0))) =
      (if length (stripped False input) < sum_list ps then Some e0 else None)"
  using reads_stream [of bsz e0 "newEventJSONReader input e0" ps] assms
  by (simp add: reading_def newEventJSONReader_def pending_def)

theorem reader_streams_witness:
  "fst (reads bufSize [2, 3, 7] (newEventJSONReader (''x {12}'' @ [CHR 0x0a] @ ''no'' @ [CHR 0x0a] @ ''{3}'' @ [CHR 0x0a]) EOF)) =
     ''{12}'' @ [CHR 0x0a] @ ''{3}'' @ [CHR 0x0a]"
proof -
  have "fits bufSize (''x {12}'' @ [CHR 0x0a] @ ''no'' @ [CHR 0x0a] @ ''{3}'' @ [CHR 0x0a])"
    and "whole_lines (''x {12}'' @ [CHR 0x0a] @ ''no'' @ [CHR 0x0a] @ ''{3}'' @ [CHR 0x0a])"
    by (simp_all add: fits_def bufSize_def whole_lines_def)
  from reader_streams [OF this, of "[2, 3, 7]" EOF, THEN conjunct1] show ?thesis by simp
qed

text \<open>
  C35. When the last line has no line end and does not fit into the buffer of the read that
  reaches it, its tail is lost: the next read delivers what fits of the leftover and reports the
  end of the input at once, with the rest of the leftover never delivered.
\<close>

theorem reader_truncates:
  assumes "CHR ''{'' \<notin> set junk" and "CHR 0x0a \<notin> set body"
    and "length junk < bsz" and "length body < bsz"
    and "0 < p" and "p + q < length (CHR ''{'' # body)"
  shows "\<exists>r. reads bsz (p # q # ps) (newEventJSONReader (junk @ CHR ''{'' # body) e0) =
      (take (p + q) (CHR ''{'' # body), Some e0, r)"
proof -
  define br where "br = \<lparr>unread = junk @ CHR ''{'' # body, end_err = e0\<rparr>"
  have brace: "ReadSlice bsz (CHR ''{'') br = ((junk @ ''{'', None), br\<lparr>unread := body\<rparr>)"
    using ReadSlice_found [of br junk "CHR ''{''" body bsz] assms(1,3) by (simp add: br_def)
  have nl: "ReadSlice bsz (CHR 0x0a) (br\<lparr>unread := body\<rparr>) = ((body, Some e0), br\<lparr>unread := []\<rparr>)"
    using ReadSlice_missing [of "CHR 0x0a" "br\<lparr>unread := body\<rparr>" bsz] assms(2,4) by (simp add: br_def)
  define r0 where "r0 = newEventJSONReader (junk @ CHR ''{'' # body) e0"
  have r0: "rd r0 = br" "leftover r0 = []" "rd_err r0 = None"
    by (simp_all add: r0_def newEventJSONReader_def br_def)
  define r1 where "r1 = r0\<lparr>rd := br\<lparr>unread := []\<rparr>, leftover := drop (p - 1) body, rd_err := Some e0\<rparr>"
  note loop = Read_loop.simps [of bsz p "[]" "r0\<lparr>leftover := []\<rparr>"]
  have "Read bsz p r0 = (take p (CHR ''{'' # body), None, r1)"
    using brace nl assms(5,6) r0 by (simp add: Read_def loop Let_def r1_def take_Cons')
  moreover have "Read bsz q r1 =
      (take q (drop (p - 1) body), Some e0, r1\<lparr>leftover := drop (p - 1 + q) body\<rparr>)"
    using assms(5,6) by (simp add: Read_def Let_def r1_def add.commute)
  moreover have "take (p + q) (CHR ''{'' # body) = take p (CHR ''{'' # body) @ take q (drop (p - 1) body)"
    using assms(5) by (cases p) (simp_all add: take_add)
  ultimately show ?thesis by (simp add: r0_def [symmetric])
qed

theorem reader_truncates_witness:
  "\<exists>r. reads bufSize [2, 1, 9] (newEventJSONReader ''log {12345}'' EOF) = (''{12'', Some EOF, r)"
  using reader_truncates [of "''log ''" "''12345}''" bufSize 2 1 "[9]" EOF]
  by (simp add: bufSize_def numeral_3_eq_3)

end
