(* ===== verification/Data_Usage.thy ===== *)
theory Data_Usage
  imports Event_Reader Netip_Text
begin

text \<open>
  ssgodatabyip/ssgodatabyip.go, main: the bytes of every client address, largest first. The JSON
  decoder reads the stream of the theory Event\_Reader; the model starts from what its calls
  answer, one by one. A range over a map visits the entries in an order the language leaves
  open: the argument \<open>order\<close> gives it. The sort is not stable; with the order open, every
  arrangement it can give is the stable one of some order.
\<close>

record Event =
  ClientAddress :: AddrPort
  ClientSessionID :: "64 word"
  NL2R :: "64 word"
  NR2L :: "64 word"
  PayloadBytesSent :: "64 word"

datatype decoded = Decoded Event | DecodeEOF | DecodeErr string

record tables =
  addrByCSID :: "(64 word, Addr) gomap"
  bytesByIP :: "(Addr, 64 word) gomap"

definition empty_tables :: tables where
  "empty_tables = \<lparr>addrByCSID = gm_empty, bytesByIP = gm_empty\<rparr>"

text \<open>A missing key reads as the zero value.\<close>

definition csid_addr :: "(64 word, Addr) gomap \<Rightarrow> 64 word \<Rightarrow> Addr" where
  "csid_addr m k = (case gm_get m k of Some a \<Rightarrow> a | None \<Rightarrow> zero_addr)"

definition ip_bytes :: "(Addr, 64 word) gomap \<Rightarrow> Addr \<Rightarrow> 64 word" where
  "ip_bytes m k = (case gm_get m k of Some b \<Rightarrow> b | None \<Rightarrow> 0)"

definition event_step :: "Event \<Rightarrow> tables \<Rightarrow> tables" where
  "event_step event s =
     (let addr = ap_ip (ClientAddress event);
          (addr, s) =
            (if ClientSessionID event \<noteq> 0 then
               if IsValid addr then
                 (addr, s\<lparr>addrByCSID := gm_put (ClientSessionID event) addr (addrByCSID s)\<rparr>)
               else (csid_addr (addrByCSID s) (ClientSessionID event), s)
             else (addr, s))
      in if IsValid addr then
           s\<lparr>bytesByIP := gm_put addr
               (ip_bytes (bytesByIP s) addr + (NL2R event + NR2L event + PayloadBytesSent event))
               (bytesByIP s)\<rparr>
         else s)"

text \<open>The loop over the decoder: it waits for more (\<open>None\<close>), fails or ends.\<close>

fun decode_loop :: "decoded list \<Rightarrow> tables \<Rightarrow> (string + tables) option" where
  "decode_loop [] s = None"
| "decode_loop (DecodeEOF # ds) s = Some (Inr s)"
| "decode_loop (DecodeErr e # ds) s = Some (Inl (''Failed to decode JSON: '' @ e @ [CHR 0x0a]))"
| "decode_loop (Decoded event # ds) s = decode_loop ds (event_step event s)"

record DataUsage =
  IP :: Addr
  Bytes :: "64 word"

definition usage_line :: "DataUsage \<Rightarrow> string" where
  "usage_line u = Addr_AppendTo [] (IP u) @ [CHR 0x09] @ itoa (unat (Bytes u)) @ [CHR 0x0a]"

fun output_loop :: "DataUsage list \<Rightarrow> string \<Rightarrow> string" where
  "output_loop [] output = output"
| "output_loop (u # us) output =
     (let output = Addr_AppendTo output (IP u);
          output = output @ [CHR 0x09];
          output = output @ itoa (unat (Bytes u));
          output = output @ [CHR 0x0a]
      in output_loop us output)"

definition usages :: "((Addr \<times> 64 word) list \<Rightarrow> (Addr \<times> 64 word) list) \<Rightarrow> tables \<Rightarrow> DataUsage list" where
  "usages order s =
     sort_key (\<lambda>u. - uint (Bytes u))
       (map (\<lambda>(ip, bytes). \<lparr>IP = ip, Bytes = bytes\<rparr>) (order (bytesByIP s)))"

datatype outcome = Printed string | Failed string

definition main_usage ::
  "((Addr \<times> 64 word) list \<Rightarrow> (Addr \<times> 64 word) list) \<Rightarrow> decoded list \<Rightarrow> outcome option" where
  "main_usage order ds =
     map_option (\<lambda>r. case r of Inl e \<Rightarrow> Failed e | Inr s \<Rightarrow> Printed (output_loop (usages order s) []))
       (decode_loop ds empty_tables)"

subsection \<open>To whom an event counts\<close>

text \<open>The last valid address seen with a session before.\<close>

fun session_addr :: "Event list \<Rightarrow> 64 word \<Rightarrow> Addr" where
  "session_addr [] k = zero_addr"
| "session_addr (e # earlier) k =
     (if ClientSessionID e = k \<and> IsValid (ap_ip (ClientAddress e)) then ap_ip (ClientAddress e)
      else session_addr earlier k)"

text \<open>The events before an event are given latest first.\<close>

definition payer :: "Event list \<Rightarrow> Event \<Rightarrow> Addr" where
  "payer earlier e =
     (if ClientSessionID e = 0 \<or> IsValid (ap_ip (ClientAddress e)) then ap_ip (ClientAddress e)
      else session_addr earlier (ClientSessionID e))"

definition event_bytes :: "Event \<Rightarrow> 64 word" where
  "event_bytes e = NL2R e + NR2L e + PayloadBytesSent e"

text \<open>The bytes of an address over all events, latest first; none if no event counts for it.\<close>

fun total :: "Event list \<Rightarrow> Addr \<Rightarrow> 64 word option" where
  "total [] ip = None"
| "total (e # earlier) ip =
     (if payer earlier e = ip \<and> IsValid ip then
        Some ((case total earlier ip of None \<Rightarrow> 0 | Some b \<Rightarrow> b) + event_bytes e)
      else total earlier ip)"

subsection \<open>Facts\<close>

lemma decode_loop_events:
  "decode_loop (map Decoded evs @ ds) s = decode_loop ds (fold event_step evs s)"
  by (induction evs arbitrary: s) simp_all

definition tables_ok :: "Event list \<Rightarrow> tables \<Rightarrow> bool" where
  "tables_ok earlier s \<longleftrightarrow> gm_ok (addrByCSID s) \<and> gm_ok (bytesByIP s) \<and>
     (\<forall>k. k \<noteq> 0 \<longrightarrow> csid_addr (addrByCSID s) k = session_addr earlier k) \<and>
     (\<forall>ip. gm_get (bytesByIP s) ip = total earlier ip)"

lemma event_step_ok: "tables_ok earlier s \<Longrightarrow> tables_ok (e # earlier) (event_step e s)"
  by (auto simp: tables_ok_def event_step_def payer_def csid_addr_def ip_bytes_def event_bytes_def
      gomap Let_def add.assoc)

lemma events_ok: "tables_ok earlier s \<Longrightarrow> tables_ok (rev evs @ earlier) (fold event_step evs s)"
  by (induction evs arbitrary: earlier s) (auto dest: event_step_ok)

lemma empty_ok: "tables_ok [] empty_tables"
  by (simp add: tables_ok_def empty_tables_def csid_addr_def gomap)

lemma output_loop_lines: "output_loop us acc = acc @ concat (map usage_line us)"
  by (induction us arbitrary: acc)
    (auto simp: usage_line_def Addr_AppendTo_def Let_def split: addr_detail.splits)

lemma gm_entries: "gm_ok m \<Longrightarrow> (k, v) \<in> set m \<longleftrightarrow> gm_get m k = Some v"
  by (simp add: gm_ok_def gm_get_def)

text \<open>
  C18. On any sequence of events the program prints one line per client address that an event counts
  for, with the sum modulo 64 bits of the bytes of these events, in descending order of the sums:
  an event counts for its own address or, without one, for the last address seen with its
  session. If the decoder fails, it prints the error and nothing else.
\<close>

theorem usage_report:
  assumes "\<And>m. mset (order m) = mset m"
  shows "(\<exists>us. main_usage order (map Decoded evs @ DecodeEOF # ds) =
        Some (Printed (concat (map usage_line us))) \<and>
      sorted_wrt (\<lambda>u v. Bytes v \<le> Bytes u) us \<and> distinct (map IP us) \<and>
      (\<forall>ip b. \<lparr>IP = ip, Bytes = b\<rparr> \<in> set us \<longleftrightarrow> total (rev evs) ip = Some b)) \<and>
    main_usage order (map Decoded evs @ DecodeErr e # ds) =
      Some (Failed (''Failed to decode JSON: '' @ e @ [CHR 0x0a]))"
proof
  define s where "s = fold event_step evs empty_tables"
  have ok: "tables_ok (rev evs) s" using events_ok [OF empty_ok, of evs] by (simp add: s_def)
  then have m: "gm_ok (bytesByIP s)" and t: "gm_get (bytesByIP s) ip = total (rev evs) ip" for ip
    by (simp_all add: tables_ok_def)
  have set: "set (order (bytesByIP s)) = set (bytesByIP s)" using assms mset_eq_setD by blast
  have "sorted (map (\<lambda>u. - uint (Bytes u)) (usages order s))" by (simp add: usages_def)
  then have "sorted_wrt (\<lambda>u v. Bytes v \<le> Bytes u) (usages order s)"
    by (simp add: sorted_map word_le_def)
  moreover have "distinct (map IP (usages order s))"
  proof -
    have "mset (map IP (usages order s)) = mset (map fst (order (bytesByIP s)))"
      unfolding usages_def mset_map mset_sort
      by (simp add: image_mset.compositionality comp_def case_prod_beta)
    also have "\<dots> = mset (map fst (bytesByIP s))" using assms by simp
    finally show ?thesis using m by (metis gm_ok_def mset_eq_imp_distinct_iff)
  qed
  moreover have "\<lparr>IP = ip, Bytes = b\<rparr> \<in> set (usages order s) \<longleftrightarrow> total (rev evs) ip = Some b" for ip b
    using gm_entries [OF m, of ip b] t by (force simp: usages_def set image_iff)
  moreover have "main_usage order (map Decoded evs @ DecodeEOF # ds) =
      Some (Printed (concat (map usage_line (usages order s))))"
    by (simp add: main_usage_def decode_loop_events output_loop_lines s_def)
  ultimately show "\<exists>us. main_usage order (map Decoded evs @ DecodeEOF # ds) =
        Some (Printed (concat (map usage_line us))) \<and>
      sorted_wrt (\<lambda>u v. Bytes v \<le> Bytes u) us \<and> distinct (map IP us) \<and>
      (\<forall>ip b. \<lparr>IP = ip, Bytes = b\<rparr> \<in> set us \<longleftrightarrow> total (rev evs) ip = Some b)"
    by blast
qed (simp add: main_usage_def decode_loop_events)

definition sample_event :: "byte \<Rightarrow> 64 word \<Rightarrow> 64 word \<Rightarrow> Event" where
  "sample_event a k n =
     \<lparr>ClientAddress = (if a = 0 then zero_addrport else \<lparr>ap_ip = AddrFrom4 [10, 0, 0, a], ap_port = 1\<rparr>),
      ClientSessionID = k, NL2R = n, NR2L = 1, PayloadBytesSent = 0\<rparr>"

theorem usage_report_witness:
  "\<exists>us. main_usage rev [Decoded (sample_event 1 7 10), Decoded (sample_event 2 0 20),
      Decoded (sample_event 0 7 30), DecodeEOF] = Some (Printed (concat (map usage_line us))) \<and>
    \<lparr>IP = AddrFrom4 [10, 0, 0, 1], Bytes = 42\<rparr> \<in> set us"
proof -
  have "\<And>m :: (Addr \<times> 64 word) list. mset (rev m) = mset m" by simp
  from usage_report [OF this, THEN conjunct1,
      of "[sample_event 1 7 10, sample_event 2 0 20, sample_event 0 7 30]" "[]"] show ?thesis
    by (auto simp: sample_event_def payer_def event_bytes_def zero_addrport_def zero_addr_def
        IsValid_def AddrFrom4_def of_be_def)
qed

end
