(* ===== verification/Netip_Parse.thy ===== *)
theory Netip_Parse
  imports Netip_Text
begin

text \<open>
  The parsers of net/netip: ParseAddr and ParsePrefix with every test they make, and the theorem
  that they read back what AppendTo writes. An error keeps the texts it was made of, before they
  are quoted.
\<close>

datatype netip_error =
  parseAddrError string string
| parsePrefixError string string
| prefixAddrError string netip_error
| prefixBitsError string string

subsection \<open>IPv4\<close>

definition is_digit :: "char \<Rightarrow> bool" where
  "is_digit c \<longleftrightarrow> 48 \<le> (of_char c :: nat) \<and> (of_char c :: nat) \<le> 57"

text \<open>
  The loop over the text with the previous character, the value and length of the current octet
  and the fields before it; the start and the end of the text show as \<open>prev = None\<close> and an
  empty rest.
\<close>

fun ipv4_loop :: "char option \<Rightarrow> nat \<Rightarrow> nat \<Rightarrow> byte list \<Rightarrow> string \<Rightarrow> string + byte list" where
  "ipv4_loop prev val digLen flds [] =
     (if length flds < 3 then Inl ''IPv4 address too short''
      else Inr (flds @ [word_of_nat val]))"
| "ipv4_loop prev val digLen flds (c # s) =
     (if is_digit c then
        if digLen = 1 \<and> val = 0 then Inl ''IPv4 field has octet with leading zero''
        else let val = val * 10 + digit_val c in
          if val > 255 then Inl ''IPv4 field has value >255''
          else ipv4_loop (Some c) val (Suc digLen) flds s
      else if c = CHR ''.'' then
        if prev = None \<or> s = [] \<or> prev = Some (CHR ''.'') then
          Inl ''IPv4 field must have at least one digit''
        else if length flds = 3 then Inl ''IPv4 address too long''
        else ipv4_loop (Some c) 0 0 (flds @ [word_of_nat val]) s
      else Inl ''unexpected character'')"

definition parseIPv4Fields :: "string \<Rightarrow> string + byte list" where
  "parseIPv4Fields s = ipv4_loop None 0 0 [] s"

definition parseIPv4 :: "string \<Rightarrow> netip_error + Addr" where
  "parseIPv4 s = (case parseIPv4Fields s of
     Inl msg \<Rightarrow> Inl (parseAddrError s msg) | Inr flds \<Rightarrow> Inr (AddrFrom4 flds))"

subsection \<open>IPv6\<close>

definition hex_digit :: "char \<Rightarrow> nat option" where
  "hex_digit c = (let n = of_char c :: nat in
     if 48 \<le> n \<and> n \<le> 57 then Some (n - 48)
     else if 97 \<le> n \<and> n \<le> 102 then Some (n - 87)
     else if 65 \<le> n \<and> n \<le> 70 then Some (n - 55)
     else None)"

text \<open>The number of digits, the value and the rest of the text.\<close>

fun hex_loop :: "nat \<Rightarrow> nat \<Rightarrow> string \<Rightarrow> string + nat \<times> nat \<times> string" where
  "hex_loop off acc [] = Inr (off, acc, [])"
| "hex_loop off acc (c # s) = (case hex_digit c of
     None \<Rightarrow> Inr (off, acc, c # s)
   | Some d \<Rightarrow>
       if off > 3 then Inl ''each group must have 4 or less digits''
       else if 16 * acc + d > 65535 then Inl ''IPv6 field has value >=2^16''
       else hex_loop (Suc off) (16 * acc + d) s)"

definition u16_bytes :: "nat \<Rightarrow> byte list" where
  "u16_bytes acc = [word_of_nat (acc div 256), word_of_nat acc]"

text \<open>The bytes so far, the place of the ellipsis and the rest; the loop ends at 16 bytes.\<close>

function ipv6_loop ::
  "nat option \<Rightarrow> byte list \<Rightarrow> string \<Rightarrow> string + nat option \<times> byte list \<times> string" where
  "ipv6_loop ellipsis ip s =
     (if 16 \<le> length ip then Inr (ellipsis, ip, s)
      else case hex_loop 0 0 s of Inl msg \<Rightarrow> Inl msg | Inr (off, acc, r) \<Rightarrow>
        if off = 0 then Inl ''each colon-separated field must have at least one digit''
        else if r \<noteq> [] \<and> hd r = CHR ''.'' then
          if ellipsis = None \<and> length ip \<noteq> 12 then
            Inl ''embedded IPv4 address must replace the final 2 flds of the address''
          else if length ip + 4 > 16 then
            Inl ''too many hex flds to fit an embedded IPv4 at the end of the address''
          else (case parseIPv4Fields s of
            Inl msg \<Rightarrow> Inl msg | Inr flds \<Rightarrow> Inr (ellipsis, ip @ flds, []))
        else let ip = ip @ u16_bytes acc in
          case r of [] \<Rightarrow> Inr (ellipsis, ip, [])
          | c # s \<Rightarrow>
            if c \<noteq> CHR '':'' then Inl ''unexpected character, want colon''
            else if s = [] then Inl ''colon must be followed by more characters''
            else if hd s = CHR '':'' then
              if ellipsis \<noteq> None then Inl ''multiple :: in address''
              else if tl s = [] then Inr (Some (length ip), ip, [])
              else ipv6_loop (Some (length ip)) ip (tl s)
            else ipv6_loop ellipsis ip s)"
  by pat_completeness auto

termination ipv6_loop
  by (relation "measure (\<lambda>(ellipsis, ip, s). 16 - length ip)") (auto simp: u16_bytes_def)

declare ipv6_loop.simps [simp del]

definition ipv6_finish :: "string \<Rightarrow> nat option \<Rightarrow> byte list \<Rightarrow> string \<Rightarrow> string + Addr" where
  "ipv6_finish zone ellipsis ip s =
     (if s \<noteq> [] then Inl ''trailing garbage after address''
      else if length ip < 16 then (case ellipsis of
          None \<Rightarrow> Inl ''address string too short''
        | Some e \<Rightarrow> Inr (WithZone
            (AddrFrom16 (take e ip @ replicate (16 - length ip) 0 @ drop e ip)) zone))
      else if ellipsis \<noteq> None then Inl ''the :: must expand to at least one field of zeros''
      else Inr (WithZone (AddrFrom16 ip) zone))"

definition ipv6_addr :: "string \<Rightarrow> string \<Rightarrow> string + Addr" where
  "ipv6_addr zone s =
     (let leading = take 2 s = ''::''; s = (if leading then drop 2 s else s)
      in if leading \<and> s = [] then Inr (WithZone IPv6Unspecified zone)
         else case ipv6_loop (if leading then Some 0 else None) [] s of
           Inl msg \<Rightarrow> Inl msg
         | Inr (ellipsis, ip, r) \<Rightarrow> ipv6_finish zone ellipsis ip r)"

definition parseIPv6_msg :: "string \<Rightarrow> string + Addr" where
  "parseIPv6_msg s =
     (let addr = takeWhile (\<lambda>c. c \<noteq> CHR ''%'') s; zone = drop (Suc (length addr)) s
      in if addr \<noteq> s \<and> zone = [] then Inl ''zone must be a non-empty string''
         else ipv6_addr zone addr)"

definition parseIPv6 :: "string \<Rightarrow> netip_error + Addr" where
  "parseIPv6 s = (case parseIPv6_msg s of Inl msg \<Rightarrow> Inl (parseAddrError s msg) | Inr a \<Rightarrow> Inr a)"

subsection \<open>Addresses and prefixes\<close>

fun ParseAddr_loop :: "string \<Rightarrow> string \<Rightarrow> netip_error + Addr" where
  "ParseAddr_loop s [] = Inl (parseAddrError s ''unable to parse IP'')"
| "ParseAddr_loop s (c # cs) =
     (if c = CHR ''.'' then parseIPv4 s
      else if c = CHR '':'' then parseIPv6 s
      else if c = CHR ''%'' then Inl (parseAddrError s ''missing IPv6 address'')
      else ParseAddr_loop s cs)"

definition ParseAddr :: "string \<Rightarrow> netip_error + Addr" where
  "ParseAddr s = ParseAddr_loop s s"

text \<open>\<open>strconv.Atoi\<close> on a text without a sign.\<close>

definition Atoi :: "string \<Rightarrow> nat option" where
  "Atoi s = (if s \<noteq> [] \<and> list_all is_digit s \<and> dec_val s < 2 ^ 63 then Some (dec_val s) else None)"

text \<open>What follows the last slash, with what is before it.\<close>

definition cut_last :: "char \<Rightarrow> string \<Rightarrow> (string \<times> string) option" where
  "cut_last d s =
     (if d \<in> set s then
        let after = rev (takeWhile (\<lambda>c. c \<noteq> d) (rev s))
        in Some (take (length s - Suc (length after)) s, after)
      else None)"

definition ParsePrefix :: "string \<Rightarrow> netip_error + Prefix" where
  "ParsePrefix s = (case cut_last (CHR ''/'') s of
     None \<Rightarrow> Inl (parsePrefixError s (''no '' @ [CHR 0x27, CHR 0x2F, CHR 0x27]))
   | Some (addr, bitsStr) \<Rightarrow> (case ParseAddr addr of
       Inl err \<Rightarrow> Inl (prefixAddrError s err)
     | Inr ip \<Rightarrow>
         if Is6 ip \<and> z ip \<noteq> Z6 [] then
           Inl (parsePrefixError s ''IPv6 zones cannot be present in a prefix'')
         else if length bitsStr > 1 \<and> \<not> (is_digit (hd bitsStr) \<and> hd bitsStr \<noteq> CHR ''0'') then
           Inl (prefixBitsError s bitsStr)
         else (case Atoi bitsStr of
             None \<Rightarrow> Inl (prefixBitsError s bitsStr)
           | Some bits \<Rightarrow>
               if bits > (if Is6 ip then 128 else 32) then
                 Inl (parsePrefixError s ''prefix length out of range'')
               else Inr (PrefixFrom ip (int bits)))))"


subsection \<open>Digits\<close>

lemma digit_cases: "d < 16 \<Longrightarrow> d \<in> {0, 1, 2, 3, 4, 5, 6, 7, 8, 9, 10, 11, 12, 13, 14, 15 :: nat}"
  by simp presburger

lemma is_digit_digit [simp]: "d < 10 \<Longrightarrow> is_digit (digit d)"
  using digit_cases [of d] by (auto simp: is_digit_def digit_def)

lemma hex_digit_digit [simp]: "d < 16 \<Longrightarrow> hex_digit (digit d) = Some d"
  using digit_cases [of d] by (auto simp: hex_digit_def digit_def)

lemma digit_zero_iff: "d < 10 \<Longrightarrow> digit d = CHR ''0'' \<longleftrightarrow> d = 0"
  using digit_cases [of d] by (auto simp: digit_def)

lemma not_is_digit [simp]:
  "\<not> is_digit (CHR ''.'')" "\<not> is_digit (CHR '':'')" "\<not> is_digit (CHR ''%'')"
  "\<not> is_digit (CHR 0x2F)" "\<not> is_digit (CHR 0x0A)" "\<not> is_digit (CHR 0x0D)" "\<not> is_digit (CHR ''#'')"
  by (simp_all add: is_digit_def)

lemma hex_digit_None [simp]:
  "hex_digit (CHR ''.'') = None" "hex_digit (CHR '':'') = None" "hex_digit (CHR ''%'') = None"
  "hex_digit (CHR 0x2F) = None" "hex_digit (CHR 0x0A) = None" "hex_digit (CHR 0x0D) = None"
  "hex_digit (CHR ''#'') = None"
  by (simp_all add: hex_digit_def)

lemma itoa_digits: "c \<in> set (itoa n) \<Longrightarrow> is_digit c"
proof (induction n rule: itoa.induct)
  case (1 n)
  then show ?case by (cases "n < 10") (auto simp: itoa.simps [of n])
qed

lemma hd_itoa: "0 < n \<Longrightarrow> hd (itoa n) \<noteq> CHR ''0''"
proof (induction n rule: itoa.induct)
  case (1 n)
  then show ?case by (cases "n < 10") (auto simp: itoa.simps [of n] digit_zero_iff)
qed

lemma Atoi_itoa: "n < 2 ^ 63 \<Longrightarrow> Atoi (itoa n) = Some n"
  by (simp add: Atoi_def list_all_iff itoa_digits)

lemma hex_text_nonempty [simp]: "hex_text n \<noteq> []"
  by (simp add: hex_text.simps [of n])

lemma hex_text_digits: "c \<in> set (hex_text n) \<Longrightarrow> hex_digit c \<noteq> None"
proof (induction n rule: hex_text.induct)
  case (1 n)
  then show ?case by (cases "n < 16") (auto simp: hex_text.simps [of n])
qed

lemma length_hex_text: "n < 16 ^ Suc k \<Longrightarrow> length (hex_text n) \<le> Suc k"
proof (induction k arbitrary: n)
  case 0
  then show ?case by (simp add: hex_text.simps [of n])
next
  case (Suc k)
  then show ?case by (cases "n < 16") (simp_all add: hex_text.simps [of n] div_less_iff_less_mult mult.commute)
qed

lemma hex_loop_digits:
  assumes "n < 16 ^ k" and "off + k \<le> 4" and "0 < k" and "off + length (hex_text n) \<le> 4"
    and "acc = 0"
  shows "hex_loop off acc (hex_text n @ r) = hex_loop (off + length (hex_text n)) n r"
  using assms
proof (induction n arbitrary: k r rule: hex_text.induct)
  case (1 n)
  show ?case
  proof (cases "n < 16")
    case True
    with 1 show ?thesis by (simp add: hex_text.simps [of n])
  next
    case False
    from "1.prems"(3) obtain j where k: "k = Suc j" by (cases k) auto
    with "1.prems"(1) False have j: "k = Suc j" "0 < j" by (cases j; simp)+
    have "n < 16 ^ 4" using "1.prems" power_increasing [of k 4 "16 :: nat"] by simp
    moreover have "16 * (n div 16) + n mod 16 = n" by simp
    moreover have "hex_loop off acc (hex_text (n div 16) @ digit (n mod 16) # r) =
        hex_loop (off + length (hex_text (n div 16))) (n div 16) (digit (n mod 16) # r)"
      using "1.prems" False j
      by (intro "1.IH" [where k = j]) (simp_all add: hex_text.simps [of n] div_less_iff_less_mult)
    ultimately show ?thesis using False "1.prems" by (simp add: hex_text.simps [of n])
  qed
qed

lemma hex_loop_group:
  assumes "n < 65536" and "r = [] \<or> hex_digit (hd r) = None"
  shows "hex_loop 0 0 (hex_text n @ r) = Inr (length (hex_text n), n, r)"
proof -
  have "length (hex_text n) \<le> 4" using length_hex_text [of n 3] assms(1) by simp
  with assms(1) have "hex_loop 0 0 (hex_text n @ r) = hex_loop (length (hex_text n)) n r"
    using hex_loop_digits [of n 4 0 0 r] by simp
  with assms(2) show ?thesis by (cases r) auto
qed

subsection \<open>IPv4 addresses\<close>

lemma ipv4_loop_octet:
  "b < 256 \<Longrightarrow> ipv4_loop prev 0 0 flds (itoa b @ s) =
    ipv4_loop (Some (last (itoa b))) b (length (itoa b)) flds s"
proof (induction b arbitrary: s rule: itoa.induct)
  case (1 n)
  have "10 * (n div 10) + n mod 10 = n" by simp
  with 1 show ?case
    by (cases "n < 10") (auto simp: itoa.simps [of n] div_eq_0_iff mult.commute)
qed

lemma last_itoa: "last (itoa n) \<noteq> CHR ''.''"
  by (metis itoa_digits itoa_nonempty last_in_set not_is_digit(1))

lemma parseIPv4Fields_text:
  assumes "a < 256" "b < 256" "c < 256" "d < 256"
  shows "parseIPv4Fields (join ''.'' [itoa a, itoa b, itoa c, itoa d]) =
    Inr [word_of_nat a, word_of_nat b, word_of_nat c, word_of_nat d]"
  using assms ipv4_loop_octet [of d _ _ "[]"]
  by (simp add: parseIPv4Fields_def ipv4_loop_octet last_itoa)

lemma byte_and_ff [simp]: "ucast (w AND 0xff) = (ucast w :: byte)" for w :: "64 word"
proof -
  have "w AND 0xff = take_bit 8 w" by (simp add: take_bit_eq_mask mask_eq_exp_minus_1)
  then show ?thesis by (simp add: unsigned_take_bit_eq take_bit_word_eq_self)
qed

lemma addr4_bytes_explicit:
  "addr4_bytes ip = [unat (drop_bit 24 (lo ip) AND 0xff), unat (drop_bit 16 (lo ip) AND 0xff),
    unat (drop_bit 8 (lo ip) AND 0xff), unat (lo ip AND 0xff)]"
  by (simp add: addr4_bytes_def upt_rec [of _ 4] upt_rec [of _ "Suc _"] numeral_eq_Suc)

lemma octet_bound: "unat (w AND 0xff) < 256" for w :: "64 word"
proof -
  have "w AND 0xff \<le> 0xff" by (rule word_and_le1)
  then have "unat (w AND 0xff) \<le> unat (0xff :: 64 word)" by (simp only: word_le_nat_alt)
  then show ?thesis by simp
qed

lemma AddrFrom4_bytes:
  assumes "z ip = Z4" and "wf_addr ip"
  shows "AddrFrom4 (map word_of_nat (addr4_bytes ip)) = ip"
proof -
  have top: "drop_bit 32 (lo ip) = 0xffff" "hi ip = 0"
    using assms by (simp_all add: wf_addr_def mapped_bits_def)
  have bytes: "map word_of_nat (addr4_bytes ip) = map (\<lambda>i. ucast (drop_bit (24 - 8 * i) (lo ip)) :: byte) [0..<4]"
    by (simp add: addr4_bytes_def)
  have low: "bit (of_be (map word_of_nat (addr4_bytes ip))) n \<longleftrightarrow> n < 32 \<and> bit (lo ip) n" for n
  proof (cases "n < 32")
    case True
    then have d: "n div 8 < 4" by simp
    then have "[0..<4] ! (3 - n div 8) = 3 - n div 8" and "24 - 8 * (3 - n div 8) = 8 * (n div 8)"
      by simp_all
    with d have "rev (map word_of_nat (addr4_bytes ip)) ! (n div 8) =
        (ucast (drop_bit (8 * (n div 8)) (lo ip)) :: byte)"
      by (simp add: bytes rev_nth)
    moreover have "8 * (n div 8) + n mod 8 = n" by simp
    ultimately show ?thesis using True by (simp add: bit_of_be bit_simps bytes)
  qed (simp add: bit_of_be bytes)
  have high: "bit (0xffff00000000 :: 64 word) n \<longleftrightarrow> 32 \<le> n \<and> bit (lo ip) n" if "n < 64" for n
  proof -
    have "(0xffff00000000 :: 64 word) = push_bit 32 (drop_bit 32 (lo ip))"
      by (simp add: top(1) push_bit_eq_mult)
    then have "bit (0xffff00000000 :: 64 word) n = bit (push_bit 32 (drop_bit 32 (lo ip))) n"
      by (simp only:)
    with that show ?thesis by (auto simp: bit_simps simp del: bit_numeral_word_iff)
  qed
  have "0xffff00000000 OR of_be (map word_of_nat (addr4_bytes ip)) = lo ip"
  proof (rule bit_word_eqI)
    fix n assume n: "n < LENGTH(64)"
    then have "n < 64" by simp
    from low [of n] high [OF this] show
      "bit (0xffff00000000 OR of_be (map word_of_nat (addr4_bytes ip))) n = bit (lo ip) n"
      unfolding bit_or_iff by linarith
  qed
  with assms top(2) show ?thesis by (simp add: AddrFrom4_def addr4_bytes_explicit)
qed

lemma parseIPv4Fields_addr4:
  "parseIPv4Fields (addr4_text ip) = Inr (map word_of_nat (addr4_bytes ip))"
  by (simp add: addr4_text_def addr4_bytes_explicit parseIPv4Fields_text octet_bound del: join.simps)

subsection \<open>IPv6 addresses\<close>

abbreviation groups_join :: "nat list \<Rightarrow> string" where
  "groups_join gs \<equiv> join '':'' (map hex_text gs)"

abbreviation groups_bytes :: "nat list \<Rightarrow> byte list" where
  "groups_bytes gs \<equiv> concat (map u16_bytes gs)"

lemma length_u16_bytes [simp]: "length (u16_bytes g) = 2"
  by (simp add: u16_bytes_def)

lemma length_groups_bytes [simp]: "length (groups_bytes gs) = 2 * length gs"
  by (induction gs) simp_all

lemma groups_bytes_zero [simp]: "concat (replicate n (u16_bytes 0)) = replicate (2 * n) 0"
  by (induction n) (simp_all add: u16_bytes_def)

lemma u16_bytes_word:
  "u16_bytes (unat (w AND 0xffff)) = [ucast (drop_bit 8 w), ucast w]" for w :: "64 word"
proof -
  have m: "w AND 0xffff = take_bit 16 w" by (simp add: take_bit_eq_mask mask_eq_exp_minus_1)
  have "unat (take_bit 16 w) div 256 = unat (drop_bit 8 (take_bit 16 w))"
    by (simp add: drop_bit_eq_div unat_div)
  moreover have "ucast (drop_bit 8 (take_bit 16 w)) = (ucast (drop_bit 8 w) :: byte)"
    and "ucast (take_bit 16 w) = (ucast w :: byte)"
    by (rule bit_word_eqI; simp add: bit_simps)+
  ultimately show ?thesis by (simp add: u16_bytes_def m)
qed

lemma upt_8: "[0..<8] = [0, 1, 2, 3, 4, 5, 6, 7 :: nat]"
  by code_simp

lemma groups_bytes_As16: "groups_bytes (v6groups ip) = As16 ip"
  by (simp add: v6groups_def v6u16_def u16_bytes_word As16_def be64_def upt_8)

lemma groups_bound: "g \<in> set (v6groups ip) \<Longrightarrow> g < 65536"
proof -
  have "unat (w AND 0xffff) < 65536" for w :: "64 word"
  proof -
    have "w AND 0xffff \<le> 0xffff" by (rule word_and_le1)
    then have "unat (w AND 0xffff) \<le> unat (0xffff :: 64 word)" by (simp only: word_le_nat_alt)
    then show ?thesis by simp
  qed
  then show "g \<in> set (v6groups ip) \<Longrightarrow> g < 65536" by (auto simp: v6groups_def v6u16_def)
qed

lemma length_v6groups [simp]: "length (v6groups ip) = 8"
  by (simp add: v6groups_def)

lemma groups_join_Cons: "gs \<noteq> [] \<Longrightarrow> groups_join (g # gs) = hex_text g @ '':'' @ groups_join gs"
  by (cases gs) simp_all

lemma hd_groups_join: "gs \<noteq> [] \<Longrightarrow> hex_digit (hd (groups_join gs @ t)) \<noteq> None"
proof (cases gs)
  case (Cons g gs')
  have "hex_digit (hd (hex_text g)) \<noteq> None" by (metis hd_in_set hex_text_digits hex_text_nonempty)
  with Cons show ?thesis by (cases gs') simp_all
qed simp

lemma groups_join_nonempty [simp]: "groups_join gs = [] \<longleftrightarrow> gs = []"
  by (cases gs rule: list.exhaust; cases "tl gs") auto

lemma hd_colon: "hex_digit (hd s) \<noteq> None \<Longrightarrow> hd s \<noteq> CHR '':'' \<and> hd s \<noteq> CHR ''.''"
  by auto

lemma take2_colon: "hd s \<noteq> CHR '':'' \<Longrightarrow> take 2 s \<noteq> ''::''"
  by (cases s) auto

lemma ipv6_groups:
  assumes "gs \<noteq> []" and "\<And>g. g \<in> set gs \<Longrightarrow> g < 65536" and "length ip + 2 * length gs \<le> 16"
  shows "ipv6_loop ell ip (groups_join gs) = Inr (ell, ip @ groups_bytes gs, [])"
  using assms
proof (induction gs arbitrary: ip)
  case (Cons g gs)
  note eq = ipv6_loop.simps [of ell ip "groups_join (g # gs)"]
  have g: "g < 65536" and ip: "length ip < 16" using Cons.prems by simp_all
  show ?case
  proof (cases "gs = []")
    case True
    with g ip show ?thesis using hex_loop_group [of g "[]"] ipv6_loop.simps [of ell ip "hex_text g"]
      by simp
  next
    case False
    let ?s = "groups_join gs"
    have r: "hex_loop 0 0 (groups_join (g # gs)) = Inr (length (hex_text g), g, CHR '':'' # ?s)"
      unfolding groups_join_Cons [OF False] using g hex_loop_group [of g "CHR '':'' # ?s"] by simp
    have "ipv6_loop ell ip (groups_join (g # gs)) = ipv6_loop ell (ip @ u16_bytes g) ?s"
      using eq r ip False hd_colon [OF hd_groups_join [of gs "[]"]] by simp
    with Cons.IH [of "ip @ u16_bytes g"] Cons.prems False show ?thesis by simp
  qed
qed simp

lemma ipv6_groups_ellipsis:
  assumes "gs \<noteq> []" and "\<And>g. g \<in> set gs \<Longrightarrow> g < 65536" and "length ip + 2 * length gs \<le> 16"
  shows "ipv6_loop None ip (groups_join gs @ ''::'' @ s) =
    (let ip = ip @ groups_bytes gs in
      if s = [] then Inr (Some (length ip), ip, []) else ipv6_loop (Some (length ip)) ip s)"
  using assms
proof (induction gs arbitrary: ip)
  case (Cons g gs)
  note eq = ipv6_loop.simps [of None ip "groups_join (g # gs) @ ''::'' @ s"]
  have g: "g < 65536" and ip: "length ip < 16" using Cons.prems by simp_all
  show ?case
  proof (cases "gs = []")
    case True
    with g ip show ?thesis using hex_loop_group [of g "''::'' @ s"]
        ipv6_loop.simps [of None ip "hex_text g @ ''::'' @ s"]
      by (simp add: Let_def)
  next
    case False
    let ?s = "groups_join gs @ ''::'' @ s"
    have r: "hex_loop 0 0 (groups_join (g # gs) @ ''::'' @ s) =
        Inr (length (hex_text g), g, CHR '':'' # ?s)"
      unfolding groups_join_Cons [OF False] using g hex_loop_group [of g "CHR '':'' # ?s"] by simp
    have "ipv6_loop None ip (groups_join (g # gs) @ ''::'' @ s) =
        ipv6_loop None (ip @ u16_bytes g) ?s"
      using eq r ip False hd_colon [OF hd_groups_join [of gs "''::'' @ s"]] by simp
    with Cons.IH [of "ip @ u16_bytes g"] Cons.prems False show ?thesis by simp
  qed
qed simp

lemma zero_run_zero: "i \<le> j \<Longrightarrow> j < i + zero_run gs i \<Longrightarrow> j < length gs \<and> gs ! j = 0"
proof -
  assume j: "i \<le> j" "j < i + zero_run gs i"
  then have k: "j - i < length (takeWhile (\<lambda>g. g = 0) (drop i gs))" by (simp add: zero_run_def)
  then have "drop i gs ! (j - i) = 0"
    by (metis (full_types) nth_mem set_takeWhileD takeWhile_nth)
  moreover have "j - i < length (drop i gs)"
    using k length_takeWhile_le [of "\<lambda>g. g = 0" "drop i gs"] by linarith
  ultimately show ?thesis using j(1) by auto
qed

lemma foldl_invariant: "(\<And>x i. P x \<Longrightarrow> P (f x i)) \<Longrightarrow> P x \<Longrightarrow> P (foldl f x is)"
  by (induction "is" arbitrary: x) simp_all

lemma best_run_zero:
  assumes "best_run gs = Some (a, b)"
  shows "a + 2 \<le> b" and "a \<le> j \<Longrightarrow> j < b \<Longrightarrow> j < length gs \<and> gs ! j = 0"
proof -
  define P where "P r \<longleftrightarrow> (case r of None \<Rightarrow> True
    | Some (a, b) \<Rightarrow> b = a + zero_run gs a \<and> 2 \<le> zero_run gs a)" for r
  have "P (best_run gs)" unfolding best_run_def
    by (rule foldl_invariant) (simp_all add: P_def Let_def)
  with assms have "b = a + zero_run gs a" "2 \<le> zero_run gs a" by (simp_all add: P_def)
  then show "a + 2 \<le> b" and "a \<le> j \<Longrightarrow> j < b \<Longrightarrow> j < length gs \<and> gs ! j = 0"
    using zero_run_zero [of a j gs] by auto
qed

lemma best_run_split:
  assumes "best_run gs = Some (a, b)"
  shows "gs = take a gs @ replicate (b - a) 0 @ drop b gs" and "b \<le> length gs"
proof -
  note z = best_run_zero [OF assms]
  show b: "b \<le> length gs" using z(1) z(2) [of "b - 1"] by (cases b) auto
  have "take (b - a) (drop a gs) = replicate (b - a) 0"
    using b z by (intro nth_equalityI) auto
  moreover have "drop a gs = take (b - a) (drop a gs) @ drop b gs"
    using z(1) append_take_drop_id [of "b - a" "drop a gs"] by simp
  ultimately show "gs = take a gs @ replicate (b - a) 0 @ drop b gs"
    by (metis append_take_drop_id)
qed

lemma AddrFrom16_zero: "AddrFrom16 (replicate 16 0) = IPv6Unspecified"
  by (simp add: AddrFrom16_def IPv6Unspecified_def of_be_def numeral_eq_Suc)

lemma ipv6_addr_groups:
  assumes "length gs = 8" and "\<And>g. g \<in> set gs \<Longrightarrow> g < 65536"
  shows "ipv6_addr zone (groups_text gs) = Inr (WithZone (AddrFrom16 (groups_bytes gs)) zone)"
proof (cases "best_run gs")
  case None
  then have t: "groups_text gs = groups_join gs" by (simp add: groups_text_def)
  have ne: "gs \<noteq> []" using assms by auto
  have "take 2 (groups_join gs) \<noteq> ''::''"
    using hd_colon [OF hd_groups_join [OF ne, of "[]"]] by (intro take2_colon) simp
  moreover have "ipv6_loop None [] (groups_join gs) = Inr (None, groups_bytes gs, [])"
    using ipv6_groups [OF ne assms(2), of "[]" None] assms(1) by simp
  ultimately show ?thesis using assms(1) by (simp add: t ipv6_addr_def ipv6_finish_def)
next
  case (Some r)
  then obtain a b where r: "best_run gs = Some (a, b)" by (metis surj_pair)
  note z = best_run_zero(1) [OF r] and split = best_run_split [OF r]
  let ?front = "take a gs" and ?tail = "drop b gs"
  have t: "groups_text gs = groups_join ?front @ ''::'' @ groups_join ?tail"
    by (simp add: groups_text_def r)
  have bytes: "groups_bytes gs = groups_bytes ?front @ replicate (2 * (b - a)) 0 @ groups_bytes ?tail"
    by (subst split(1)) simp
  have len: "length ?front = a" "length ?tail = 8 - b" using assms(1) split(2) z by simp_all
  have rear: "ipv6_loop (Some a2) ip (groups_join ?tail) = Inr (Some a2, ip @ groups_bytes ?tail, [])"
    if "?tail \<noteq> []" "length ip = 2 * a" for a2 ip
    using that assms len z by (intro ipv6_groups) (auto dest: in_set_dropD)
  show ?thesis
  proof (cases "a = 0")
    case True
    show ?thesis
    proof (cases "?tail = []")
      case True
      with \<open>a = 0\<close> len assms(1) split(2) bytes have "groups_bytes gs = replicate 16 0" by simp
      with \<open>a = 0\<close> True show ?thesis by (simp add: t ipv6_addr_def AddrFrom16_zero)
    next
      case False
      with \<open>a = 0\<close> len z rear [of "[]" 0] show ?thesis
        by (simp add: t ipv6_addr_def ipv6_finish_def bytes diff_mult_distrib2)
    qed
  next
    case False
    then have ne: "?front \<noteq> []" using assms(1) by auto
    have "take 2 (groups_join ?front @ ''::'' @ groups_join ?tail) \<noteq> ''::''"
      using hd_colon [OF hd_groups_join [OF ne]] by (intro take2_colon) simp
    moreover have "ipv6_loop None [] (groups_join ?front @ ''::'' @ groups_join ?tail) =
        Inr (Some (2 * a), groups_bytes ?front @ groups_bytes ?tail, [])"
      using ipv6_groups_ellipsis [OF ne, of "[]" "groups_join ?tail"] rear [of "groups_bytes ?front" "2 * a"]
        assms len z split(2)
      by (cases "?tail = []") (auto simp: Let_def dest: in_set_takeD)
    moreover have "16 - (2 * a + (16 - 2 * b)) = 2 * b - 2 * a" "2 * a + (16 - 2 * b) < 16"
      using z split(2) assms(1) by auto
    ultimately show ?thesis using len z split(2)
      by (simp add: t ipv6_addr_def ipv6_finish_def bytes diff_mult_distrib2)
  qed
qed

subsection \<open>IPv4-mapped addresses\<close>

lemma hex_digit_is_digit: "is_digit c \<Longrightarrow> \<exists>d < 16. hex_digit c = Some d"
  by (auto simp: is_digit_def hex_digit_def)

lemma hex_loop_short:
  assumes "\<And>c. c \<in> set ds \<Longrightarrow> is_digit c" and "off + length ds \<le> 4" and "acc < 16 ^ off"
    and "r \<noteq> []" and "hex_digit (hd r) = None"
  shows "\<exists>acc'. hex_loop off acc (ds @ r) = Inr (off + length ds, acc', r)"
  using assms
proof (induction ds arbitrary: off acc)
  case Nil
  then show ?case by (cases r) auto
next
  case (Cons c ds)
  obtain d where d: "d < 16" "hex_digit c = Some d" using hex_digit_is_digit Cons.prems(1) by auto
  have "16 * acc + d < 16 ^ Suc off" using Cons.prems(3) d(1) by simp
  moreover have "(16 :: nat) ^ Suc off \<le> 16 ^ 4" using Cons.prems(2) by (intro power_increasing) auto
  ultimately have "16 * acc + d \<le> 65535" "16 * acc + d < 16 ^ Suc off" by simp_all
  with Cons.IH [of "Suc off" "16 * acc + d"] Cons.prems d show ?case by auto
qed

lemma length_itoa: "n < 10 ^ Suc k \<Longrightarrow> length (itoa n) \<le> Suc k"
proof (induction k arbitrary: n)
  case 0
  then show ?case by (simp add: itoa.simps [of n])
next
  case (Suc k)
  then show ?case by (cases "n < 10") (simp_all add: itoa.simps [of n] div_less_iff_less_mult mult.commute)
qed

lemma be64_mapped:
  assumes "drop_bit 32 w = 0xffff"
  shows "be64 w = [0, 0, 0xff, 0xff, ucast (drop_bit 24 w), ucast (drop_bit 16 w),
    ucast (drop_bit 8 w), ucast w]"
proof -
  have "drop_bit (32 + k) w = drop_bit k 0xffff" for k
    using assms by (metis add.commute drop_bit_drop_bit)
  from this [of 24] this [of 16] this [of 8] this [of 0] show ?thesis
    by (simp add: be64_def upt_8)
qed

lemma As16_mapped:
  assumes "mapped_bits ip"
  shows "As16 ip = replicate 10 0 @ [0xff, 0xff] @ map word_of_nat (addr4_bytes ip)"
proof -
  have "be64 0 = replicate 8 0" by (simp add: be64_def upt_8 numeral_eq_Suc)
  with assms show ?thesis
    by (simp add: As16_def mapped_bits_def be64_mapped addr4_bytes_explicit numeral_eq_Suc)
qed

lemma addr4_text_split: "\<exists>a r. a < 256 \<and> addr4_text ip = itoa a @ CHR ''.'' # r"
  by (auto simp: addr4_text_def addr4_bytes_explicit intro: octet_bound)

lemma u16_ffff: "u16_bytes 65535 = [0xff, 0xff]"
  by (simp add: u16_bytes_def word_unat_eq_iff)

lemma ipv6_addr_mapped:
  assumes "mapped_bits ip"
  shows "ipv6_addr zone (''::ffff:'' @ addr4_text ip) = Inr (WithZone (AddrFrom16 (As16 ip)) zone)"
proof -
  obtain a r where a: "a < 256" "addr4_text ip = itoa a @ CHR ''.'' # r"
    using addr4_text_split by blast
  have "hd (itoa a) \<noteq> CHR '':''"
    by (metis hd_in_set itoa_digits itoa_nonempty not_is_digit(2))
  with a have colon: "addr4_text ip \<noteq> []" "hd (addr4_text ip) \<noteq> CHR '':''" by simp_all
  have "hex_loop 0 0 (''ffff:'' @ addr4_text ip) = Inr (4, 65535, CHR '':'' # addr4_text ip)"
    by (simp add: hex_digit_def)
  with colon have one: "ipv6_loop (Some 0) [] (''ffff:'' @ addr4_text ip) =
      ipv6_loop (Some 0) [0xff, 0xff] (addr4_text ip)"
    using ipv6_loop.simps [of "Some 0" "[]" "''ffff:'' @ addr4_text ip"] by (simp add: u16_ffff)
  have "length (itoa a) \<le> 3" using length_itoa [of a 2] a(1) by simp
  then obtain acc where "hex_loop 0 0 (addr4_text ip) = Inr (length (itoa a), acc, CHR ''.'' # r)"
    using hex_loop_short [of "itoa a" 0 0 "CHR ''.'' # r"] itoa_digits a(2) by auto
  then have two: "ipv6_loop (Some 0) [0xff, 0xff] (addr4_text ip) =
      Inr (Some 0, [0xff, 0xff] @ map word_of_nat (addr4_bytes ip), [])"
    using ipv6_loop.simps [of "Some 0" "[0xff, 0xff]" "addr4_text ip"] parseIPv4Fields_addr4 [of ip]
    by simp
  from one two show ?thesis
    by (simp add: ipv6_addr_def ipv6_finish_def As16_mapped [OF assms] addr4_bytes_explicit)
qed

subsection \<open>Reading back addresses\<close>

lemma groups_text_chars: "c \<in> set (groups_text gs) \<Longrightarrow> c = CHR '':'' \<or> hex_digit c \<noteq> None"
proof -
  have "c \<in> set (groups_join gs) \<Longrightarrow> c = CHR '':'' \<or> hex_digit c \<noteq> None" for gs
  proof (induction gs)
    case (Cons g gs)
    then show ?case using hex_text_digits [of c g] groups_join_Cons [of gs g]
      by (cases "gs = []") auto
  qed simp
  then show "c \<in> set (groups_text gs) \<Longrightarrow> c = CHR '':'' \<or> hex_digit c \<noteq> None"
    by (auto simp: groups_text_def split: option.splits)
qed

lemma groups_text_colon: "2 \<le> length gs \<Longrightarrow> CHR '':'' \<in> set (groups_text gs)"
  by (cases gs rule: remdups_adj.cases)
    (auto simp: groups_text_def groups_join_Cons split: option.splits)

lemma ParseAddr_loop_skip:
  "\<forall>c\<in>set p. c \<noteq> CHR ''.'' \<and> c \<noteq> CHR '':'' \<and> c \<noteq> CHR ''%'' \<Longrightarrow>
   ParseAddr_loop s (p @ r) = ParseAddr_loop s r"
  by (induction p) auto

lemma ParseAddr_v6:
  assumes "CHR '':'' \<in> set t" and "\<And>c. c \<in> set t \<Longrightarrow> c = CHR '':'' \<or> hex_digit c \<noteq> None"
  shows "ParseAddr (t @ r) = parseIPv6 (t @ r)"
proof -
  obtain p q where t: "t = p @ CHR '':'' # q" "CHR '':'' \<notin> set p"
    using assms(1) by (metis split_list_first)
  then have "\<forall>c\<in>set p. c \<noteq> CHR ''.'' \<and> c \<noteq> CHR '':'' \<and> c \<noteq> CHR ''%''" using assms(2) by force
  then show ?thesis using ParseAddr_loop_skip [of p] by (simp add: ParseAddr_def t(1))
qed

lemma ParseAddr_v4: "ParseAddr (addr4_text ip) = parseIPv4 (addr4_text ip)"
proof -
  obtain a r where a: "addr4_text ip = itoa a @ CHR ''.'' # r" using addr4_text_split by blast
  have "\<forall>c\<in>set (itoa a). c \<noteq> CHR ''.'' \<and> c \<noteq> CHR '':'' \<and> c \<noteq> CHR ''%''"
    by (metis itoa_digits not_is_digit(1-3))
  then show ?thesis using ParseAddr_loop_skip [of "itoa a"] by (simp add: ParseAddr_def a)
qed

lemma parseIPv6_zone:
  assumes "CHR ''%'' \<notin> set t" and "ipv6_addr (Zone ip) t = Inr a"
  shows "parseIPv6 (t @ zone_text ip) = Inr a"
proof -
  have "takeWhile (\<lambda>c. c \<noteq> CHR ''%'') (t @ zone_text ip) = t"
    using assms(1) by (auto simp: zone_text_def takeWhile_append intro: takeWhile_eq_all_conv [THEN iffD2])
  then show ?thesis using assms(2)
    by (auto simp: parseIPv6_def parseIPv6_msg_def Let_def zone_text_def)
qed

lemma addr4_text_chars: "c \<in> set (addr4_text ip) \<Longrightarrow> c = CHR ''.'' \<or> is_digit c"
  using itoa_digits by (auto simp: addr4_text_def addr4_bytes_explicit)

lemma ParseAddr_text:
  assumes "wf_addr ip" and "z ip \<noteq> Z0"
  shows "ParseAddr (Addr_String ip) = Inr ip"
proof (cases "z ip")
  case Z4
  with assms show ?thesis
    by (simp add: Addr_String_def ParseAddr_v4 parseIPv4_def parseIPv4Fields_addr4 AddrFrom4_bytes)
next
  case (Z6 zn)
  then have zn: "Zone ip = zn" "WithZone (AddrFrom16 (As16 ip)) zn = ip"
    by (simp_all add: Zone_def As16_AddrFrom16 WithZone_def Is6_def)
  show ?thesis
  proof (cases "Is4In6 ip")
    case True
    then have m: "mapped_bits ip" by (simp add: Is4In6_def)
    have t: "addr4_text (Unmap ip) = addr4_text ip"
      by (simp add: addr4_text_def addr4_bytes_explicit Unmap_def)
    have "CHR ''%'' \<notin> set (''::ffff:'' @ addr4_text ip)" using addr4_text_chars [of "CHR ''%''" ip] by auto
    from parseIPv6_zone [OF this ipv6_addr_mapped [OF m]] Z6 True zn show ?thesis
      by (simp add: Addr_String_def addr4In6_text_def t ParseAddr_def)
  next
    case False
    have "CHR ''%'' \<notin> set (groups_text (v6groups ip))" using groups_text_chars by fastforce
    moreover have "ipv6_addr zn (groups_text (v6groups ip)) = Inr ip"
      using ipv6_addr_groups [of "v6groups ip" zn] groups_bound zn by (simp add: groups_bytes_As16)
    ultimately have "parseIPv6 (addr6_text ip) = Inr ip" unfolding addr6_text_def
      by (intro parseIPv6_zone) (simp_all add: zn)
    moreover have "ParseAddr (addr6_text ip) = parseIPv6 (addr6_text ip)"
      unfolding addr6_text_def
      by (intro ParseAddr_v6 groups_text_colon groups_text_chars) simp_all
    ultimately show ?thesis using Z6 False by (simp add: Addr_String_def)
  qed
qed (use assms in simp)

subsection \<open>Reading back prefixes\<close>

text \<open>The prefixes the package can build.\<close>

definition wf_prefix :: "Prefix \<Rightarrow> bool" where
  "wf_prefix p \<longleftrightarrow> wf_addr (pf_ip p) \<and> Prefix_IsValid p \<and> p = PrefixFrom (pf_ip p) (Bits p)"

lemma if_nonzero: "(if b then x else 0) \<noteq> 0 \<Longrightarrow> b"
  by (cases b) simp_all

lemma z_withoutZone: "z (withoutZone ip) = Z6 zn \<Longrightarrow> zn = []"
  by (auto simp: withoutZone_def Is6_def split: if_splits)

lemma wf_prefixD:
  assumes "wf_prefix p"
  shows "z (pf_ip p) = Z4 \<and> 0 \<le> Bits p \<and> Bits p \<le> 32 \<or>
    z (pf_ip p) = Z6 [] \<and> 0 \<le> Bits p \<and> Bits p \<le> 128"
proof -
  have eq: "p = PrefixFrom (pf_ip p) (Bits p)" and valid: "Prefix_IsValid p"
    using assms unfolding wf_prefix_def by blast+
  have p: "pf_ip p = withoutZone (pf_ip p)" "bitsPlusOne p = (if z (pf_ip p) \<noteq> Z0 \<and> 0 \<le> Bits p \<and>
      Bits p \<le> BitLen (pf_ip p) then word_of_int (Bits p) + 1 else 0)"
    using arg_cong [OF eq, of pf_ip] arg_cong [OF eq, of bitsPlusOne]
    unfolding PrefixFrom_def Prefix.simps by this
  have "bitsPlusOne p \<noteq> 0" using valid by (auto simp: Prefix_IsValid_def)
  then have "z (pf_ip p) \<noteq> Z0 \<and> 0 \<le> Bits p \<and> Bits p \<le> BitLen (pf_ip p)"
    unfolding p(2) by (rule if_nonzero)
  moreover have "z (pf_ip p) = Z6 zn \<Longrightarrow> zn = []" for zn
    using p(1) z_withoutZone by metis
  ultimately show ?thesis by (cases "z (pf_ip p)") (auto simp: BitLen_def)
qed

lemma cut_last_append: "d \<notin> set b \<Longrightarrow> cut_last d (a @ d # b) = Some (a, b)"
proof -
  assume "d \<notin> set b"
  then have "takeWhile (\<lambda>c. c \<noteq> d) (rev b @ d # rev a) = rev b"
    by (subst takeWhile_append2) auto
  then show ?thesis by (simp add: cut_last_def)
qed

lemma ParsePrefix_parts:
  assumes "wf_prefix p"
  shows "ParsePrefix (Addr_String (pf_ip p) @ CHR 0x2F # itoa (nat (Bits p))) = Inr p"
proof -
  define n where "n = nat (Bits p)"
  note cases = wf_prefixD [OF assms]
  have slash: "CHR 0x2F \<notin> set (itoa n)" by (metis itoa_digits not_is_digit(4))
  have addr: "ParseAddr (Addr_String (pf_ip p)) = Inr (pf_ip p)"
    using assms cases by (intro ParseAddr_text) (auto simp: wf_prefix_def)
  have n: "int n = Bits p" "n \<le> 128" using cases by (auto simp: n_def)
  have atoi: "Atoi (itoa n) = Some n" using n(2) by (intro Atoi_itoa) simp
  have lead: "length (itoa n) > 1 \<longrightarrow> is_digit (hd (itoa n)) \<and> hd (itoa n) \<noteq> CHR ''0''"
  proof (cases "n = 0")
    case True
    then show ?thesis by (simp add: itoa.simps [of 0])
  next
    case False
    then show ?thesis using hd_itoa [of n] itoa_digits [of "hd (itoa n)" n] by simp
  qed
  have "Is6 (pf_ip p) \<longrightarrow> z (pf_ip p) = Z6 []" "n \<le> (if Is6 (pf_ip p) then 128 else 32)"
    using cases n by (auto simp: Is6_def)
  moreover have "PrefixFrom (pf_ip p) (Bits p) = p" using assms by (simp add: wf_prefix_def)
  ultimately show ?thesis using lead n(1)
    unfolding n_def [symmetric]
    by (simp add: ParsePrefix_def cut_last_append [OF slash] addr atoi)
qed

lemma Prefix_AppendTo_parts:
  assumes "wf_prefix p"
  shows "Prefix_AppendTo b p = b @ Addr_String (pf_ip p) @ CHR 0x2F # itoa (nat (Bits p))"
proof -
  have "p \<noteq> zero_prefix" "Prefix_IsValid p"
    using assms by (auto simp: wf_prefix_def Prefix_IsValid_def zero_prefix_def)
  with wf_prefixD [OF assms] show ?thesis
    by (auto simp: Prefix_AppendTo_def Addr_String_def Is4_def addr4In6_text_def zone_text_def
        Zone_def Is4In6_def Is6_def Unmap_def)
qed

lemma ParsePrefix_AppendTo: "wf_prefix p \<Longrightarrow> ParsePrefix (Prefix_AppendTo [] p) = Inr p"
  by (simp add: Prefix_AppendTo_parts ParsePrefix_parts)

lemma Prefix_AppendTo_chars:
  assumes "wf_prefix p" and "c \<in> set (Prefix_AppendTo [] p)"
  shows "c \<noteq> CHR 0x0A" and "c \<noteq> CHR 0x0D" and "c \<noteq> CHR ''#''"
proof -
  have f: "hex_digit (CHR ''f'') = Some 15" by (simp add: hex_digit_def)
  have "c = CHR 0x2F \<or> c = CHR '':'' \<or> c = CHR ''.'' \<or> is_digit c \<or> hex_digit c \<noteq> None"
    using assms(2) wf_prefixD [OF assms(1)] f
    by (auto simp: Prefix_AppendTo_parts [OF assms(1)] Addr_String_def addr4In6_text_def
        addr6_text_def zone_text_def Zone_def split: if_splits
        dest: itoa_digits addr4_text_chars groups_text_chars)
  then show "c \<noteq> CHR 0x0A" and "c \<noteq> CHR 0x0D" and "c \<noteq> CHR ''#''" by auto
qed

text \<open>Every prefix that is read is one the package can build.\<close>

lemma ParseAddr_wf: "ParseAddr s = Inr ip \<Longrightarrow> wf_addr ip \<and> z ip \<noteq> Z0"
proof -
  have built: "wf_addr (WithZone (AddrFrom16 b) zn)" "z (WithZone (AddrFrom16 b) zn) \<noteq> Z0"
    "wf_addr (WithZone IPv6Unspecified zn)" "z (WithZone IPv6Unspecified zn) \<noteq> Z0" for b zn
    by (simp_all add: wf_addr_WithZone) (simp_all add: WithZone_def AddrFrom16_def IPv6Unspecified_def)
  have v4: "parseIPv4 s = Inr ip \<Longrightarrow> wf_addr ip \<and> z ip \<noteq> Z0" for s
    by (auto simp: parseIPv4_def AddrFrom4_def wf_addr_simps(3) [unfolded AddrFrom4_def] split: sum.splits)
  have fin: "ipv6_finish zone ell b r = Inr ip \<Longrightarrow> wf_addr ip \<and> z ip \<noteq> Z0" for zone ell b r
    by (auto simp: ipv6_finish_def built split: if_splits option.splits)
  have "ipv6_addr zone s = Inr ip \<Longrightarrow> wf_addr ip \<and> z ip \<noteq> Z0" for zone s
    by (auto simp: ipv6_addr_def Let_def built split: sum.splits if_splits prod.splits dest: fin)
  then have v6: "parseIPv6 s = Inr ip \<Longrightarrow> wf_addr ip \<and> z ip \<noteq> Z0" for s
    by (auto simp: parseIPv6_def parseIPv6_msg_def Let_def split: sum.splits if_splits)
  have "ParseAddr_loop s t = Inr ip \<Longrightarrow> wf_addr ip \<and> z ip \<noteq> Z0" for t
    by (induction t) (auto split: if_splits dest: v4 v6)
  then show "ParseAddr s = Inr ip \<Longrightarrow> wf_addr ip \<and> z ip \<noteq> Z0" by (simp add: ParseAddr_def)
qed

lemma wf_prefix_PrefixFrom:
  assumes "wf_addr ip" and "0 \<le> n" and "z ip = Z4 \<and> n \<le> 32 \<or> z ip = Z6 [] \<and> n \<le> 128"
  shows "wf_prefix (PrefixFrom ip n)"
proof -
  have "z ip \<noteq> Z0" "n \<le> BitLen ip" using assms(3) by (auto simp: BitLen_def)
  note b = Bits_PrefixFrom [OF this(1) assms(2) this(2)]
  have "withoutZone ip = ip" using assms(3) by (auto simp: withoutZone_def Is6_def)
  then have "pf_ip (PrefixFrom ip n) = ip" by (simp add: PrefixFrom_def)
  with b assms(1) show ?thesis by (simp add: wf_prefix_def)
qed

lemma ParsePrefix_wf: "ParsePrefix s = Inr p \<Longrightarrow> wf_prefix p"
proof -
  assume p: "ParsePrefix s = Inr p"
  then obtain addr bitsStr ip n where "ParseAddr addr = Inr ip" "p = PrefixFrom ip (int n)"
      "\<not> (Is6 ip \<and> z ip \<noteq> Z6 [])" "n \<le> (if Is6 ip then 128 else 32)"
    by (auto simp: ParsePrefix_def not_less split: option.splits prod.splits sum.splits if_split_asm)
  with ParseAddr_wf [of addr ip] show "wf_prefix p"
    by (cases "z ip") (auto simp: Is6_def intro: wf_prefix_PrefixFrom)
qed

end
