(* ===== verification/Prefix_Text.thy ===== *)
theory Prefix_Text
  imports Netip_Parse
begin

text \<open>
  The package prefixset: three loaders of a list of prefixes from text and two writers. The sets
  themselves are types of other packages (bart.Lite, netipx.IPSet and netipds.PrefixSet with their
  builders); the zero value, the insertion and the result of each are arguments here.
\<close>

datatype load_error = ParseErr netip_error | SetErr string

text \<open>\<open>strings.Lines\<close>: every line with its line end.\<close>

lemma dropWhile_shorter: "dropWhile P s = c # r \<Longrightarrow> length r < length s"
  using length_dropWhile_le [of P s] by simp

function Lines :: "string \<Rightarrow> string list" where
  "Lines s = (if s = [] then [] else
     case dropWhile (\<lambda>c. c \<noteq> CHR 0x0A) s of
       [] \<Rightarrow> [s]
     | _ # rest \<Rightarrow> (takeWhile (\<lambda>c. c \<noteq> CHR 0x0A) s @ [CHR 0x0A]) # Lines rest)"
  by pat_completeness auto

termination Lines
  by (relation "measure length") (auto dest: dropWhile_shorter)

declare Lines.simps [simp del]

subsection \<open>bart.go\<close>

fun bartInsert_loop :: "('t \<Rightarrow> Prefix \<Rightarrow> 't) \<Rightarrow> string list \<Rightarrow> 't \<Rightarrow> 't \<times> load_error option" where
  "bartInsert_loop Insert [] s = (s, None)"
| "bartInsert_loop Insert (line # lines) s =
     (if line = [] \<or> hd line = CHR ''#'' then bartInsert_loop Insert lines s
      else let line = (if last line = CHR 0x0A then
          let line = butlast line
          in if line \<noteq> [] \<and> last line = CHR 0x0D then butlast line else line
        else line)
      in if line = [] then bartInsert_loop Insert lines s
      else case ParsePrefix line of
        Inl err \<Rightarrow> (s, Some (ParseErr err))
      | Inr prefix \<Rightarrow> bartInsert_loop Insert lines (Insert s prefix))"

definition bartInsertFromText :: "('t \<Rightarrow> Prefix \<Rightarrow> 't) \<Rightarrow> 't \<Rightarrow> string \<Rightarrow> 't \<times> load_error option" where
  "bartInsertFromText Insert s input = bartInsert_loop Insert (Lines input) s"

definition BARTFromText :: "('t \<Rightarrow> Prefix \<Rightarrow> 't) \<Rightarrow> 't \<Rightarrow> string \<Rightarrow> 't option \<times> load_error option" where
  "BARTFromText Insert lite input =
     (let (s, err) = bartInsertFromText Insert lite input
      in if err \<noteq> None then (None, err) else (Some s, None))"

subsection \<open>ipset.go\<close>

fun IPSet_loop ::
  "('b \<Rightarrow> Prefix \<Rightarrow> 'b) \<Rightarrow> ('b \<Rightarrow> 's option \<times> load_error option) \<Rightarrow> string list \<Rightarrow> 'b \<Rightarrow>
   's option \<times> load_error option" where
  "IPSet_loop AddPrefix IPSet [] sb = IPSet sb"
| "IPSet_loop AddPrefix IPSet (line # lines) sb =
     (if line = [] \<or> hd line = CHR ''#'' then IPSet_loop AddPrefix IPSet lines sb
      else let line = (if last line = CHR 0x0A then
          let line = butlast line
          in if line \<noteq> [] \<and> last line = CHR 0x0D then butlast line else line
        else line)
      in if line = [] then IPSet_loop AddPrefix IPSet lines sb
      else case ParsePrefix line of
        Inl err \<Rightarrow> (None, Some (ParseErr err))
      | Inr prefix \<Rightarrow> IPSet_loop AddPrefix IPSet lines (AddPrefix sb prefix))"

definition IPSetFromText ::
  "('b \<Rightarrow> Prefix \<Rightarrow> 'b) \<Rightarrow> ('b \<Rightarrow> 's option \<times> load_error option) \<Rightarrow> 'b \<Rightarrow> string \<Rightarrow>
   's option \<times> load_error option" where
  "IPSetFromText AddPrefix IPSet sb input = IPSet_loop AddPrefix IPSet (Lines input) sb"

fun IPSetToText_loop :: "Prefix list \<Rightarrow> string \<Rightarrow> string" where
  "IPSetToText_loop [] b = b"
| "IPSetToText_loop (prefix # prefixes) b =
     (let b = Prefix_AppendTo b prefix; b = b @ [CHR 0x0A] in IPSetToText_loop prefixes b)"

definition IPSetToText :: "('s \<Rightarrow> Prefix list) \<Rightarrow> 's \<Rightarrow> string" where
  "IPSetToText Prefixes s = IPSetToText_loop (Prefixes s) []"

subsection \<open>prefixset.go\<close>

fun PrefixSet_loop ::
  "('b \<Rightarrow> Prefix \<Rightarrow> 'b \<times> string option) \<Rightarrow> ('b \<Rightarrow> 's) \<Rightarrow> string list \<Rightarrow> 'b \<Rightarrow>
   's option \<times> load_error option" where
  "PrefixSet_loop Add PrefixSet [] sb = (Some (PrefixSet sb), None)"
| "PrefixSet_loop Add PrefixSet (line # lines) sb =
     (if line = [] \<or> hd line = CHR ''#'' then PrefixSet_loop Add PrefixSet lines sb
      else let line = (if last line = CHR 0x0A then
          let line = butlast line
          in if line \<noteq> [] \<and> last line = CHR 0x0D then butlast line else line
        else line)
      in if line = [] then PrefixSet_loop Add PrefixSet lines sb
      else case ParsePrefix line of
        Inl err \<Rightarrow> (None, Some (ParseErr err))
      | Inr prefix \<Rightarrow>
          (case Add sb prefix of
             (sb, Some err) \<Rightarrow> (None, Some (SetErr err))
           | (sb, None) \<Rightarrow> PrefixSet_loop Add PrefixSet lines sb))"

definition PrefixSetFromText ::
  "('b \<Rightarrow> Prefix \<Rightarrow> 'b \<times> string option) \<Rightarrow> ('b \<Rightarrow> 's) \<Rightarrow> 'b \<Rightarrow> string \<Rightarrow>
   's option \<times> load_error option" where
  "PrefixSetFromText Add PrefixSet sb input = PrefixSet_loop Add PrefixSet (Lines input) sb"

fun PrefixSetToText_loop :: "Prefix list \<Rightarrow> string \<Rightarrow> string" where
  "PrefixSetToText_loop [] b = b"
| "PrefixSetToText_loop (prefix # prefixes) b =
     (let b = Prefix_AppendTo b prefix; b = b @ [CHR 0x0A] in PrefixSetToText_loop prefixes b)"

definition PrefixSetToText :: "('s \<Rightarrow> Prefix list) \<Rightarrow> 's \<Rightarrow> string" where
  "PrefixSetToText AllCompact s = PrefixSetToText_loop (AllCompact s) []"

subsection \<open>The entries of a text\<close>

text \<open>
  What the loaders should see: the pieces between line ends, without a carriage return before a
  line end, leaving out blank lines and comments.
\<close>

fun pieces :: "string \<Rightarrow> string list" where
  "pieces [] = [[]]"
| "pieces (c # s) =
     (if c = CHR 0x0A then [] # pieces s
      else (c # hd (pieces s)) # tl (pieces s))"

definition strip_cr :: "string \<Rightarrow> string" where
  "strip_cr l = (if l \<noteq> [] \<and> last l = CHR 0x0D then butlast l else l)"

definition entries :: "string \<Rightarrow> string list" where
  "entries input = filter (\<lambda>l. l \<noteq> [] \<and> hd l \<noteq> CHR ''#'')
     (map strip_cr (butlast (pieces input)) @ [last (pieces input)])"

text \<open>The prefixes up to the first entry that is not one, with its error.\<close>

fun parse_all :: "string list \<Rightarrow> Prefix list \<times> netip_error option" where
  "parse_all [] = ([], None)"
| "parse_all (e # es) = (case ParsePrefix e of
     Inl err \<Rightarrow> ([], Some err)
   | Inr p \<Rightarrow> (case parse_all es of (ps, err) \<Rightarrow> (p # ps, err)))"

text \<open>What a pass of a loop makes of its line.\<close>

definition line_entry :: "string \<Rightarrow> string option" where
  "line_entry line =
     (let l = (if last line = CHR 0x0A then strip_cr (butlast line) else line)
      in if line = [] \<or> hd line = CHR ''#'' \<or> l = [] then None else Some l)"

lemma pieces_nonempty [simp]: "pieces s \<noteq> []"
  by (cases s) auto

lemma pieces_append: "CHR 0x0A \<notin> set l \<Longrightarrow> pieces (l @ CHR 0x0A # s) = l # pieces s"
  by (induction l) auto

lemma pieces_single: "CHR 0x0A \<notin> set l \<Longrightarrow> pieces l = [l]"
  by (induction l) auto

lemma strip_cr_hd: "strip_cr l \<noteq> [] \<Longrightarrow> l \<noteq> [] \<and> hd (strip_cr l) = hd l"
  by (cases l) (auto simp: strip_cr_def split: if_splits)

lemma entries_line:
  assumes "CHR 0x0A \<notin> set l"
  shows "entries (l @ CHR 0x0A # s) =
    (case line_entry (l @ [CHR 0x0A]) of None \<Rightarrow> entries s | Some e \<Rightarrow> e # entries s)"
  using assms strip_cr_hd [of l]
  by (cases "strip_cr l = []") (auto simp: entries_def pieces_append line_entry_def Let_def hd_append)

lemma entries_last:
  assumes "CHR 0x0A \<notin> set l"
  shows "entries l = (case line_entry l of None \<Rightarrow> [] | Some e \<Rightarrow> [e])"
proof -
  have "l \<noteq> [] \<Longrightarrow> last l \<noteq> CHR 0x0A" using assms last_in_set by force
  with assms show ?thesis by (auto simp: entries_def pieces_single line_entry_def Let_def)
qed

lemma Lines_append: "CHR 0x0A \<notin> set l \<Longrightarrow> Lines (l @ CHR 0x0A # r) = (l @ [CHR 0x0A]) # Lines r"
  by (subst Lines.simps) (auto simp: takeWhile_append dropWhile_append)

lemma Lines_single: "CHR 0x0A \<notin> set l \<Longrightarrow> Lines l = (if l = [] then [] else [l])"
proof -
  assume "CHR 0x0A \<notin> set l"
  then have "dropWhile (\<lambda>c. c \<noteq> CHR 0x0A) l = []" by (auto simp: dropWhile_eq_Nil_conv)
  then show ?thesis unfolding Lines.simps [of l] by (simp only: list.case)
qed

lemma Lines_entries: "List.map_filter line_entry (Lines input) = entries input"
proof (induction input rule: Lines.induct)
  case (1 s)
  show ?case
  proof (cases "CHR 0x0A \<in> set s")
    case True
    then obtain l r where s: "s = l @ CHR 0x0A # r" "CHR 0x0A \<notin> set l" by (metis split_list_first)
    then have "dropWhile (\<lambda>c. c \<noteq> CHR 0x0A) s = CHR 0x0A # r" by (auto simp: dropWhile_append)
    with s have "Lines s = (l @ [CHR 0x0A]) # Lines r" "List.map_filter line_entry (Lines r) = entries r"
      using 1 [of "CHR 0x0A" r] by (simp_all add: Lines_append)
    then show ?thesis using s
      by (simp add: entries_line List.map_filter_simps split: option.split)
  next
    case False
    then have "Lines s = (if s = [] then [] else [s])" by (rule Lines_single)
    moreover have "line_entry [] = None" by (simp add: line_entry_def)
    ultimately show ?thesis using entries_last [OF False]
      by (simp add: List.map_filter_simps split: option.split)
  qed
qed

subsection \<open>What the loaders share\<close>

fun load :: "('s \<Rightarrow> Prefix \<Rightarrow> load_error + 's) \<Rightarrow> ('s \<Rightarrow> 'r) \<Rightarrow> ('s \<Rightarrow> load_error \<Rightarrow> 'r) \<Rightarrow>
    Prefix list \<times> netip_error option \<Rightarrow> 's \<Rightarrow> 'r" where
  "load add finish failed ([], None) s = finish s"
| "load add finish failed ([], Some err) s = failed s (ParseErr err)"
| "load add finish failed (p # ps, err) s = (case add s p of
     Inl e \<Rightarrow> failed s e | Inr s \<Rightarrow> load add finish failed (ps, err) s)"

locale text_loader =
  fixes loop :: "string list \<Rightarrow> 's \<Rightarrow> 'r"
    and add :: "'s \<Rightarrow> Prefix \<Rightarrow> load_error + 's"
    and finish :: "'s \<Rightarrow> 'r"
    and failed :: "'s \<Rightarrow> load_error \<Rightarrow> 'r"
  assumes no_line: "loop [] s = finish s"
    and skips: "line_entry l = None \<Longrightarrow> loop (l # ls) s = loop ls s"
    and adds: "line_entry l = Some e \<Longrightarrow> loop (l # ls) s = (case ParsePrefix e of
        Inl err \<Rightarrow> failed s (ParseErr err)
      | Inr p \<Rightarrow> (case add s p of Inl err \<Rightarrow> failed s err | Inr s \<Rightarrow> loop ls s))"
begin

lemma loop_lines: "loop ls s = load add finish failed (parse_all (List.map_filter line_entry ls)) s"
proof (induction ls arbitrary: s)
  case Nil
  then show ?case by (simp add: no_line List.map_filter_simps)
next
  case (Cons l ls)
  then show ?case
    by (cases "line_entry l")
      (auto simp: skips adds List.map_filter_simps split: sum.split prod.split)
qed

lemma loop_text: "loop (Lines input) s = load add finish failed (parse_all (entries input)) s"
  by (simp add: loop_lines Lines_entries)

end

interpretation bart: text_loader "bartInsert_loop Insert" "\<lambda>s p. Inr (Insert s p)"
    "\<lambda>s. (s, None)" "\<lambda>s e. (s, Some e)" for Insert
  by unfold_locales
    (auto simp: line_entry_def strip_cr_def Let_def split: if_split_asm sum.split)

interpretation ipset: text_loader "IPSet_loop AddPrefix IPSet" "\<lambda>s p. Inr (AddPrefix s p)"
    IPSet "\<lambda>s e. (None, Some e)" for AddPrefix IPSet
  by unfold_locales
    (auto simp: line_entry_def strip_cr_def Let_def split: if_split_asm sum.split)

interpretation prefixset: text_loader "PrefixSet_loop Add PrefixSet"
    "\<lambda>s p. case Add s p of (s, Some err) \<Rightarrow> Inl (SetErr err) | (s, None) \<Rightarrow> Inr s"
    "\<lambda>s. (Some (PrefixSet s), None)" "\<lambda>s e. (None, Some e)" for Add PrefixSet
  by unfold_locales
    (auto simp: line_entry_def strip_cr_def Let_def split: if_split_asm sum.split prod.split option.split)

subsection \<open>What is loaded\<close>

text \<open>The set of netipds can refuse a prefix; then the later ones are not added.\<close>

fun add_all :: "('b \<Rightarrow> Prefix \<Rightarrow> 'b \<times> string option) \<Rightarrow> 'b \<Rightarrow> Prefix list \<Rightarrow> 'b \<times> string option" where
  "add_all Add sb [] = (sb, None)"
| "add_all Add sb (p # ps) = (case Add sb p of
     (sb, Some err) \<Rightarrow> (sb, Some err) | (sb, None) \<Rightarrow> add_all Add sb ps)"

lemma load_all:
  "load (\<lambda>s p. Inr (Insert s p)) finish failed (ps, err) s =
    (case err of None \<Rightarrow> finish (foldl Insert s ps) | Some e \<Rightarrow> failed (foldl Insert s ps) (ParseErr e))"
  by (induction ps arbitrary: s) (auto split: option.split)

lemma load_until:
  "load (\<lambda>s p. case Add s p of (s, Some err) \<Rightarrow> Inl (SetErr err) | (s, None) \<Rightarrow> Inr s) finish
      (\<lambda>s e. (None, Some e)) (ps, err) s =
    (case add_all Add s ps of (s, Some e) \<Rightarrow> (None, Some (SetErr e))
     | (s, None) \<Rightarrow> (case err of None \<Rightarrow> finish s | Some e \<Rightarrow> (None, Some (ParseErr e))))"
  by (induction ps arbitrary: s) (auto split: option.split prod.split)

lemma parse_all_wf: "list_all wf_prefix (fst (parse_all es))"
  by (induction es) (auto split: sum.split prod.split simp: ParsePrefix_wf)

lemma parse_all_back:
  "list_all wf_prefix ps \<Longrightarrow> parse_all (map (Prefix_AppendTo []) ps) = (ps, None)"
  by (induction ps) (simp_all add: ParsePrefix_AppendTo)

lemma Prefix_AppendTo_nonempty: "wf_prefix p \<Longrightarrow> Prefix_AppendTo [] p \<noteq> []"
  by (simp add: Prefix_AppendTo_parts)

definition prefix_lines :: "Prefix list \<Rightarrow> string" where
  "prefix_lines ps = concat (map (\<lambda>p. Prefix_AppendTo [] p @ [CHR 0x0A]) ps)"

lemma Prefix_AppendTo_append: "Prefix_AppendTo b p = b @ Prefix_MarshalText p"
  by (simp add: Prefix_MarshalText_def Prefix_AppendTo_def)

lemma ToText_loops:
  "IPSetToText_loop ps b = b @ prefix_lines ps" "PrefixSetToText_loop ps b = b @ prefix_lines ps"
  by (induction ps arbitrary: b)
    (simp_all add: prefix_lines_def Let_def Prefix_AppendTo_append)

lemma entries_prefix_lines:
  assumes "list_all wf_prefix ps"
  shows "entries (prefix_lines ps) = map (Prefix_AppendTo []) ps"
  using assms
proof (induction ps)
  case Nil
  then show ?case by (simp add: prefix_lines_def entries_def)
next
  case (Cons p ps)
  let ?t = "Prefix_AppendTo [] p"
  have p: "wf_prefix p" using Cons.prems by simp
  note chars = Prefix_AppendTo_chars [OF p] and ne = Prefix_AppendTo_nonempty [OF p]
  have "last ?t \<noteq> CHR 0x0D" "hd ?t \<noteq> CHR ''#''" using chars ne by (metis last_in_set hd_in_set)+
  with ne have "line_entry (?t @ [CHR 0x0A]) = Some ?t" by (simp add: line_entry_def strip_cr_def)
  moreover have "CHR 0x0A \<notin> set ?t" using chars by blast
  moreover have "prefix_lines (p # ps) = ?t @ CHR 0x0A # prefix_lines ps" by (simp add: prefix_lines_def)
  ultimately show ?case using Cons entries_line [of ?t "prefix_lines ps"] by simp
qed

text \<open>
  C13. The three loaders read a text in the same way: the prefixes of its entries (lines without
  their line ends, blank lines and comments left out) in order, each one that net/netip can
  build, up to the first entry that is no prefix, whose error is returned. The table of bart keeps
  what was inserted before the error; the others return no set. The builder of netipds may refuse
  a prefix, which ends the loop with its error.
\<close>

theorem loaders_agree:
  "\<exists>ps err. parse_all (entries input) = (ps, err) \<and> list_all wf_prefix ps \<and>
    bartInsertFromText Insert s input = (foldl Insert s ps, map_option ParseErr err) \<and>
    BARTFromText Insert lite input = (case err of
        None \<Rightarrow> (Some (foldl Insert lite ps), None) | Some e \<Rightarrow> (None, Some (ParseErr e))) \<and>
    IPSetFromText AddPrefix IPSet sb input = (case err of
        None \<Rightarrow> IPSet (foldl AddPrefix sb ps) | Some e \<Rightarrow> (None, Some (ParseErr e))) \<and>
    PrefixSetFromText Add PrefixSet psb input = (case add_all Add psb ps of
        (_, Some e) \<Rightarrow> (None, Some (SetErr e))
      | (psb, None) \<Rightarrow> (case err of
          None \<Rightarrow> (Some (PrefixSet psb), None) | Some e \<Rightarrow> (None, Some (ParseErr e))))"
proof -
  obtain ps err where p: "parse_all (entries input) = (ps, err)" by (metis surj_pair)
  then have "list_all wf_prefix ps" using parse_all_wf [of "entries input"] by simp
  moreover have bart: "bartInsertFromText Insert s input = (foldl Insert s ps, map_option ParseErr err)" for s
    by (simp add: bartInsertFromText_def bart.loop_text p load_all split: option.split)
  moreover have "BARTFromText Insert lite input = (case err of
        None \<Rightarrow> (Some (foldl Insert lite ps), None) | Some e \<Rightarrow> (None, Some (ParseErr e)))"
    by (simp add: BARTFromText_def bart split: option.split)
  ultimately show ?thesis using p
    by (simp add: IPSetFromText_def PrefixSetFromText_def ipset.loop_text prefixset.loop_text
        load_all load_until)
qed

text \<open>
  C12. Writing a set as text and loading the text gives back the prefixes of the set, in its order
  and without an error, for every prefix that net/netip can build: IPv4, IPv6 in its shortened
  form and IPv4-mapped IPv6 alike.
\<close>

theorem prefix_text_roundtrip:
  assumes "list_all wf_prefix (Prefixes s)" and "list_all wf_prefix (AllCompact t)"
  shows "IPSetFromText AddPrefix IPSet sb (IPSetToText Prefixes s) =
      IPSet (foldl AddPrefix sb (Prefixes s)) \<and>
    bartInsertFromText Insert lite (PrefixSetToText AllCompact t) =
      (foldl Insert lite (AllCompact t), None)"
  using assms
  by (simp add: IPSetFromText_def bartInsertFromText_def IPSetToText_def PrefixSetToText_def
      ipset.loop_text bart.loop_text ToText_loops entries_prefix_lines parse_all_back load_all)

definition sample_prefixes :: "Prefix list" where
  "sample_prefixes = [PrefixFrom (AddrFrom4 [10, 0, 0, 0]) 8,
     PrefixFrom (AddrFrom16 [0xfe, 0x80, 0, 0, 0, 0, 0, 0, 0, 0, 0, 0, 0, 0, 0, 0]) 10,
     PrefixFrom (AddrFrom16 [0, 0, 0, 0, 0, 0, 0, 0, 0, 0, 0xff, 0xff, 1, 2, 3, 0]) 120]"

theorem prefix_text_roundtrip_witness:
  "bartInsertFromText (\<lambda>ps p. ps @ [p]) [] (PrefixSetToText (\<lambda>t. t) sample_prefixes) =
    (sample_prefixes, None)"
proof -
  have "z (AddrFrom4 b) = Z4" "z (AddrFrom16 b) = Z6 []" for b
    by (simp_all add: AddrFrom4_def AddrFrom16_def)
  then have "list_all wf_prefix sample_prefixes"
    by (simp add: sample_prefixes_def wf_prefix_PrefixFrom)
  moreover have "foldl (\<lambda>ps p. ps @ [p]) qs ps = qs @ ps" for qs ps :: "Prefix list"
    by (induction ps arbitrary: qs) simp_all
  ultimately show ?thesis
    using prefix_text_roundtrip [of "\<lambda>t. t" "[]" "\<lambda>t. t" sample_prefixes "\<lambda>s p. s" "\<lambda>s. (Some (), None)" "()"
        "\<lambda>ps p. ps @ [p]" "[]", THEN conjunct2]
    by simp
qed

end
