(* ===== verification/Resolv.thy ===== *)
theory Resolv
  imports Netip_Text
begin

text \<open>
  resolv/main.go: the address family flag and the choice among the addresses of a host. The
  resolver of the system is the argument \<open>lookup\<close>. What the program prints and how it
  ends is its result; \<open>None\<close> is the panic of an index out of range.
\<close>

type_synonym AddressFamily = byte

definition AddressFamilyUnspecified :: AddressFamily where "AddressFamilyUnspecified = 0"
definition AddressFamilyIPv4 :: AddressFamily where "AddressFamilyIPv4 = 4"
definition AddressFamilyIPv6 :: AddressFamily where "AddressFamilyIPv6 = 6"

definition AddressFamily_String :: "AddressFamily \<Rightarrow> string" where
  "AddressFamily_String af = itoa (unat af)"

definition AddressFamily_Set :: "string \<Rightarrow> string + AddressFamily" where
  "AddressFamily_Set s =
     (if s = ''4'' then Inr AddressFamilyIPv4
      else if s = ''6'' then Inr AddressFamilyIPv6
      else Inl (''invalid address family: '' @ s))"

text \<open>The flags host and inet where the command line does not give them.\<close>

definition resolv_flags :: "string \<times> AddressFamily" where
  "resolv_flags = (''example.com'', AddressFamilyUnspecified)"

fun first_ip :: "(Addr \<Rightarrow> bool) \<Rightarrow> Addr list \<Rightarrow> Addr option" where
  "first_ip wanted [] = None"
| "first_ip wanted (ip # ips) = (if wanted ip then Some ip else first_ip wanted ips)"

text \<open>The addresses printed on the way, and the address or the error.\<close>

definition ResolveAddr ::
  "(string \<Rightarrow> string + Addr list) \<Rightarrow> string \<Rightarrow> AddressFamily \<Rightarrow> Addr list option \<times> (string + Addr) option" where
  "ResolveAddr lookup host preferredAF = (case lookup host of
     Inl err \<Rightarrow> (None, Some (Inl err))
   | Inr ips \<Rightarrow>
       (let rest = (if ips = [] then None else Some (Inr (hd ips)))
        in (Some ips,
          if length ips > 1 then
            if preferredAF = AddressFamilyUnspecified then rest
            else if preferredAF = AddressFamilyIPv4 then
              (case first_ip (\<lambda>ip. Is4 ip \<or> Is4In6 ip) ips of Some ip \<Rightarrow> Some (Inr ip) | None \<Rightarrow> rest)
            else if preferredAF = AddressFamilyIPv6 then
              (case first_ip (\<lambda>ip. \<not> Is4 ip \<and> \<not> Is4In6 ip) ips of Some ip \<Rightarrow> Some (Inr ip) | None \<Rightarrow> rest)
            else Some (Inl (''invalid address family: '' @ AddressFamily_String preferredAF))
          else rest)))"

text \<open>The lines printed and the exit status.\<close>

definition addrs_text :: "Addr list \<Rightarrow> string" where
  "addrs_text ips = ''['' @ join '' '' (map Addr_String ips) @ '']''"

definition main_resolv ::
  "(string \<Rightarrow> string + Addr list) \<Rightarrow> string \<Rightarrow> AddressFamily \<Rightarrow> (string list \<times> nat) option" where
  "main_resolv lookup host inet =
     (let (printed, r) = ResolveAddr lookup host inet;
          lines = (case printed of None \<Rightarrow> [] | Some ips \<Rightarrow> [addrs_text ips])
      in map_option (\<lambda>r. case r of
           Inl err \<Rightarrow> (lines @ [err], 1) | Inr ip \<Rightarrow> (lines @ [Addr_String ip], 0)) r)"

subsection \<open>The choice\<close>

lemma first_ip_Some:
  "first_ip P ips = Some ip \<Longrightarrow> \<exists>us vs. ips = us @ ip # vs \<and> P ip \<and> (\<forall>x\<in>set us. \<not> P x)"
proof (induction ips)
  case (Cons x ips)
  show ?case
  proof (cases "P x")
    case True
    with Cons.prems have "x # ips = [] @ ip # ips \<and> P ip" by simp
    then show ?thesis by (metis empty_iff list.set(1))
  next
    case False
    with Cons obtain us vs where "ips = us @ ip # vs" "P ip" "\<forall>x\<in>set us. \<not> P x" by auto
    with False have "x # ips = (x # us) @ ip # vs \<and> P ip \<and> (\<forall>y\<in>set (x # us). \<not> P y)" by simp
    then show ?thesis by blast
  qed
qed simp

lemma first_ip_None: "first_ip P ips = None \<longleftrightarrow> (\<forall>ip\<in>set ips. \<not> P ip)"
  by (induction ips) auto

text \<open>An address is of the family 4 when it is IPv4, mapped or not, and else of the family 6.\<close>

definition in_family :: "string \<Rightarrow> Addr \<Rightarrow> bool" where
  "in_family s ip \<longleftrightarrow> (s = ''4'' \<longleftrightarrow> Is4 (Unmap ip))"

lemma Is4_Unmap: "Is4 (Unmap ip) \<longleftrightarrow> Is4 ip \<or> Is4In6 ip"
  by (auto simp: Unmap_def Is4_def)

text \<open>
  C40. With a family the flag accepts, a host that has addresses resolves to the first address of the
  family, or to its first address if it has none of it: the preference never turns a success
  into an error, and the address is printed after the list. A host without addresses makes the
  program panic.
\<close>

theorem resolve_prefers:
  assumes "AddressFamily_Set s = Inr af" and "lookup host = Inr ips"
  shows "(ips = [] \<longrightarrow> main_resolv lookup host af = None) \<and>
    (ips \<noteq> [] \<longrightarrow> (\<exists>ip. main_resolv lookup host af = Some ([addrs_text ips, Addr_String ip], 0) \<and>
      ((\<exists>us vs. ips = us @ ip # vs \<and> in_family s ip \<and> list_all (\<lambda>x. \<not> in_family s x) us) \<or>
       list_all (\<lambda>x. \<not> in_family s x) ips \<and> ip = hd ips)))"
proof (intro conjI impI)
  assume "ips = []"
  with assms(2) show "main_resolv lookup host af = None"
    by (simp add: main_resolv_def ResolveAddr_def)
next
  assume ne: "ips \<noteq> []"
  have fam: "in_family s = (if af = AddressFamilyIPv4 then (\<lambda>ip. Is4 ip \<or> Is4In6 ip)
      else (\<lambda>ip. \<not> Is4 ip \<and> \<not> Is4In6 ip))" and
    af: "af = AddressFamilyIPv4 \<or> af = AddressFamilyIPv6"
    using assms(1) by (auto simp: AddressFamily_Set_def in_family_def Is4_Unmap
        AddressFamilyIPv4_def AddressFamilyIPv6_def split: if_splits)
  define ip where "ip = (case first_ip (in_family s) ips of Some ip \<Rightarrow> ip | None \<Rightarrow> hd ips)"
  have "snd (ResolveAddr lookup host af) = Some (Inr ip)"
  proof (cases "length ips > 1")
    case True
    with af ne assms(2) show ?thesis
      by (auto simp: ResolveAddr_def Let_def ip_def fam AddressFamilyUnspecified_def
          AddressFamilyIPv4_def AddressFamilyIPv6_def split: option.split)
  next
    case False
    with ne obtain x where "ips = [x]" by (cases ips) auto
    with assms(2) show ?thesis by (simp add: ResolveAddr_def Let_def ip_def)
  qed
  then have "main_resolv lookup host af = Some ([addrs_text ips, Addr_String ip], 0)"
    using assms(2) by (simp add: main_resolv_def ResolveAddr_def Let_def)
  moreover have "(\<exists>us vs. ips = us @ ip # vs \<and> in_family s ip \<and> list_all (\<lambda>x. \<not> in_family s x) us) \<or>
      list_all (\<lambda>x. \<not> in_family s x) ips \<and> ip = hd ips"
  proof (cases "first_ip (in_family s) ips")
    case None
    then show ?thesis by (simp add: ip_def) (simp add: first_ip_None list_all_iff)
  next
    case (Some x)
    then have "ip = x" by (simp add: ip_def)
    with first_ip_Some [OF Some] show ?thesis by (auto simp: list_all_iff)
  qed
  ultimately show "\<exists>ip. main_resolv lookup host af = Some ([addrs_text ips, Addr_String ip], 0) \<and>
      ((\<exists>us vs. ips = us @ ip # vs \<and> in_family s ip \<and> list_all (\<lambda>x. \<not> in_family s x) us) \<or>
       list_all (\<lambda>x. \<not> in_family s x) ips \<and> ip = hd ips)" by blast
qed

theorem resolve_prefers_witness:
  "main_resolv (\<lambda>h. Inr [AddrFrom4 [1, 2, 3, 4], IPv6Unspecified]) ''a'' AddressFamilyIPv6 =
    Some ([addrs_text [AddrFrom4 [1, 2, 3, 4], IPv6Unspecified], Addr_String IPv6Unspecified], 0)"
proof -
  let ?ips = "[AddrFrom4 [1, 2, 3, 4], IPv6Unspecified]"
  have set: "AddressFamily_Set ''6'' = Inr AddressFamilyIPv6" by (simp add: AddressFamily_Set_def)
  have fam: "\<not> in_family ''6'' (AddrFrom4 [1, 2, 3, 4])" "in_family ''6'' IPv6Unspecified"
    by (simp_all add: in_family_def Is4_Unmap)
      (simp_all add: Is4_def Is4In6_def mapped_bits_def AddrFrom4_def IPv6Unspecified_def)
  from resolve_prefers [OF set, of "\<lambda>h. Inr ?ips" "''a''" ?ips] fam show ?thesis
    by (auto simp: Cons_eq_append_conv)
qed

end
