(* ===== verification/Route_Main.thy ===== *)
theory Route_Main
  imports Route_Windows Monitor_Props
begin

text \<open>
  route/cmd/route: the flags of main.go, what the mains make of them for their logger, and the main of
  the platforms that are not supported.
\<close>

record route_flags =
  dumpAll :: bool
  logNoColor :: bool
  logNoTime :: bool
  logKVPairs :: bool
  logJSON :: bool
  logLevel :: level

definition default_flags :: route_flags where
  "default_flags = \<lparr>dumpAll = False, logNoColor = False, logNoTime = False, logKVPairs = False,
     logJSON = False, logLevel = LevelInfo\<rparr>"

definition logCfg :: "route_flags \<Rightarrow> Config" where
  "logCfg f = \<lparr>cfg_Level = logLevel f, cfg_NoColor = logNoColor f, cfg_NoTime = logNoTime f,
     cfg_PrettyJSON = False, cfg_UseTextHandler = logKVPairs f, cfg_UseJSONHandler = logJSON f\<rparr>"

definition main_stub :: "string \<times> nat" where
  "main_stub = (''Unsupported platform'' @ [CHR 0x0A], 1)"

text \<open>
  By default the logger of the commands writes colored text with times and leaves out the debug
  messages, such as those on skipped notifications.
\<close>

lemma default_logger:
  "NewHandler (logCfg default_flags) = TintText LevelInfo False"
  "Log ops now (NewLogger build (logCfg default_flags)) LevelDebug msg attrs w = ([], w)"
  by (simp_all add: NewHandler_def logCfg_def default_flags_def Log_def Enabled_def NewLogger_def
      NewLoggerWithHandler_def LevelDebug_def LevelInfo_def)

subsection \<open>What main writes\<close>

text \<open>
  The dumps and the monitor get loggers of their own, with the attribute source. The calls of a main
  go through these loggers one by one, each at its time.
\<close>

definition source_logger :: "('h, 'v, 'w) handler_ops \<Rightarrow> 'h Logger \<Rightarrow> string option \<Rightarrow> 'h Logger" where
  "source_logger ops l src = (case src of None \<Rightarrow> l
     | Some name \<Rightarrow> WithAttrs ops l [(''source'', VString name)])"

fun emit :: "('h, bsd_any, 'w) handler_ops \<Rightarrow> 'h Logger \<Rightarrow> (nat \<Rightarrow> int) \<Rightarrow> nat \<Rightarrow> sourced_call list \<Rightarrow> 'w \<Rightarrow>
    string \<times> 'w" where
  "emit ops l clock i [] w = ([], w)"
| "emit ops l clock i ((src, lvl, msg, attrs) # cs) w =
     (let (t, w) = Log ops (clock i) (source_logger ops l src) lvl msg attrs w;
          (ts, w) = emit ops l clock (Suc i) cs w
      in (t @ ts, w))"

text \<open>
  What should reach the handlers: the calls at or above the level, each with the handler of its
  source.
\<close>

definition source_handler :: "('h, 'v, 'w) handler_ops \<Rightarrow> 'h \<Rightarrow> string option \<Rightarrow> 'h" where
  "source_handler ops h src = (case src of None \<Rightarrow> h
     | Some name \<Rightarrow> ops_WithAttrs ops h [(''source'', VString name)])"

definition due :: "route_flags \<Rightarrow> (nat \<Rightarrow> int) \<Rightarrow> sourced_call list \<Rightarrow> (string option \<times> bsd_any log_record) list" where
  "due f clock calls = map (\<lambda>(i, src, lvl, msg, attrs). (src,
       \<lparr>r_time = (if logNoTime f then None else Some (clock i)), r_level = lvl, r_msg = msg, r_attrs = attrs\<rparr>))
     (filter (\<lambda>(i, src, lvl, msg, attrs). logLevel f \<le> lvl) (enumerate 0 calls))"

fun deliver :: "('h, 'v, 'w) handler_ops \<Rightarrow> 'h \<Rightarrow> (string option \<times> 'v log_record) list \<Rightarrow> 'w \<Rightarrow> string \<times> 'w"
  where
  "deliver ops h [] w = ([], w)"
| "deliver ops h ((src, r) # rs) w =
     (let (err, w) = ops_Handle ops (source_handler ops h src) r w; (ts, w) = deliver ops h rs w
      in ((case err of None \<Rightarrow> []
          | Some e \<Rightarrow> ''tslog: failed to write log message: '' @ e @ [CHR 0x0a]) @ ts, w))"

lemma emit_delivers:
  assumes "lg_level l = logLevel f" and "lg_noTime l = logNoTime f"
  shows "emit ops l clock i cs w = deliver ops (lg_handler l)
    (map (\<lambda>(i, src, lvl, msg, attrs). (src,
       \<lparr>r_time = (if logNoTime f then None else Some (clock i)), r_level = lvl, r_msg = msg, r_attrs = attrs\<rparr>))
     (filter (\<lambda>(i, src, lvl, msg, attrs). logLevel f \<le> lvl) (enumerate i cs))) w"
  using assms
  by (induction ops l clock i cs w rule: emit.induct)
    (auto simp: Log_def log_emit_def Enabled_def source_logger_def source_handler_def WithAttrs_def
      Let_def split: prod.split option.split)

lemma main_logger:
  "emit ops (NewLogger build (logCfg f)) clock 0 cs w =
   deliver ops (build (NewHandler (logCfg f))) (due f clock cs) w"
  by (subst emit_delivers [where f = f])
    (simp_all add: NewLogger_def NewLoggerWithHandler_def logCfg_def due_def)

fun calls_of :: "main_result \<Rightarrow> sourced_call list" where
  "calls_of (Exit1 calls) = calls"
| "calls_of (Monitoring calls) = calls"

text \<open>Only records at or above the level of the flags are due.\<close>

lemma due_levels: "(src, r) \<in> set (due f clock calls) \<Longrightarrow> logLevel f \<le> r_level r"
  by (auto simp: due_def)

end
