(* ===== verification/Logging.thy ===== *)
theory Logging
  imports Tslog
begin

text \<open>
  logging/logging.go: constructors of loggers of zap, slog with tint, and zerolog. What these
  packages build is a value here, made of the parts the code gives them; their constants are
  arguments.
\<close>

subsection \<open>zap\<close>

datatype level_encoder = CapitalColorLevelEncoder | CapitalLevelEncoder
datatype time_encoder = ISO8601TimeEncoder
datatype duration_encoder = StringDurationEncoder
datatype caller_encoder = ShortCallerEncoder

record EncoderConfig =
  TimeKey :: string
  LevelKey :: string
  NameKey :: string
  CallerKey :: string
  FunctionKey :: string
  MessageKey :: string
  StacktraceKey :: string
  LineEnding :: string
  EncodeLevel :: level_encoder
  EncodeTime :: "time_encoder option"
  EncodeDuration :: duration_encoder
  EncodeCaller :: caller_encoder
  ConsoleSeparator :: string

record zapcore =
  OmitKey :: string
  DefaultLineEnding :: string

definition NewProductionConsoleEncoderConfig :: "zapcore \<Rightarrow> bool \<Rightarrow> bool \<Rightarrow> EncoderConfig" where
  "NewProductionConsoleEncoderConfig zc noColor noTime =
     (let ec = \<lparr>TimeKey = ''T'', LevelKey = ''L'', NameKey = ''N'', CallerKey = ''C'',
            FunctionKey = OmitKey zc, MessageKey = ''M'', StacktraceKey = ''S'',
            LineEnding = DefaultLineEnding zc, EncodeLevel = CapitalColorLevelEncoder,
            EncodeTime = Some ISO8601TimeEncoder, EncodeDuration = StringDurationEncoder,
            EncodeCaller = ShortCallerEncoder, ConsoleSeparator = '' ''\<rparr>;
          ec = (if noColor then ec\<lparr>EncodeLevel := CapitalLevelEncoder\<rparr> else ec)
      in if noTime then ec\<lparr>TimeKey := OmitKey zc, EncodeTime := None\<rparr> else ec)"

text \<open>The fake clock answers the zero time, whatever the time is.\<close>

definition fakeClock_Now :: "int \<Rightarrow> int option" where
  "fakeClock_Now now = None"

text \<open>Its tickers are those of the package time, the argument \<open>newTicker\<close>.\<close>

definition fakeClock_NewTicker :: "(int \<Rightarrow> 'k) \<Rightarrow> int \<Rightarrow> 'k" where
  "fakeClock_NewTicker newTicker d = newTicker d"

record 'k zap_clock =
  clock_Now :: "int \<Rightarrow> int option"
  clock_NewTicker :: "int \<Rightarrow> 'k"

definition fakeClock :: "(int \<Rightarrow> 'k) \<Rightarrow> 'k zap_clock" where
  "fakeClock newTicker =
     \<lparr>clock_Now = fakeClock_Now, clock_NewTicker = fakeClock_NewTicker newTicker\<rparr>"

datatype 'k zap_option = WithClock "'k zap_clock" | AddCaller

datatype 'w zap_syncer = Locked 'w

record ('w, 'k) zap_logger =
  zap_encoder :: EncoderConfig
  zap_writer :: "'w zap_syncer"
  zap_level :: int
  zap_options :: "'k zap_option list"

definition NewProductionConsoleZapLogger ::
  "zapcore \<Rightarrow> (int \<Rightarrow> 'k) \<Rightarrow> 'w \<Rightarrow> int \<Rightarrow> bool \<Rightarrow> bool \<Rightarrow> bool \<Rightarrow> ('w, 'k) zap_logger" where
  "NewProductionConsoleZapLogger zc newTicker ws lvl noColor noTime addCaller =
     (let cfg = NewProductionConsoleEncoderConfig zc noColor noTime;
          opts = (if noTime then [WithClock (fakeClock newTicker)] else []);
          opts = (if addCaller then opts @ [AddCaller] else opts)
      in \<lparr>zap_encoder = cfg, zap_writer = Locked ws, zap_level = lvl, zap_options = opts\<rparr>)"

text \<open>
  The switches of the zap logger do what their names say: without times there is neither a time
  key nor a time encoder and the clock shows no time, the caller is added on request only, and no
  switch changes another part.
\<close>

lemma zap_switches:
  fixes lg :: "('w, 'k) zap_logger"
  assumes "lg = NewProductionConsoleZapLogger zc newTicker ws lvl noColor noTime addCaller"
  shows "TimeKey (zap_encoder lg) = (if noTime then OmitKey zc else ''T'')"
    and "EncodeTime (zap_encoder lg) = None \<longleftrightarrow> noTime"
    and "(\<exists>c. WithClock c \<in> set (zap_options lg)) \<longleftrightarrow> noTime"
    and "WithClock c \<in> set (zap_options lg) \<Longrightarrow> clock_Now c now = None \<and> clock_NewTicker c = newTicker"
    and "AddCaller \<in> set (zap_options lg) \<longleftrightarrow> addCaller"
    and "EncodeLevel (zap_encoder lg) = CapitalLevelEncoder \<longleftrightarrow> noColor"
  using assms
  by (auto simp: NewProductionConsoleZapLogger_def NewProductionConsoleEncoderConfig_def Let_def
      fakeClock_def fakeClock_Now_def fakeClock_NewTicker_def fun_eq_iff split: if_splits)

subsection \<open>tint\<close>

text \<open>The empty attribute stands for one that the handler leaves out.\<close>

definition dropTime :: "string list \<Rightarrow> 'v attr \<Rightarrow> 'v attr option" where
  "dropTime groups attr = (if groups = [] \<and> fst attr = ''time'' then None else Some attr)"

record ('w, 'v) tint_handler =
  tint_writer :: 'w
  tint_level :: level
  tint_ReplaceAttr :: "(string list \<Rightarrow> 'v attr \<Rightarrow> 'v attr option) option"
  tint_NoColor :: bool

definition NewTintSlogger :: "'w \<Rightarrow> level \<Rightarrow> bool \<Rightarrow> bool \<Rightarrow> ('w, 'v) tint_handler" where
  "NewTintSlogger w lvl noColor noTime =
     (let replaceAttr = (if noTime then Some dropTime else None)
      in \<lparr>tint_writer = w, tint_level = lvl, tint_ReplaceAttr = replaceAttr, tint_NoColor = noColor\<rparr>)"

subsection \<open>zerolog\<close>

datatype 'w zerolog_writer = Plain 'w | ConsoleWriter 'w bool

record 'w zerolog_logger =
  zl_writer :: "'w zerolog_writer"
  zl_level :: int
  zl_timestamp :: bool

definition NewZerologLogger :: "'w \<Rightarrow> int \<Rightarrow> bool \<Rightarrow> 'w zerolog_logger" where
  "NewZerologLogger w lvl noTime =
     (let logger = \<lparr>zl_writer = Plain w, zl_level = lvl, zl_timestamp = False\<rparr>
      in if noTime then logger else logger\<lparr>zl_timestamp := True\<rparr>)"

definition NewZerologPrettyLogger :: "'w \<Rightarrow> int \<Rightarrow> bool \<Rightarrow> bool \<Rightarrow> 'w zerolog_logger" where
  "NewZerologPrettyLogger w lvl noColor noTime =
     (let logger = \<lparr>zl_writer = ConsoleWriter w noColor, zl_level = lvl, zl_timestamp = False\<rparr>
      in if noTime then logger else logger\<lparr>zl_timestamp := True\<rparr>)"

subsection \<open>Attributes under the tint handler\<close>

text \<open>
  slog calls ReplaceAttr on every attribute that is not a group, the built-in ones included, with
  the groups around it.
\<close>

fun replace_attrs :: "(string list \<Rightarrow> 'v attr \<Rightarrow> 'v attr option) \<Rightarrow> string list \<Rightarrow> 'v attr list \<Rightarrow> 'v attr list"
  where
  "replace_attrs f groups [] = []"
| "replace_attrs f groups ((k, VGroup as) # rest) =
     (k, VGroup (replace_attrs f (groups @ [k]) as)) # replace_attrs f groups rest"
| "replace_attrs f groups (a # rest) =
     (case f groups a of None \<Rightarrow> [] | Some a \<Rightarrow> [a]) @ replace_attrs f groups rest"

lemma replace_inside_group:
  fixes as :: "'v attr list"
  shows "groups \<noteq> [] \<Longrightarrow> replace_attrs dropTime groups as = as"
  by (induction "dropTime :: string list \<Rightarrow> 'v attr \<Rightarrow> 'v attr option" groups as rule: replace_attrs.induct)
    (auto simp: dropTime_def)

text \<open>
  Without times the handler leaves out every attribute named time outside a group, also one of the
  caller, and nothing else.
\<close>

lemma tint_drops_user_time:
  "replace_attrs dropTime [] as =
    filter (\<lambda>(k, v). k \<noteq> ''time'' \<or> (\<exists>bs. v = VGroup bs)) as"
proof (induction as)
  case (Cons a as)
  obtain k v where "a = (k, v)" by fastforce
  with Cons show ?case by (cases v) (auto simp: replace_inside_group dropTime_def [of "[]"])
qed simp

end
