(* ===== verification/Ssh_Client.thy ===== *)
theory Ssh_Client
  imports Main
begin

text \<open>
  sshclient/sshclient.go: the flags, the configuration of the connection and the calls of main in
  order, each with its error exit. The packages ssh and knownhosts and the file system are the
  operations of an argument. os.Exit ends the program without the deferred calls.
\<close>

record ssh_flags =
  privateKeyPath :: string
  knownHostsPath :: string
  hostKeyAlgorithm :: string
  user :: string
  network :: string
  address :: string
  command :: string

record ('signer, 'cb) ClientConfig =
  cc_User :: string
  cc_Auth :: "'signer list"
  cc_HostKeyCallback :: 'cb
  cc_HostKeyAlgorithms :: "string list"

datatype dial_error = KeyError string | DialError string

record ('signer, 'cb, 'client, 'session) ssh_ops =
  UserHomeDir :: "string + string"
  KeyAlgoED25519 :: string
  ReadFile :: "string \<Rightarrow> string + string"
  ParsePrivateKey :: "string \<Rightarrow> string + 'signer"
  knownhosts_New :: "string \<Rightarrow> string + 'cb"
  Dial :: "string \<Rightarrow> string \<Rightarrow> ('signer, 'cb) ClientConfig \<Rightarrow> dial_error + 'client"
  NewSession :: "'client \<Rightarrow> string + 'session"
  Shell :: "'session \<Rightarrow> string \<Rightarrow> string option"
  Wait :: "'session \<Rightarrow> string \<Rightarrow> string option"

text \<open>The defaults of the flags; init may exit before main.\<close>

definition ssh_init :: "('signer, 'cb, 'client, 'session) ssh_ops \<Rightarrow> string + ssh_flags" where
  "ssh_init ops = (case UserHomeDir ops of
     Inl err \<Rightarrow> Inl (''Failed to get user home directory: '' @ err @ [CHR 0x0A])
   | Inr homeDir \<Rightarrow> Inr \<lparr>privateKeyPath = homeDir @ ''/.ssh/id_ed25519'',
       knownHostsPath = homeDir @ ''/.ssh/known_hosts'', hostKeyAlgorithm = KeyAlgoED25519 ops,
       user = ''admin'', network = ''tcp'', address = [],
       command = ''uname -a'' @ [CHR 0x0A] @ ''nvram get wan0_ipaddr'' @ [CHR 0x0A] @
         ''nvram get wan1_ipaddr'' @ [CHR 0x0A]\<rparr>)"

datatype ssh_result = SshExit1 string | SshReturned "string list"

definition exit_with :: "string \<Rightarrow> string \<Rightarrow> ssh_result" where
  "exit_with what err = SshExit1 (what @ err @ [CHR 0x0A])"

definition clientConfig ::
  "('signer, 'cb, 'client, 'session) ssh_ops \<Rightarrow> ssh_flags \<Rightarrow> 'signer \<Rightarrow> 'cb \<Rightarrow> ('signer, 'cb) ClientConfig"
  where
  "clientConfig ops f signer hostKeyCallback =
     \<lparr>cc_User = user f, cc_Auth = [signer], cc_HostKeyCallback = hostKeyCallback,
      cc_HostKeyAlgorithms = [KeyAlgoED25519 ops]\<rparr>"

definition main_ssh :: "('signer, 'cb, 'client, 'session) ssh_ops \<Rightarrow> ssh_flags \<Rightarrow> ssh_result" where
  "main_ssh ops f = (case ReadFile ops (privateKeyPath f) of
     Inl err \<Rightarrow> exit_with ''Failed to read private key: '' err
   | Inr key \<Rightarrow> (case ParsePrivateKey ops key of
     Inl err \<Rightarrow> exit_with ''Failed to parse private key: '' err
   | Inr signer \<Rightarrow> (case knownhosts_New ops (knownHostsPath f) of
     Inl err \<Rightarrow> exit_with ''Failed to create host key callback: '' err
   | Inr cb \<Rightarrow> (case Dial ops (network f) (address f) (clientConfig ops f signer cb) of
     Inl (KeyError want) \<Rightarrow> exit_with ''Host key mismatch: '' want
   | Inl (DialError err) \<Rightarrow> exit_with ''Failed to dial SSH: '' err
   | Inr client \<Rightarrow> (case NewSession ops client of
     Inl err \<Rightarrow> exit_with ''Failed to create SSH session: '' err
   | Inr session \<Rightarrow> (case Shell ops session (command f) of
     Some err \<Rightarrow> exit_with ''Failed to start shell: '' err
   | None \<Rightarrow> (case Wait ops session (command f) of
     Some err \<Rightarrow> exit_with ''Shell exited with error: '' err
   | None \<Rightarrow> SshReturned [''session'', ''client''])))))))"

lemma other_flags:
  "privateKeyPath (f\<lparr>hostKeyAlgorithm := a\<rparr>) = privateKeyPath f"
  "knownHostsPath (f\<lparr>hostKeyAlgorithm := a\<rparr>) = knownHostsPath f"
  "user (f\<lparr>hostKeyAlgorithm := a\<rparr>) = user f"
  "network (f\<lparr>hostKeyAlgorithm := a\<rparr>) = network f"
  "address (f\<lparr>hostKeyAlgorithm := a\<rparr>) = address f"
  "command (f\<lparr>hostKeyAlgorithm := a\<rparr>) = command f"
  by simp_all

text \<open>The flag for the host key algorithm is parsed and has no effect.\<close>

lemma host_key_algorithm_ignored: "main_ssh ops (f\<lparr>hostKeyAlgorithm := a\<rparr>) = main_ssh ops f"
  unfolding main_ssh_def clientConfig_def other_flags by (rule refl)

end
