(* ===== verification/Probe.thy ===== *)
theory Probe
  imports Prelude
begin

text \<open>
  probe/tcp.go: one connection, an optional random payload, and a read until 65535 bytes, the end of
  the stream or the deadline that a signal sets. The random bytes and what the network
  answers are arguments; the
  program is what it prints, line by line, and its exit status. The read runs beside a goroutine
  that waits for a signal; the second part is the step relation of the two.
\<close>

datatype read_err = NoErr | ErrDeadlineExceeded | ReadErr string

record probe_net =
  net_Dial :: "string \<Rightarrow> string + string \<times> string"
  net_random :: "nat \<Rightarrow> nat"
  net_Write :: "nat list \<Rightarrow> string option"
  net_ReadFull :: "nat \<Rightarrow> nat \<times> read_err"

text \<open>The flags address and size where the command line does not give them.\<close>

definition probe_flags :: "string \<times> int" where
  "probe_flags = ([], 1)"

definition greeting :: "string \<times> string \<Rightarrow> string" where
  "greeting ends = ''Connected '' @ fst ends @ '' -> '' @ snd ends"

definition read_lines :: "nat \<times> read_err \<Rightarrow> string list" where
  "read_lines r = (case snd r of ReadErr e \<Rightarrow> [e] | _ \<Rightarrow> []) @ [itoa (fst r) @ '' byte(s) read'']"

text \<open>The usage text of the package flag is the argument \<open>usage\<close>.\<close>

definition main_probe :: "probe_net \<Rightarrow> string list \<Rightarrow> string \<Rightarrow> int \<Rightarrow> string list \<times> nat" where
  "main_probe nw usage addr sz =
     (if addr = [] then (''Missing target address: -address <address>.'' # usage, 0)
      else if sz < 0 then ([''Payload size cannot be less than zero.''], 0)
      else case net_Dial nw addr of
        Inl err \<Rightarrow> ([err], 0)
      | Inr ends \<Rightarrow>
          if sz > 0 then
            let buf = map (net_random nw) [0..<nat sz] in
            case net_Write nw buf of
              Some err \<Rightarrow> ([greeting ends, err], 1)
            | None \<Rightarrow> ([greeting ends,
                ''Written '' @ itoa (nat sz) @ '' byte(s), the first byte is '' @ itoa (hd buf)] @
                read_lines (net_ReadFull nw 65535), 0)
          else ([greeting ends] @ read_lines (net_ReadFull nw 65535), 0))"

text \<open>Only a failed write makes the program fail.\<close>

lemma probe_status:
  "snd (main_probe nw usage addr sz) = 1 \<longleftrightarrow> addr \<noteq> [] \<and> 0 < sz \<and> (\<exists>ends err.
     net_Dial nw addr = Inr ends \<and> net_Write nw (map (net_random nw) [0..<nat sz]) = Some err)"
  by (auto simp: main_probe_def Let_def split: sum.split option.split)

subsection \<open>The read and the signal\<close>

text \<open>
  What is left of main once the signal handler is installed: io.ReadFull on the connection, which
  reads until the buffer is full or a read fails, and the two lines after it; and the goroutine,
  which takes one signal from its channel, prints it and sets the deadline. From then on every
  read fails. The network delivers bytes or ends the stream at any time; the end of main ends
  the goroutine. The variable err of main, once the read has set it, is \<open>read_error\<close>. Lines of the
  goroutine are marked with \<open>True\<close>.
\<close>

definition bufLen :: nat where
  "bufLen = 65535"

datatype sig_pc = NoSignal | GotSignal string | Announced | DeadlineSet

datatype main_pc = ReadingFull | ReadReturned | Reporting | Exited

record probe_state =
  got :: nat
  spc :: sig_pc
  mpc :: main_pc
  read_error :: "read_err option"
  printed :: "(bool \<times> string) list"

definition probe_start :: probe_state where
  "probe_start = \<lparr>got = 0, spc = NoSignal, mpc = ReadingFull, read_error = None, printed = []\<rparr>"

text \<open>What the network and the user do, and what the program does.\<close>

inductive net_step :: "probe_state \<Rightarrow> probe_state \<Rightarrow> bool" where
  data: "mpc s = ReadingFull \<Longrightarrow> spc s \<noteq> DeadlineSet \<Longrightarrow> 0 < k \<Longrightarrow> got s + k \<le> bufLen \<Longrightarrow>
    net_step s (s\<lparr>got := got s + k\<rparr>)"
| eof: "mpc s = ReadingFull \<Longrightarrow> spc s \<noteq> DeadlineSet \<Longrightarrow> got s < bufLen \<Longrightarrow>
    net_step s (s\<lparr>mpc := ReadReturned,
      read_error := Some (ReadErr (if got s = 0 then ''EOF'' else ''unexpected EOF''))\<rparr>)"
| failed: "mpc s = ReadingFull \<Longrightarrow> spc s \<noteq> DeadlineSet \<Longrightarrow> got s < bufLen \<Longrightarrow>
    net_step s (s\<lparr>mpc := ReadReturned, read_error := Some (ReadErr e)\<rparr>)"
| signal: "mpc s \<noteq> Exited \<Longrightarrow> spc s = NoSignal \<Longrightarrow> net_step s (s\<lparr>spc := GotSignal sig\<rparr>)"

inductive probe_step :: "probe_state \<Rightarrow> probe_state \<Rightarrow> bool" where
  full: "mpc s = ReadingFull \<Longrightarrow> got s = bufLen \<Longrightarrow> probe_step s (s\<lparr>mpc := ReadReturned, read_error := Some NoErr\<rparr>)"
| timeout: "mpc s = ReadingFull \<Longrightarrow> spc s = DeadlineSet \<Longrightarrow> got s < bufLen \<Longrightarrow>
    probe_step s (s\<lparr>mpc := ReadReturned, read_error := Some ErrDeadlineExceeded\<rparr>)"
| report_error: "mpc s = ReadReturned \<Longrightarrow> read_error s = Some r \<Longrightarrow>
    probe_step s (s\<lparr>mpc := Reporting,
      printed := printed s @ (case r of ReadErr e \<Rightarrow> [(False, e)] | _ \<Rightarrow> [])\<rparr>)"
| report_count: "mpc s = Reporting \<Longrightarrow>
    probe_step s (s\<lparr>mpc := Exited,
      printed := printed s @ [(False, itoa (got s) @ '' byte(s) read'')]\<rparr>)"
| announce: "mpc s \<noteq> Exited \<Longrightarrow> spc s = GotSignal sig \<Longrightarrow>
    probe_step s (s\<lparr>spc := Announced,
      printed := printed s @ [(True, ''Received '' @ sig @ '', stopping...'')]\<rparr>)"
| set_deadline: "mpc s \<noteq> Exited \<Longrightarrow> spc s = Announced \<Longrightarrow> probe_step s (s\<lparr>spc := DeadlineSet\<rparr>)"

inductive probe_reach :: "probe_state \<Rightarrow> bool" where
  probe_init: "probe_reach probe_start"
| probe_own: "probe_reach s \<Longrightarrow> probe_step s s' \<Longrightarrow> probe_reach s'"
| probe_net: "probe_reach s \<Longrightarrow> net_step s s' \<Longrightarrow> probe_reach s'"

definition main_lines :: "(bool \<times> string) list \<Rightarrow> string list" where
  "main_lines ls = map snd (filter (\<lambda>l. \<not> fst l) ls)"

definition signal_lines :: "(bool \<times> string) list \<Rightarrow> string list" where
  "signal_lines ls = map snd (filter fst ls)"

lemma lines_simps [simp]:
  "main_lines [] = []" "signal_lines [] = []"
  "main_lines (l # ls) = (if fst l then main_lines ls else snd l # main_lines ls)"
  "signal_lines (l # ls) = (if fst l then snd l # signal_lines ls else signal_lines ls)"
  "main_lines (ls @ ls') = main_lines ls @ main_lines ls'"
  "signal_lines (ls @ ls') = signal_lines ls @ signal_lines ls'"
  by (simp_all add: main_lines_def signal_lines_def)

text \<open>What main has printed at each of its points, and when ReadFull returns what.\<close>

definition result_ok :: "probe_state \<Rightarrow> read_err \<Rightarrow> bool" where
  "result_ok s r \<longleftrightarrow> (r = NoErr \<longleftrightarrow> got s = bufLen) \<and>
     (r = ErrDeadlineExceeded \<longrightarrow> spc s = DeadlineSet)"

definition probe_inv :: "probe_state \<Rightarrow> bool" where
  "probe_inv s \<longleftrightarrow> got s \<le> bufLen \<and>
     (case read_error s of
        None \<Rightarrow> mpc s = ReadingFull \<and> main_lines (printed s) = []
      | Some r \<Rightarrow> result_ok s r \<and> (case mpc s of
            ReadingFull \<Rightarrow> False
          | ReadReturned \<Rightarrow> main_lines (printed s) = []
          | Reporting \<Rightarrow> main_lines (printed s) @ [itoa (got s) @ '' byte(s) read''] = read_lines (got s, r)
          | Exited \<Rightarrow> main_lines (printed s) = read_lines (got s, r))) \<and>
     (signal_lines (printed s) = [] \<longleftrightarrow> spc s = NoSignal \<or> (\<exists>sig. spc s = GotSignal sig)) \<and>
     length (signal_lines (printed s)) \<le> 1"

lemma probe_step_inv:
  assumes "probe_step s s'" and "probe_inv s"
  shows "probe_inv s'"
  using assms
proof (induction rule: probe_step.induct)
  case (report_error s r)
  then show ?case by (cases r) (auto simp: probe_inv_def result_ok_def read_lines_def)
qed (auto simp: probe_inv_def result_ok_def split: option.splits main_pc.splits)

lemma net_step_inv:
  assumes "net_step s s'" and "probe_inv s"
  shows "probe_inv s'"
  using assms
  by (induction rule: net_step.induct)
    (auto simp: probe_inv_def result_ok_def split: option.splits main_pc.splits)

lemma probe_reach_inv: "probe_reach s \<Longrightarrow> probe_inv s"
proof (induction rule: probe_reach.induct)
  case probe_init
  show ?case by (simp add: probe_inv_def probe_start_def)
qed (blast intro: probe_step_inv net_step_inv)+

text \<open>Every step brings the end nearer.\<close>

fun main_rank :: "main_pc \<Rightarrow> nat" where
  "main_rank ReadingFull = 3" | "main_rank ReadReturned = 2" | "main_rank Reporting = 1"
| "main_rank Exited = 0"

fun sig_rank :: "sig_pc \<Rightarrow> nat" where
  "sig_rank NoSignal = 3" | "sig_rank (GotSignal sig) = 2" | "sig_rank Announced = 1"
| "sig_rank DeadlineSet = 0"

definition probe_rank :: "probe_state \<Rightarrow> nat" where
  "probe_rank s = (bufLen - got s) + main_rank (mpc s) + sig_rank (spc s)"

lemma probe_decreases:
  "probe_step s s' \<or> net_step s s' \<Longrightarrow> probe_rank s' < probe_rank s"
  by (auto simp: probe_rank_def elim!: probe_step.cases net_step.cases)

lemma probe_signalled:
  assumes "probe_inv s" and "spc s \<noteq> NoSignal" and "mpc s \<noteq> Exited"
  shows "\<exists>s'. probe_step s s'"
proof (cases "spc s")
  case (GotSignal sig)
  with announce assms(3) show ?thesis by blast
next
  case Announced
  with set_deadline assms(3) show ?thesis by blast
next
  case DeadlineSet
  from assms(1) have "got s \<le> bufLen" by (simp add: probe_inv_def)
  show ?thesis
  proof (cases "mpc s")
    case ReadingFull
    with \<open>got s \<le> bufLen\<close> DeadlineSet full timeout show ?thesis by (meson nat_less_le)
  next
    case ReadReturned
    with assms(1) obtain r where "read_error s = Some r" by (auto simp: probe_inv_def split: option.splits)
    with ReadReturned report_error show ?thesis by blast
  qed (use assms(3) report_count in blast)+
qed (use assms(2) in simp)

text \<open>
  C32. The probe always ends: no run is longer than the buffer and the lines left, and after a
  signal the program never waits for the network again but goes on to its end. At its end main has
  printed the error that the read returned, but nothing for a read that filled the buffer or ran
  into the deadline, and then the number of bytes received. The read returned without an error
  exactly if the buffer is full; it ran into the deadline only after the goroutine announced a
  signal, which it does at most once.
\<close>

theorem probe_ends:
  assumes "probe_reach s"
  shows "\<not> (\<exists>g. g 0 = s \<and> (\<forall>n. probe_step (g n) (g (Suc n)) \<or> net_step (g n) (g (Suc n)))) \<and>
    (spc s \<noteq> NoSignal \<and> mpc s \<noteq> Exited \<longrightarrow> (\<exists>s'. probe_step s s')) \<and>
    length (signal_lines (printed s)) \<le> 1 \<and>
    (mpc s = Exited \<longrightarrow> (\<exists>r. read_error s = Some r \<and>
       main_lines (printed s) = (case r of ReadErr e \<Rightarrow> [e] | NoErr \<Rightarrow> [] | ErrDeadlineExceeded \<Rightarrow> []) @
         [itoa (got s) @ '' byte(s) read''] \<and>
       (r = NoErr \<longleftrightarrow> got s = bufLen) \<and>
       (r = ErrDeadlineExceeded \<longrightarrow> length (signal_lines (printed s)) = 1)))"
proof -
  have inv: "probe_inv s" by (rule probe_reach_inv [OF assms])
  have "\<not> (\<forall>n. probe_step (g n) (g (Suc n)) \<or> net_step (g n) (g (Suc n)))" for g
    using probe_decreases [of "g n" "g (Suc n)" for n]
      wf_no_infinite_down_chainE [OF wf_less_than, of "\<lambda>n. probe_rank (g n)"]
    by (metis less_than_iff)
  moreover have "\<exists>r. read_error s = Some r \<and>
       main_lines (printed s) = (case r of ReadErr e \<Rightarrow> [e] | NoErr \<Rightarrow> [] | ErrDeadlineExceeded \<Rightarrow> []) @
         [itoa (got s) @ '' byte(s) read''] \<and>
       (r = NoErr \<longleftrightarrow> got s = bufLen) \<and>
       (r = ErrDeadlineExceeded \<longrightarrow> length (signal_lines (printed s)) = 1)" if "mpc s = Exited"
    using that inv
    by (cases "signal_lines (printed s)")
      (auto simp: probe_inv_def result_ok_def read_lines_def split: option.splits read_err.splits)
  moreover have "length (signal_lines (printed s)) \<le> 1" using inv by (simp add: probe_inv_def)
  ultimately show ?thesis using probe_signalled [OF inv] by blast
qed

theorem probe_ends_witness:
  "\<exists>s. probe_reach s \<and> mpc s = Exited \<and> got s = 3 \<and> main_lines (printed s) = [''3 byte(s) read''] \<and>
     (\<exists>r. read_error s = Some r \<and> r \<noteq> NoErr)"
proof -
  let ?s = "probe_start\<lparr>got := 3, spc := DeadlineSet, mpc := Exited, read_error := Some ErrDeadlineExceeded, printed :=
    [(True, ''Received interrupt, stopping...''), (False, ''3 byte(s) read'')]\<rparr>"
  let ?d = "probe_start\<lparr>got := 3\<rparr>"
  let ?g = "?d\<lparr>spc := GotSignal ''interrupt''\<rparr>"
  let ?a = "?d\<lparr>spc := Announced, printed := [(True, ''Received interrupt, stopping...'')]\<rparr>"
  have "probe_reach ?d"
    using probe_net [OF probe_init data [of probe_start 3]] by (simp add: probe_start_def bufLen_def)
  from probe_net [OF this signal [of _ "''interrupt''"]] have "probe_reach ?g"
    by (simp add: probe_start_def)
  from probe_own [OF this announce [of _ "''interrupt''"]] have "probe_reach ?a"
    by (simp add: probe_start_def)
  from probe_own [OF this set_deadline] have "probe_reach (?a\<lparr>spc := DeadlineSet\<rparr>)"
    by (simp add: probe_start_def)
  from probe_own [OF this timeout] have
    "probe_reach (?a\<lparr>spc := DeadlineSet, mpc := ReadReturned, read_error := Some ErrDeadlineExceeded\<rparr>)"
    by (simp add: probe_start_def bufLen_def)
  from probe_own [OF this report_error [of _ ErrDeadlineExceeded]] have
    "probe_reach (?a\<lparr>spc := DeadlineSet, mpc := Reporting, read_error := Some ErrDeadlineExceeded\<rparr>)"
    by (simp add: probe_start_def)
  from probe_own [OF this report_count] have reach: "probe_reach ?s"
    by (simp add: probe_start_def itoa.simps digit_def)
  moreover have "got ?s = 3" "mpc ?s = Exited" "main_lines (printed ?s) = [''3 byte(s) read'']" by simp_all
  ultimately show ?thesis
    using probe_ends [OF reach] by (intro exI [of _ ?s]) (auto simp: bufLen_def)
qed

end
