(* ===== verification/Tfo_Stress.thy ===== *)
theory Tfo_Stress
  imports Prelude
begin

text \<open>
  tfo/stress/main.go: a loop that dials, closes the writing half, reads to the end and logs. The
  model is a run over what the network answers to any number of rounds; beside it the goroutine
  that serves the profiler logs one line if its server ever ends. What the program leaves behind
  is the lines it logs and, for each connection it opened, whether it was closed.
\<close>

record round_answers =
  ans_Dial :: "string option"
  ans_CloseWrite :: "string option"
  ans_ReadAll :: "nat list \<times> string option"

datatype tfo_event =
  Logged string
| LoggedBytes "nat list"
| Opened
| Closed
| Slept
| Fatal string

definition log_err :: "string option \<Rightarrow> tfo_event list" where
  "log_err err = (case err of None \<Rightarrow> [] | Some e \<Rightarrow> [Logged e])"

text \<open>One call; \<open>False\<close> when the program has exited.\<close>

definition stressTFO :: "round_answers \<Rightarrow> tfo_event list \<times> bool" where
  "stressTFO a = (case ans_Dial a of
     Some err \<Rightarrow> ([Fatal err], False)
   | None \<Rightarrow> (let (b, err) = ans_ReadAll a in
       ([Opened] @ log_err (ans_CloseWrite a) @ log_err err @ [LoggedBytes b, Closed], True)))"

fun stress_loop :: "round_answers list \<Rightarrow> tfo_event list" where
  "stress_loop [] = []"
| "stress_loop (a # as) = (case stressTFO a of
     (es, go_on) \<Rightarrow> es @ (if go_on then Slept # stress_loop as else []))"

text \<open>The line of the profiler's server, if it ends, comes between any two events.\<close>

fun interleavings :: "'a list \<Rightarrow> 'a \<Rightarrow> 'a list list" where
  "interleavings [] x = [[x]]"
| "interleavings (y # ys) x = (x # y # ys) # map ((#) y) (interleavings ys x)"

definition main_stress :: "string option \<Rightarrow> round_answers list \<Rightarrow> tfo_event list list" where
  "main_stress pprof as = (case pprof of
     None \<Rightarrow> [stress_loop as]
   | Some err \<Rightarrow> interleavings (stress_loop as) (Logged err))"

subsection \<open>No connection is left open, and only a failed dial ends the program\<close>

lemma count_Opened_Closed:
  "length (filter ((=) Opened) (stress_loop as)) = length (filter ((=) Closed) (stress_loop as))"
  by (induction as) (auto simp: stressTFO_def log_err_def split: option.splits prod.splits)

lemma stress_fatal:
  "(\<exists>e. Fatal e \<in> set (stress_loop as)) \<longleftrightarrow> (\<exists>a\<in>set as. ans_Dial a \<noteq> None)"
  by (induction as) (auto simp: stressTFO_def log_err_def split: option.splits prod.splits)

lemma stress_prefix:
  assumes "\<forall>a\<in>set as. ans_Dial a = None"
  shows "stress_loop (as @ bs) = stress_loop as @ stress_loop bs"
  using assms by (induction as) (auto simp: stressTFO_def split: prod.splits)

end
