(* ===== verification/Spec2Isabelle.thy ===== *)
theory Spec2Isabelle
  imports Cache_Linear Cache_Stored Ip_Mapped Monitor_Props Log_Types Data_Usage Prefix_Text Resolv
    Windows_Props Route_Main Logging Ssh_Client Probe Tfo_Stress
begin

text \<open>
  A verification library for cubic-go-playground, a collection of small Go programs and packages.

  \<^bold>\<open>The parts of the program and where they are modelled\<close>

  \<^item> cache/cache.go, an expiration cache: a map from keys to the nodes of a doubly linked list sorted
    by expiration. Cache\_Heap has every operation on an explicit heap of nodes, pointer by pointer;
    Cache\_Spec has the list of entries the cache promises; Cache\_Refine proves that each operation
    implements the specification; Cache\_Props has the runs of calls and their properties; Cache\_Links
    proves once what every list surgery respects (the locale \<open>link_relation\<close>); Cache\_Race
    has Get as atomic steps between the operations of other goroutines. Rw\_Mutex has the
    reader/writer lock of the standard library, Cache\_Locks any number of goroutines that call the
    methods under it, the consumers of iterators included, as a step relation with its invariant,
    Cache\_Locks\_Props what follows, Cache\_Linear linearizability and program order, and
    Cache\_Stored what the racy reads, word by word, can answer.
  \<^item> ip/ip.go, endpoints up to IPv4 mapping, each operation once through net/netip and once through
    memory: Ip\_Mapped.
  \<^item> logging/tslog/tslog.go, the logger of the route commands: Tslog. logging/logging.go, constructors
    of other loggers: Logging.
  \<^item> route/bsdroute, the routing socket library of the five BSD systems: Bsd\_Names has the tables of
    names\_*.go, Bsd\_Flags the text of types and flags, Bsd\_Route the rest of the package
    (ParseAddrs, RtaAlign, SysctlGetBytes, the sockets, the ioctl), Bsd\_Route\_Props what it does.
  \<^item> route/cmd/route, the route monitor: Route\_Monitor has main\_bsd.go (parseAndLogMsgs with all its
    branches, the monitor loop and main), Route\_Monitor\_Props and Monitor\_Props its properties,
    Darwin\_Abi a concrete machine for the examples; Route\_Windows has main\_windows.go (the
    notification handler and the goroutines of run as a step relation), Windows\_Props its
    properties; Log\_Types has the types of the records that both monitors log; Route\_Main has
    main.go and main\_stub.go and what the BSD main writes through its loggers.
  \<^item> ssgodatabyip/ssgodatabyip.go, data usage by address: Event\_Reader has eventJSONReader,
    Data\_Usage the accounting and the report.
  \<^item> prefixset, prefix sets from and to text: Prefix\_Text.
  \<^item> resolv/main.go: Resolv. sshclient/sshclient.go: Ssh\_Client. probe/tcp.go: Probe, with
    the read and the goroutine that waits for a signal as a step relation. tfo/stress/main.go:
    Tfo\_Stress.
  \<^item> What these parts use of net/netip is modelled too: Netip (values), Netip\_Text (text forms) and
    Netip\_Parse (the parsers, with the theorem that they read back the text forms). Prelude has
    the map of Go behind the interface \<open>go_map\<close>, list and number facts.

  The parts meet as in the code: the monitors log through Tslog (Route\_Monitor and Route\_Windows
  yield the sequence of calls on a logger, \<open>log_correct\<close> says what a logger makes of any
  sequence of calls, and \<open>bsd_main_output\<close> below puts main, flags and logger together), the
  BSD monitor calls route/bsdroute, every part that has addresses uses Netip, and the accounting loop uses the map of the Prelude.

  \<^bold>\<open>Conventions\<close>

  A call that does not return normally is \<open>None\<close>: an index or nil panic, a read outside memory,
  or a loop that does not end. That a call returns is always stated as \<open>Some\<close>. Errors of the code
  are values of a sum or an option inside. Machine integers are words of their width; Go's int is
  int or nat where it cannot overflow. Strings are lists of bytes written as characters. Code that
  is not in the repository is an argument: the constants and struct layouts of x/sys/unix and
  x/sys/windows, the operating system, the JSON decoder, the prefix sets of bart, netipx and
  netipds, the slog handlers, the ssh packages. What a theorem needs of it is a named
  hypothesis with an instance on which it holds.

  \<^bold>\<open>What the groups of lemmas show\<close>

  \<^item> Cache: the heap represents the entry list after every operation (\<open>cache_refinement\<close>), so runs of
    calls return and answer like the specification; the order of entries, evictions, the frame of
    each operation. The two set operations share one contract, the locale \<open>ordered_insert\<close> and its
    heap version \<open>placement\<close>, interpreted for the head and for the tail. An interleaved Get is memory
    safe, but its answer need not have been current at any moment.
  \<^item> Cache under its lock: what the methods need of the lock is the locale \<open>rw_lock\<close> (its account of
    holders moves with every operation), interpreted by the lock of the standard library. The
    invariant \<open>sys_inv\<close> (who holds the lock, what every frame of every goroutine knows about the
    heap) holds in every reachable state. So a writer is alone, nothing panics, all methods but Get
    and GetEntry are linearizable, an iteration sees one snapshot, the pointer of GetEntry keeps its
    key, and every word that Get answers was stored for its key (\<open>get_can_tear\<close>: the words need not
    belong together). Without calls that wait for the lock inside iterations every run ends with all
    calls returned; with them a goroutine can wait for itself for ever.
  \<^item> Routing messages: on any bytes the parser returns and reads at most a known distance behind
    the slice (and that distance is needed: an address cut off by the end of the message is read
    past it); the filter logs what it should; each message makes its call, in order, up to the first
    malformed one; every record has the attributes and types of its message; the monitor survives
    read errors and every message that leaves that distance free in its buffer; ParseAddrs gives back what a kernel
    lays out; alignment and its wrap-around; the retry loop of sysctl does the calls of its
    specification \<open>sysctl_run\<close> and gives the whole table; descriptors do not leak.
  \<^item> Names: message types and flags have the documented names, and the text of flags determines the
    named flags.
  \<^item> Windows monitor: the invariant \<open>orderly\<close> holds as long as the cancellation has not failed, so no
    callback sends on the closed channel and nothing is lost; the goroutines can always finish and, while
    no notification arrives, cannot go on for ever; a failed cancellation can panic; the table is dumped once;
    every record is well typed.
  \<^item> Usage report: the reader streams whole lines that fit its inner buffer from their braces, for
    all sizes of the buffers it is given, and where it loses bytes; the report sums the bytes of each address modulo 64 bits.
  \<^item> Prefix sets: the three loaders are one loader (the locale \<open>text_loader\<close>, interpreted three
    times), and text written is read back, IPv6 shortening included.
  \<^item> The rest: endpoint comparisons and mappings agree where they should, attributes, the choice of
    the resolver.

  \<^bold>\<open>Recursion and bounds\<close>

  Loops over lists are structural. The message loop and the readers recurse on the bytes left or
  the room left, with their termination proofs; the retry loop of sysctl, which may not end, is a
  partial function whose result \<open>None\<close> is not returning. The monitor, which never returns, is its run
  over any finite sequence of reads. No fuel is used. The order in which Go visits a map and the
  order of equal keys after its unstable sort are arguments.

  \<^bold>\<open>Not modelled\<close>

  The test files under csprng, swgp, ecdh and
  shadowsocks test other packages. Of the modelled parts: colors and formats of the log handlers,
  the parsing of flags, signals (but for the probe), and the decoding of JSON. Data races are
  modelled for the cache (where the code has one): a locked section is one step, and an unlocked
  read of Get or GetEntry takes each of its words from any state the node has been in since it was
  looked up under the lock, as the memory model of Go allows. That covers what a reader sees of a
  section that is still running, as the section began after the lookup. How the words are put
  together is an argument of the call. Cache\_Race has these reads as single steps; what it shows is
  that some answers are possible, and those runs are runs of the code too. The
  lock lets a waiting reader go before the next writer; the model lets either go first, so it has
  the runs of the code and more. A consumer of an iterator decides from the pairs it was given, not
  from what its calls answer. Callbacks of Windows that run at the same time meet at the channel in
  any order.
\<close>

section \<open>The BSD monitor and its log\<close>

text \<open>
  C22. What the BSD command writes: the handler that the flags select gets, one by one and in order,
  the calls of main at or above the level of the flags, stamped unless times are off, with the
  attribute source on the calls of the dumps and of the monitor; failures of the handler show on
  standard error and lose no other call. The calls are those of the interface dump
  (NET\_RT\_IFLIST), of the route dump (NET\_RT\_DUMP) and of the monitor, parsed with one ioctl socket
  of AF\_INET6, the dumps filtered unless everything is asked for; or the first system call that
  fails ends the program with one error that has its text, after the interface dump if that was read.
\<close>

theorem bsd_main_output:
  "case main_bsd u os env sock sysctl err_text (dumpAll f) rs k of
     None \<Rightarrow> True
   | Some (r, k') \<Rightarrow>
       emit ops (NewLogger build (logCfg f)) clock 0 (calls_of r) w =
         deliver ops (build (if logKVPairs f then SlogText (logLevel f)
             else if logJSON f then SlogJSON (logLevel f)
             else TintText (logLevel f) (logNoColor f)))
           (due f clock (calls_of r)) w \<and>
       (case r of
          Exit1 calls \<Rightarrow>
            (\<exists>msg e ifaces. exits_with u os env sock sysctl (dumpAll f) k msg e ifaces k' \<and>
               calls = map (\<lambda>c. (Some ''interface'', c)) ifaces @
                 [(None, LevelError, msg, [Err_attr (err_text e)])])
        | Monitoring calls \<Rightarrow>
            (\<exists>ifaces routes monitor.
               monitors_with u os env sock sysctl (dumpAll f) rs k ifaces routes monitor k' \<and>
               calls = map (\<lambda>c. (Some ''interface'', c)) ifaces @
                 map (\<lambda>c. (Some ''route'', c)) routes @ map (\<lambda>c. (Some ''monitor'', c)) monitor))"
proof (cases "main_bsd u os env sock sysctl err_text (dumpAll f) rs k")
  case (Some p)
  obtain r k' where p: "p = (r, k')" by fastforce
  have "NewHandler (logCfg f) = (if logKVPairs f then SlogText (logLevel f)
      else if logJSON f then SlogJSON (logLevel f) else TintText (logLevel f) (logNoColor f))"
    by (simp add: NewHandler_def logCfg_def)
  then have "emit ops (NewLogger build (logCfg f)) clock 0 (calls_of r) w =
      deliver ops (build (if logKVPairs f then SlogText (logLevel f)
             else if logJSON f then SlogJSON (logLevel f)
             else TintText (logLevel f) (logNoColor f))) (due f clock (calls_of r)) w"
    using main_logger [of ops build f clock "calls_of r" w] by simp
  then show ?thesis
    unfolding Some p option.case prod.case
    by (rule conjI) (cases r; use Some p main_exits main_monitors in fastforce)
qed simp

end
